(* ===== verification/Prelude.thy ===== *)
theory Prelude
  imports Main
begin

text \<open>
  What every other theory of the development shares: the JavaScript errors of the
  program as a datatype, the result type of code that may throw, two collections of
  simplification rules, and the locales that state the interfaces of the library:
  \<open>codec\<close> (a lossless encoding), \<open>self_delimiting\<close> (an encoding whose end can be
  found in a longer byte string), \<open>machine\<close> (a step function with an invariant) and
  \<open>framing\<close> (a stream cut into pieces).
\<close>

section \<open>Collections of rules\<close>

named_theorems js_defs \<open>definitions of the JavaScript standard library that proofs unfold\<close>
named_theorems step_defs \<open>definitions of the handlers that a case analysis of a step unfolds\<close>

section \<open>Results of code that may throw\<close>

text \<open>
  A JavaScript function that may throw is a function into \<open>'e + 'a\<close>: \<open>Inl e\<close> is the
  thrown error, \<open>Inr x\<close> the returned value.
\<close>

fun try_bind :: "'e + 'a \<Rightarrow> ('a \<Rightarrow> 'e + 'b) \<Rightarrow> 'e + 'b" where
  "try_bind (Inl e) f = Inl e"
| "try_bind (Inr x) f = f x"

lemma try_bind_Inr_iff [simp]:
  "try_bind r f = Inr y \<longleftrightarrow> (\<exists>x. r = Inr x \<and> f x = Inr y)"
  by (cases r) auto

lemma try_bind_Inl_iff:
  "try_bind r f = Inl e \<longleftrightarrow> r = Inl e \<or> (\<exists>x. r = Inr x \<and> f x = Inl e)"
  by (cases r) auto

lemma try_bind_cong [fundef_cong]:
  "r = r' \<Longrightarrow> (\<And>x. r' = Inr x \<Longrightarrow> f x = g x) \<Longrightarrow> try_bind r f = try_bind r' g"
  by (cases r') auto

text \<open>The first failure of a list of fallible computations, as a loop that throws would give it.\<close>

fun try_map :: "('a \<Rightarrow> 'e + 'b) \<Rightarrow> 'a list \<Rightarrow> 'e + 'b list" where
  "try_map f [] = Inr []"
| "try_map f (x # xs) =
     try_bind (f x) (\<lambda>y. try_bind (try_map f xs) (\<lambda>ys. Inr (y # ys)))"

lemma try_map_cong [fundef_cong]:
  "xs = ys \<Longrightarrow> (\<And>x. x \<in> set ys \<Longrightarrow> f x = g x) \<Longrightarrow> try_map f xs = try_map g ys"
proof (induction xs arbitrary: ys)
  case Nil
  then show ?case by simp
next
  case (Cons x xs)
  then show ?case by (auto intro: try_bind_cong)
qed

lemma try_map_Inr_length: "try_map f xs = Inr ys \<Longrightarrow> length ys = length xs"
  by (induction xs arbitrary: ys) auto

lemma try_map_InlD: "try_map f xs = Inl e \<Longrightarrow> \<exists>x \<in> set xs. f x = Inl e"
  by (induction xs) (auto simp: try_bind_Inl_iff)

lemma try_map_Inl_iff: "(\<exists>e. try_map f xs = Inl e) \<longleftrightarrow> (\<exists>x \<in> set xs. \<exists>e. f x = Inl e)"
proof (induction xs)
  case Nil
  then show ?case by simp
next
  case (Cons x xs)
  then show ?case by (cases "f x"; cases "try_map f xs") auto
qed

section \<open>Lists\<close>

lemma concat_map_singleton [simp]: "concat (map (\<lambda>x. [f x]) xs) = map f xs"
  by (induction xs) auto

lemma butlast_snoc_last: "xs \<noteq> [] \<Longrightarrow> butlast xs @ [last xs] = xs"
  by simp

lemma map_of_filter_fst: "P k \<Longrightarrow> map_of (filter (\<lambda>kv. P (fst kv)) kvs) k = map_of kvs k"
  by (induction kvs) auto

section \<open>Interfaces\<close>

subsection \<open>Lossless encodings\<close>

locale codec =
  fixes enc :: "'a \<Rightarrow> 'b"
    and dec :: "'b \<Rightarrow> 'a option"
    and ok :: "'a \<Rightarrow> bool"
  assumes dec_enc: "ok x \<Longrightarrow> dec (enc x) = Some x"
begin

lemma enc_eq_iff: "ok x \<Longrightarrow> ok y \<Longrightarrow> enc x = enc y \<longleftrightarrow> x = y"
  by (metis dec_enc option.inject)

lemma inj_on_enc: "inj_on enc {x. ok x}"
  by (auto simp: inj_on_def enc_eq_iff)

end

subsection \<open>Encodings whose end can be found\<close>

text \<open>
  A reader that takes one encoding off the front of a longer list. It makes the
  concatenation of encodings unambiguous, which is what a signature over several
  fields relies on.
\<close>

locale self_delimiting =
  fixes enc :: "'a \<Rightarrow> 'b list"
    and read :: "'b list \<Rightarrow> ('a \<times> 'b list) option"
    and ok :: "'a \<Rightarrow> bool"
  assumes read_enc: "ok x \<Longrightarrow> read (enc x @ rest) = Some (x, rest)"
    and enc_not_Nil: "ok x \<Longrightarrow> enc x \<noteq> []"
begin

lemma enc_append_eq_iff:
  assumes "ok x" and "ok y"
  shows "enc x @ xs = enc y @ ys \<longleftrightarrow> x = y \<and> xs = ys"
proof
  assume "enc x @ xs = enc y @ ys"
  then have "read (enc x @ xs) = read (enc y @ ys)" by simp
  with assms show "x = y \<and> xs = ys" by (simp add: read_enc)
qed simp

lemma concat_enc_eq_iff:
  assumes "list_all ok xs" and "list_all ok ys"
  shows "concat (map enc xs) = concat (map enc ys) \<longleftrightarrow> xs = ys"
  using assms
proof (induction xs arbitrary: ys)
  case Nil
  then show ?case by (cases ys) (auto simp: enc_not_Nil)
next
  case (Cons x xs)
  show ?case
  proof (cases ys)
    case Nil
    with Cons.prems show ?thesis by (auto simp: enc_not_Nil)
  next
    case (Cons y ys')
    with Cons.prems Cons.IH show ?thesis by (auto simp: enc_append_eq_iff)
  qed
qed

end

sublocale self_delimiting \<subseteq> single: codec enc "\<lambda>bs. map_option fst (read bs)" ok
proof unfold_locales
  fix x
  assume "ok x"
  then have "read (enc x @ []) = Some (x, [])" by (rule read_enc)
  then show "map_option fst (read (enc x)) = Some x" by simp
qed

subsection \<open>Machines with an invariant\<close>

text \<open>
  A component that is driven by events: a step function and what every step keeps. The
  invariant then holds after any sequence of events, in any order.
\<close>

locale machine =
  fixes step :: "'i \<Rightarrow> 's \<Rightarrow> 's"
    and inv :: "'s \<Rightarrow> bool"
  assumes inv_step: "inv s \<Longrightarrow> inv (step i s)"
begin

lemma inv_run: "inv s \<Longrightarrow> inv (fold step es s)"
  by (induction es arbitrary: s) (auto intro: inv_step)

end

subsection \<open>Framing of a stream\<close>

text \<open>
  A stream cut into chunks at arbitrary places: \<open>feed\<close> consumes one chunk and returns
  the frames it completes, or the error that ends the stream. The law says that cutting
  a chunk in two changes nothing; the lemma, that no way of cutting does.
\<close>

fun feed_all :: "('s \<Rightarrow> 'c list \<Rightarrow> 'e + ('f list \<times> 's)) \<Rightarrow> 's \<Rightarrow> 'c list list
    \<Rightarrow> 'e + ('f list \<times> 's)" where
  "feed_all feed s [] = Inr ([], s)"
| "feed_all feed s (c # cs) =
     try_bind (feed s c) (\<lambda>(fs, s'). try_bind (feed_all feed s' cs) (\<lambda>(gs, t). Inr (fs @ gs, t)))"

locale framing =
  fixes feed :: "'s \<Rightarrow> 'c list \<Rightarrow> 'e + ('f list \<times> 's)"
    and inv :: "'s \<Rightarrow> bool"
  assumes feed_Nil: "inv s \<Longrightarrow> feed s [] = Inr ([], s)"
    and feed_append: "inv s \<Longrightarrow> feed s (xs @ ys) =
      try_bind (feed s xs) (\<lambda>(fs, s'). try_bind (feed s' ys) (\<lambda>(gs, t). Inr (fs @ gs, t)))"
    and feed_inv: "inv s \<Longrightarrow> feed s xs = Inr (fs, s') \<Longrightarrow> inv s'"
begin

lemma feed_all_concat: "inv s \<Longrightarrow> feed_all feed s cs = feed s (concat cs)"
proof (induction cs arbitrary: s)
  case Nil
  then show ?case by (simp add: feed_Nil)
next
  case (Cons c cs)
  show ?case
  proof (cases "feed s c")
    case (Inl e)
    with Cons.prems show ?thesis by (simp add: feed_append)
  next
    case (Inr r)
    then obtain fs s' where r: "feed s c = Inr (fs, s')" by (cases r) auto
    with Cons.prems have "inv s'" by (rule feed_inv)
    with r Cons show ?thesis by (simp add: feed_append)
  qed
qed

lemma same_stream_same_frames:
  "inv s \<Longrightarrow> concat cs = concat ds \<Longrightarrow> feed_all feed s cs = feed_all feed s ds"
  by (simp add: feed_all_concat)

end

end
