(* ===== verification/JsString.thy ===== *)
theory JsString
  imports Prelude "HOL-Library.Word" "HOL-Library.Sublist"
begin

text \<open>
  JavaScript strings as the sources use them. A string is a list of 16-bit code units,
  so \<open>length\<close> is the \<open>.length\<close> of the language and lone surrogates are values like
  any other. The operations are those the sources call: \<open>trim\<close>, \<open>split('\n')\<close>,
  \<open>startsWith\<close>, \<open>includes\<close>, \<open>slice\<close>, and matching against the program's regular
  expressions. Fixed texts of the program are written \<open>js ''...''\<close>.
\<close>

type_synonym jsstring = "16 word list"
type_synonym byte = "8 word"
type_synonym bytes = "byte list"

section \<open>Literals\<close>

definition unit_of :: "char \<Rightarrow> 16 word" where
  "unit_of c = word_of_nat (of_char c)"

definition js :: "string \<Rightarrow> jsstring" where
  "js s = map unit_of s"

text \<open>The double quote and the newline, which a HOL string literal cannot show plainly.\<close>

definition dq :: jsstring where "dq = [34]"
definition nl :: jsstring where "nl = [10]"

text \<open>A text with double quotes, written with back quotes in their place.\<close>

definition jsq :: "string \<Rightarrow> jsstring" where
  "jsq s = map (\<lambda>c. if c = CHR ''`'' then 34 else unit_of c) s"

definition quoted :: "jsstring \<Rightarrow> jsstring" where
  "quoted s = dq @ s @ dq"

lemma unat_unit_of [simp]: "unat (unit_of c) = of_char c"
proof -
  have "(of_char c :: nat) < 256" by (rule nat_of_char_less_256)
  then have "(of_char c :: nat) < 65536" by linarith
  then have "(of_char c :: nat) mod 2 ^ 16 = of_char c" by (simp add: mod_less)
  then show ?thesis by (simp only: unit_of_def unsigned_of_nat take_bit_eq_mod) simp
qed

lemma unit_of_less_256: "unat (unit_of c) < 256"
  by simp

lemma unit_of_eq_iff [simp]: "unit_of c = unit_of d \<longleftrightarrow> c = d"
  by (metis of_char_eq_iff unat_unit_of)

lemma inj_unit_of: "inj unit_of"
  by (simp add: inj_def)

lemma js_eq_iff [simp]: "js s = js t \<longleftrightarrow> s = t"
  by (simp add: js_def inj_map_eq_map inj_unit_of)

lemma js_Nil [simp]: "js [] = []"
  by (simp add: js_def)

lemma js_eq_Nil_iff [simp]: "js s = [] \<longleftrightarrow> s = []" "[] = js s \<longleftrightarrow> s = []"
  by (auto simp: js_def)

lemma length_js [simp]: "length (js s) = length s"
  by (simp add: js_def)

lemma js_append: "js (s @ t) = js s @ js t"
  by (simp add: js_def)

lemma length_jsq [simp]: "length (jsq s) = length s"
  by (simp add: jsq_def)

section \<open>White space and \<open>trim\<close>\<close>

text \<open>The code units of \<open>WhiteSpace\<close> and \<open>LineTerminator\<close> of ECMAScript.\<close>

definition is_js_space :: "16 word \<Rightarrow> bool" where
  "is_js_space u \<longleftrightarrow>
     u = 9 \<or> u = 10 \<or> u = 11 \<or> u = 12 \<or> u = 13 \<or> u = 32 \<or> u = 0xA0 \<or> u = 0x1680
     \<or> (0x2000 \<le> u \<and> u \<le> 0x200A) \<or> u = 0x2028 \<or> u = 0x2029 \<or> u = 0x202F \<or> u = 0x205F
     \<or> u = 0x3000 \<or> u = 0xFEFF"

definition trim :: "jsstring \<Rightarrow> jsstring" where
  "trim s = rev (dropWhile is_js_space (rev (dropWhile is_js_space s)))"

lemma all_dropWhile_iff: "(\<forall>x \<in> set (dropWhile P xs). P x) \<longleftrightarrow> (\<forall>x \<in> set xs. P x)"
  by (induction xs) auto

lemma trim_eq_Nil_iff: "trim s = [] \<longleftrightarrow> (\<forall>u \<in> set s. is_js_space u)"
  by (simp add: trim_def all_dropWhile_iff)

lemma trim_Nil [simp]: "trim [] = []"
  by (simp add: trim_def)

section \<open>\<open>split('\n')\<close>\<close>

text \<open>The result is never empty: its last element is what follows the last newline.\<close>

fun split_nl :: "jsstring \<Rightarrow> jsstring list" where
  "split_nl [] = [[]]"
| "split_nl (u # us) =
     (if u = 10 then [] # split_nl us
      else (case split_nl us of [] \<Rightarrow> [[u]] | l # ls \<Rightarrow> (u # l) # ls))"

lemma split_nl_not_Nil [simp]: "split_nl s \<noteq> []"
  by (induction s) (auto split: list.splits)

lemma split_nl_no_newline: "l \<in> set (split_nl s) \<Longrightarrow> 10 \<notin> set l"
proof (induction s arbitrary: l)
  case Nil
  then show ?case by simp
next
  case (Cons u us)
  then show ?case
    by (cases "split_nl us") (auto split: if_splits)
qed

lemma split_nl_append:
  "split_nl (s @ t) = butlast (split_nl s) @ split_nl (last (split_nl s) @ t)"
proof (induction s)
  case Nil
  then show ?case by simp
next
  case (Cons u us)
  obtain l ls where us: "split_nl us = l # ls" by (cases "split_nl us") auto
  show ?case
  proof (cases "ls = []")
    case True
    with us Cons show ?thesis by auto
  next
    case False
    with us Cons show ?thesis by auto
  qed
qed

lemma split_nl_single: "10 \<notin> set s \<Longrightarrow> split_nl s = [s]"
  by (induction s) auto

lemma split_nl_line: "10 \<notin> set s \<Longrightarrow> split_nl (s @ nl @ t) = s # split_nl t"
  by (induction s) (auto simp: nl_def)

text \<open>Joining the pieces with newlines gives the string back: nothing is lost or reordered.\<close>

fun join_nl :: "jsstring list \<Rightarrow> jsstring" where
  "join_nl [] = []"
| "join_nl [l] = l"
| "join_nl (l # ls) = l @ nl @ join_nl ls"

lemma join_nl_Cons: "ls \<noteq> [] \<Longrightarrow> join_nl (l # ls) = l @ nl @ join_nl ls"
  by (cases ls) auto

lemma join_split_nl: "join_nl (split_nl s) = s"
proof (induction s)
  case Nil
  then show ?case by simp
next
  case (Cons u us)
  obtain l ls where us: "split_nl us = l # ls" by (cases "split_nl us") auto
  with Cons show ?case by (cases ls) (auto simp: join_nl_Cons nl_def)
qed

section \<open>Substrings and character classes\<close>

definition startsWith :: "jsstring \<Rightarrow> jsstring \<Rightarrow> bool" where
  "startsWith s p \<longleftrightarrow> take (length p) s = p"

fun has_substring :: "jsstring \<Rightarrow> jsstring \<Rightarrow> bool" where
  "has_substring [] p \<longleftrightarrow> p = []"
| "has_substring (u # us) p \<longleftrightarrow> startsWith (u # us) p \<or> has_substring us p"

lemma startsWith_iff: "startsWith s p \<longleftrightarrow> (\<exists>t. s = p @ t)"
  unfolding startsWith_def by (metis append_eq_conv_conj append_take_drop_id)

lemma has_substring_iff_sublist: "has_substring s p \<longleftrightarrow> sublist p s"
proof (induction s)
  case Nil
  then show ?case by simp
next
  case (Cons u us)
  then show ?case by (auto simp: startsWith_iff sublist_Cons_right prefix_def)
qed

definition slice_from :: "nat \<Rightarrow> jsstring \<Rightarrow> jsstring" where
  "slice_from n s = drop n s"

definition slice_to :: "nat \<Rightarrow> jsstring \<Rightarrow> jsstring" where
  "slice_to n s = take n s"

lemma startsWith_append: "startsWith (p @ s) p"
  by (simp add: startsWith_def)

lemma slice_from_append: "slice_from (length p) (p @ s) = s"
  by (simp add: slice_from_def)

definition is_digit :: "16 word \<Rightarrow> bool" where
  "is_digit u \<longleftrightarrow> 48 \<le> u \<and> u \<le> 57"

definition is_lower_hex :: "16 word \<Rightarrow> bool" where
  "is_lower_hex u \<longleftrightarrow> is_digit u \<or> (97 \<le> u \<and> u \<le> 102)"

definition is_base64_char :: "16 word \<Rightarrow> bool" where
  "is_base64_char u \<longleftrightarrow>
     (65 \<le> u \<and> u \<le> 90) \<or> (97 \<le> u \<and> u \<le> 122) \<or> is_digit u \<or> u = 43 \<or> u = 47"

text \<open>
  Lower case as far as a case-insensitive match against ASCII letters sees it: without
  the \<open>u\<close> flag, a code unit outside ASCII never matches an ASCII letter.
\<close>

definition ascii_lower :: "16 word \<Rightarrow> 16 word" where
  "ascii_lower u = (if 65 \<le> u \<and> u \<le> 90 then u + 32 else u)"

definition has_substring_ignore_case :: "jsstring \<Rightarrow> jsstring \<Rightarrow> bool" where
  "has_substring_ignore_case s p \<longleftrightarrow> has_substring (map ascii_lower s) p"

end
