(* ===== verification/Utf8.thy ===== *)
theory Utf8
  imports JsString
begin

text \<open>
  UTF-8 as Node's \<open>Buffer\<close> uses it. \<open>utf8_encode\<close> is \<open>Buffer.from(s, 'utf8')\<close>: a lone
  surrogate becomes U+FFFD. \<open>utf8_decode\<close> is \<open>chunk.toString('utf8')\<close>: the decoder of
  the WHATWG Encoding Standard, where a maximal ill-formed part becomes one U+FFFD.
  \<open>byteLength\<close> is \<open>Buffer.byteLength(s, 'utf8')\<close>. The lemmas show the round trip on
  well-formed strings, the bounds on \<open>byteLength\<close> that a frame limit rests on, and that
  decoding a stream chunk by chunk is sound where a chunk ends between characters.
\<close>

section \<open>Code units and bytes from numbers\<close>

definition u16 :: "nat \<Rightarrow> 16 word" where
  "u16 n = word_of_nat n"

definition b8 :: "nat \<Rightarrow> byte" where
  "b8 n = word_of_nat n"

lemma unat_u16 [simp]: "n < 65536 \<Longrightarrow> unat (u16 n) = n"
  by (simp add: u16_def unsigned_of_nat take_bit_eq_mod)

lemma unat_b8 [simp]: "n < 256 \<Longrightarrow> unat (b8 n) = n"
  by (simp add: b8_def unsigned_of_nat take_bit_eq_mod)

lemma u16_unat [simp]: "u16 (unat u) = u"
  by (simp add: u16_def)

lemma b8_unat [simp]: "b8 (unat b) = b"
  by (simp add: b8_def)

lemma unit_eqI: "unat u = unat v \<Longrightarrow> u = v" for u v :: "16 word"
  by (metis u16_unat)

lemma byte_eqI: "unat b = unat c \<Longrightarrow> b = c" for b c :: byte
  by (metis b8_unat)

lemma unat16_less: "unat (u :: 16 word) < 65536"
  using unsigned_less [of u] by simp

lemma unat8_less: "unat (b :: byte) < 256"
  using unsigned_less [of b] by simp

section \<open>Surrogates and scalar values\<close>

definition is_high :: "16 word \<Rightarrow> bool" where
  "is_high u \<longleftrightarrow> 0xD800 \<le> unat u \<and> unat u \<le> 0xDBFF"

definition is_low :: "16 word \<Rightarrow> bool" where
  "is_low u \<longleftrightarrow> 0xDC00 \<le> unat u \<and> unat u \<le> 0xDFFF"

definition combine :: "16 word \<Rightarrow> 16 word \<Rightarrow> nat" where
  "combine h l = 0x10000 + (unat h - 0xD800) * 1024 + (unat l - 0xDC00)"

text \<open>The scalar values of a string, a lone surrogate read as U+FFFD.\<close>

fun scalars :: "jsstring \<Rightarrow> nat list" where
  "scalars [] = []"
| "scalars [u] = [if is_high u \<or> is_low u then 0xFFFD else unat u]"
| "scalars (u # v # us) =
     (if is_high u \<and> is_low v then combine u v # scalars us
      else (if is_high u \<or> is_low u then 0xFFFD else unat u) # scalars (v # us))"

fun well_formed :: "jsstring \<Rightarrow> bool" where
  "well_formed [] \<longleftrightarrow> True"
| "well_formed [u] \<longleftrightarrow> \<not> is_high u \<and> \<not> is_low u"
| "well_formed (u # v # us) \<longleftrightarrow>
     (if is_high u then is_low v \<and> well_formed us else \<not> is_low u \<and> well_formed (v # us))"

definition is_scalar :: "nat \<Rightarrow> bool" where
  "is_scalar c \<longleftrightarrow> c < 0xD800 \<or> (0xE000 \<le> c \<and> c < 0x110000)"

definition utf16_scalar :: "nat \<Rightarrow> jsstring" where
  "utf16_scalar c =
     (if c < 0x10000 then [u16 c]
      else [u16 (0xD800 + (c - 0x10000) div 1024),
            u16 (0xDC00 + (c - 0x10000) mod 1024)])"

definition utf8_scalar :: "nat \<Rightarrow> bytes" where
  "utf8_scalar c =
     (if c < 0x80 then [b8 c]
      else if c < 0x800 then [b8 (0xC0 + c div 64), b8 (0x80 + c mod 64)]
      else if c < 0x10000 then
        [b8 (0xE0 + c div 4096), b8 (0x80 + c div 64 mod 64),
         b8 (0x80 + c mod 64)]
      else
        [b8 (0xF0 + c div 262144), b8 (0x80 + c div 4096 mod 64),
         b8 (0x80 + c div 64 mod 64), b8 (0x80 + c mod 64)])"

section \<open>Encoder and decoder\<close>

definition utf8_encode :: "jsstring \<Rightarrow> bytes" where
  "utf8_encode s = concat (map utf8_scalar (scalars s))"

text \<open>
  The decoder's state is the number of continuation bytes still needed, the scalar value
  read so far, and the range the next byte must lie in. A byte outside that range ends
  the ill-formed part and is read again as a first byte.
\<close>

fun utf8_dec :: "nat \<Rightarrow> nat \<Rightarrow> nat \<Rightarrow> nat \<Rightarrow> bytes \<Rightarrow> nat list" where
  "utf8_dec need c lo hi [] = (if need = 0 then [] else [0xFFFD])"
| "utf8_dec 0 c lo hi (b # bs) =
     (let n = unat b in
      if n < 0x80 then n # utf8_dec 0 0 0x80 0xBF bs
      else if 0xC2 \<le> n \<and> n \<le> 0xDF then utf8_dec 1 (n - 0xC0) 0x80 0xBF bs
      else if 0xE0 \<le> n \<and> n \<le> 0xEF then
        utf8_dec 2 (n - 0xE0) (if n = 0xE0 then 0xA0 else 0x80) (if n = 0xED then 0x9F else 0xBF) bs
      else if 0xF0 \<le> n \<and> n \<le> 0xF4 then
        utf8_dec 3 (n - 0xF0) (if n = 0xF0 then 0x90 else 0x80) (if n = 0xF4 then 0x8F else 0xBF) bs
      else 0xFFFD # utf8_dec 0 0 0x80 0xBF bs)"
| "utf8_dec (Suc need) c lo hi (b # bs) =
     (let n = unat b in
      if \<not> (lo \<le> n \<and> n \<le> hi) then 0xFFFD # utf8_dec 0 0 0x80 0xBF (b # bs)
      else if need = 0 then (c * 64 + (n - 0x80)) # utf8_dec 0 0 0x80 0xBF bs
      else utf8_dec need (c * 64 + (n - 0x80)) 0x80 0xBF bs)"

definition utf8_decode :: "bytes \<Rightarrow> jsstring" where
  "utf8_decode bs = concat (map utf16_scalar (utf8_dec 0 0 0x80 0xBF bs))"

definition byteLength :: "jsstring \<Rightarrow> nat" where
  "byteLength s = length (utf8_encode s)"

section \<open>Scalar values\<close>

lemma not_high_low: "is_high u \<Longrightarrow> \<not> is_low u"
  by (simp add: is_high_def is_low_def)

lemma combine_bounds: "is_high h \<Longrightarrow> is_low l \<Longrightarrow> 0x10000 \<le> combine h l \<and> combine h l < 0x110000"
  by (auto simp: combine_def is_high_def is_low_def)

lemma is_scalar_unit: "\<not> is_high u \<Longrightarrow> \<not> is_low u \<Longrightarrow> is_scalar (unat u)"
  using unat16_less [of u] by (auto simp: is_scalar_def is_high_def is_low_def)

lemma scalars_are_scalar: "c \<in> set (scalars s) \<Longrightarrow> is_scalar c"
proof (induction s rule: scalars.induct)
  case 1
  then show ?case by simp
next
  case (2 u)
  moreover have "is_scalar 0xFFFD" by (simp add: is_scalar_def)
  ultimately show ?case by (auto simp: is_scalar_unit split: if_splits)
next
  case (3 u v us)
  have "is_scalar (combine u v)" if "is_high u" "is_low v"
    using combine_bounds [OF that] by (simp add: is_scalar_def)
  moreover have "is_scalar 0xFFFD" by (simp add: is_scalar_def)
  ultimately show ?case using 3 by (auto simp: is_scalar_unit split: if_splits)
qed

lemma utf16_combine:
  assumes "is_high h" and "is_low l"
  shows "utf16_scalar (combine h l) = [h, l]"
proof -
  have b: "unat h - 0xD800 < 1024" "unat l - 0xDC00 < 1024" "0xD800 \<le> unat h" "0xDC00 \<le> unat l"
    using assms by (auto simp: is_high_def is_low_def)
  have "combine h l - 0x10000 = (unat h - 0xD800) * 1024 + (unat l - 0xDC00)"
    by (simp add: combine_def)
  with b have "(combine h l - 0x10000) div 1024 = unat h - 0xD800"
    and "(combine h l - 0x10000) mod 1024 = unat l - 0xDC00"
    by (simp_all only: div_mult_self3 mod_mult_self3) simp_all
  with b show ?thesis
    by (simp add: utf16_scalar_def) (simp add: combine_def)
qed

lemma utf16_unit: "utf16_scalar (unat u) = [u]"
  using unat16_less [of u] by (simp add: utf16_scalar_def)

text \<open>A string is well-formed exactly if its scalar values give it back.\<close>

lemma utf16_scalars: "well_formed s \<Longrightarrow> concat (map utf16_scalar (scalars s)) = s"
  by (induction s rule: scalars.induct)
    (auto simp: utf16_unit utf16_combine not_high_low split: if_splits)

lemma well_formed_utf16_Cons:
  assumes "is_scalar c" and "well_formed s"
  shows "well_formed (utf16_scalar c @ s)"
proof (cases "c < 0x10000")
  case True
  with assms(1) have "\<not> is_high (u16 c)" "\<not> is_low (u16 c)"
    by (auto simp: is_scalar_def is_high_def is_low_def)
  with True assms(2) show ?thesis by (cases s) (auto simp: utf16_scalar_def)
next
  case False
  with assms(1) have "is_high (u16 (0xD800 + (c - 0x10000) div 1024))"
    by (auto simp: is_scalar_def is_high_def)
  moreover have "is_low (u16 (0xDC00 + (c - 0x10000) mod 1024))"
    by (auto simp: is_low_def)
  ultimately show ?thesis using False assms(2) by (simp add: utf16_scalar_def)
qed

lemma well_formed_utf16: "(\<forall>c \<in> set cs. is_scalar c) \<Longrightarrow> well_formed (concat (map utf16_scalar cs))"
  by (induction cs) (auto intro: well_formed_utf16_Cons)

section \<open>The round trip\<close>

lemma utf8_dec_lead1:
  "k < 128 \<Longrightarrow> utf8_dec 0 c lo hi (b8 k # bs) = k # utf8_dec 0 0 0x80 0xBF bs"
  by simp

lemma utf8_dec_lead2:
  "2 \<le> k \<Longrightarrow> k < 32 \<Longrightarrow> utf8_dec 0 c lo hi (b8 (0xC0 + k) # bs) = utf8_dec 1 k 0x80 0xBF bs"
  by (simp add: Let_def)

lemma utf8_dec_lead3:
  "k < 16 \<Longrightarrow> utf8_dec 0 c lo hi (b8 (0xE0 + k) # bs) =
    utf8_dec 2 k (if k = 0 then 0xA0 else 0x80) (if k = 13 then 0x9F else 0xBF) bs"
  by (simp add: Let_def)

lemma utf8_dec_lead4:
  "k < 5 \<Longrightarrow> utf8_dec 0 c lo hi (b8 (0xF0 + k) # bs) =
    utf8_dec 3 k (if k = 0 then 0x90 else 0x80) (if k = 4 then 0x8F else 0xBF) bs"
  by (simp add: Let_def)

lemma utf8_dec_cont:
  "k < 64 \<Longrightarrow> lo \<le> 0x80 + k \<Longrightarrow> 0x80 + k \<le> hi \<Longrightarrow>
    utf8_dec (Suc n) c lo hi (b8 (0x80 + k) # bs) =
    (if n = 0 then (c * 64 + k) # utf8_dec 0 0 0x80 0xBF bs
     else utf8_dec n (c * 64 + k) 0x80 0xBF bs)"
  by (simp add: Let_def)

lemma utf8_dec_three:
  assumes "k < 16" "x < 64" "y < 64" and "k = 0 \<Longrightarrow> 32 \<le> x" and "k = 13 \<Longrightarrow> x < 32"
  shows "utf8_dec 0 0 0x80 0xBF (b8 (0xE0 + k) # b8 (0x80 + x) # b8 (0x80 + y) # bs)
    = ((k * 64 + x) * 64 + y) # utf8_dec 0 0 0x80 0xBF bs"
  using assms
  by (auto simp: utf8_dec_lead3 utf8_dec_cont numeral_2_eq_2 simp del: utf8_dec.simps)

lemma utf8_dec_four:
  assumes "k < 5" "x < 64" "y < 64" "z < 64" and "k = 0 \<Longrightarrow> 16 \<le> x" and "k = 4 \<Longrightarrow> x < 16"
  shows "utf8_dec 0 0 0x80 0xBF (b8 (0xF0 + k) # b8 (0x80 + x) # b8 (0x80 + y) # b8 (0x80 + z) # bs)
    = (((k * 64 + x) * 64 + y) * 64 + z) # utf8_dec 0 0 0x80 0xBF bs"
  using assms
  by (auto simp: utf8_dec_lead4 utf8_dec_cont numeral_3_eq_3 simp del: utf8_dec.simps)

lemma utf8_dec_scalar:
  assumes "is_scalar c"
  shows "utf8_dec 0 0 0x80 0xBF (utf8_scalar c @ bs) = c # utf8_dec 0 0 0x80 0xBF bs"
proof -
  let ?a = "c div 64" and ?b = "c div 4096" and ?d = "c div 262144"
  have b: "?b = ?a div 64" and d: "?d = ?b div 64"
    by (simp_all add: div_mult2_eq [symmetric])
  have mod64: "n mod 64 < 64" for n :: nat by simp
  have e1: "?a * 64 + c mod 64 = c" by simp
  have e2: "(?b * 64 + ?a mod 64) * 64 + c mod 64 = c"
    unfolding b by (simp only: div_mult_mod_eq)
  have e3: "((?d * 64 + ?b mod 64) * 64 + ?a mod 64) * 64 + c mod 64 = c"
    unfolding d b by (simp only: div_mult_mod_eq)
  consider (1) "c < 0x80" | (2) "0x80 \<le> c" "c < 0x800" | (3) "0x800 \<le> c" "c < 0x10000"
    | (4) "0x10000 \<le> c" "c < 0x110000"
    using assms by (fastforce simp: is_scalar_def)
  then show ?thesis
  proof cases
    case 1
    then show ?thesis by (simp add: utf8_scalar_def utf8_dec_lead1)
  next
    case 2
    then have "2 \<le> ?a" "?a < 32" by auto
    with 2 e1 show ?thesis
      by (simp add: utf8_scalar_def utf8_dec_lead1 utf8_dec_lead2 utf8_dec_cont del: utf8_dec.simps)
  next
    case 3
    have h1: "?b < 16" using 3 by simp
    have h2: "32 \<le> ?a mod 64" if "?b = 0"
      using that 3 unfolding b by simp
    have h3: "?a mod 64 < 32" if "?b = 13"
    proof -
      from that have "c div 4096 < 14" by simp
      then have "c < 57344" by (simp add: div_less_iff_less_mult)
      with assms have "c < 55296" by (simp add: is_scalar_def)
      then have "?a < 864" by (simp add: div_less_iff_less_mult)
      moreover have "?a = 832 + ?a mod 64" using that b div_mult_mod_eq [of ?a 64] by simp
      ultimately show ?thesis by linarith
    qed
    note utf8_dec_three [OF h1 mod64 mod64 h2 h3, of c bs, unfolded e2]
    with 3 show ?thesis by (simp add: utf8_scalar_def del: utf8_dec.simps)
  next
    case 4
    have h1: "?d < 5" using 4 by simp
    have h2: "16 \<le> ?b mod 64" if "?d = 0"
      using that 4 unfolding d by simp
    have h3: "?b mod 64 < 16" if "?d = 4"
    proof -
      from 4 have "?b < 272" by (simp add: div_less_iff_less_mult)
      moreover have "?b = 256 + ?b mod 64" using that d div_mult_mod_eq [of ?b 64] by simp
      ultimately show ?thesis by linarith
    qed
    note utf8_dec_four [OF h1 mod64 mod64 mod64 h2 h3, of ?a c bs, unfolded e3]
    with 4 show ?thesis by (simp add: utf8_scalar_def del: utf8_dec.simps)
  qed
qed

lemma utf8_dec_scalars:
  "(\<forall>c \<in> set cs. is_scalar c) \<Longrightarrow>
    utf8_dec 0 0 0x80 0xBF (concat (map utf8_scalar cs) @ bs) = cs @ utf8_dec 0 0 0x80 0xBF bs"
  by (induction cs) (auto simp: utf8_dec_scalar simp del: utf8_dec.simps)

text \<open>
  What the decoder gives back is the string with every lone surrogate replaced; and
  bytes after a complete encoding are decoded as if they stood alone.
\<close>

lemma utf8_decode_append:
  "utf8_decode (utf8_encode s @ bs) = utf8_decode (utf8_encode s) @ utf8_decode bs"
  using utf8_dec_scalars [of "scalars s"] utf8_dec_scalars [of "scalars s" "[]"]
  by (simp add: utf8_decode_def utf8_encode_def scalars_are_scalar del: utf8_dec.simps)
    (simp add: utf8_decode_def)

lemma utf8_decode_encode_scalars:
  "utf8_decode (utf8_encode s) = concat (map utf16_scalar (scalars s))"
  using utf8_dec_scalars [of "scalars s" "[]"]
  by (simp add: utf8_decode_def utf8_encode_def scalars_are_scalar)

lemma utf8_decode_encode: "well_formed s \<Longrightarrow> utf8_decode (utf8_encode s) = s"
  by (simp add: utf8_decode_encode_scalars utf16_scalars)

lemma well_formed_decode_encode: "well_formed (utf8_decode (utf8_encode s))"
  by (simp add: utf8_decode_encode_scalars well_formed_utf16 scalars_are_scalar)

lemma utf8_roundtrip_iff: "utf8_decode (utf8_encode s) = s \<longleftrightarrow> well_formed s"
  using utf8_decode_encode well_formed_decode_encode by metis

interpretation utf8: codec utf8_encode "\<lambda>bs. Some (utf8_decode bs)" well_formed
  by unfold_locales (simp add: utf8_decode_encode)

section \<open>The bounds of \<open>byteLength\<close>\<close>

lemma utf8_scalar_length: "length (utf8_scalar c) =
    (if c < 0x80 then 1 else if c < 0x800 then 2 else if c < 0x10000 then 3 else 4)"
  by (simp add: utf8_scalar_def)

lemma byteLength_Nil [simp]: "byteLength [] = 0"
  by (simp add: byteLength_def utf8_encode_def)

lemma byteLength_single: "byteLength [u] =
    (if is_high u \<or> is_low u then 3 else length (utf8_scalar (unat u)))"
  by (simp add: byteLength_def utf8_encode_def utf8_scalar_length)

lemma byteLength_pair:
  "is_high u \<Longrightarrow> is_low v \<Longrightarrow> byteLength (u # v # us) = 4 + byteLength us"
  using combine_bounds [of u v]
  by (simp add: byteLength_def utf8_encode_def utf8_scalar_length)

lemma byteLength_step:
  "\<not> (is_high u \<and> is_low v) \<Longrightarrow> byteLength (u # v # us) = byteLength [u] + byteLength (v # us)"
  by (auto simp: byteLength_def utf8_encode_def)

lemma byteLength_single_bounds: "1 \<le> byteLength [u] \<and> byteLength [u] \<le> 3"
  using unat16_less [of u] by (auto simp: byteLength_single utf8_scalar_length)

text \<open>Between one and three bytes per code unit: what bounds memory by a limit in bytes.\<close>

lemma byteLength_bounds: "length s \<le> byteLength s \<and> byteLength s \<le> 3 * length s"
proof (induction s rule: scalars.induct)
  case 1
  then show ?case by simp
next
  case (2 u)
  then show ?case using byteLength_single_bounds [of u] by simp
next
  case (3 u v us)
  show ?case
  proof (cases "is_high u \<and> is_low v")
    case True
    with 3 show ?thesis by (simp add: byteLength_pair)
  next
    case False
    with 3 have "length (v # us) \<le> byteLength (v # us) \<and> byteLength (v # us) \<le> 3 * length (v # us)"
      by blast
    with False show ?thesis
      using byteLength_single_bounds [of u] by (simp add: byteLength_step)
  qed
qed

lemma byteLength_prefix: "byteLength s \<le> byteLength (s @ t)"
proof (induction s rule: scalars.induct)
  case 1
  then show ?case by simp
next
  case (2 u)
  show ?case
  proof (cases t)
    case Nil
    then show ?thesis by simp
  next
    case (Cons v us)
    then show ?thesis
      using byteLength_single_bounds [of u]
      by (cases "is_high u \<and> is_low v") (simp_all add: byteLength_pair byteLength_step)
  qed
next
  case (3 u v us)
  show ?case
  proof (cases "is_high u \<and> is_low v")
    case True
    with 3 show ?thesis by (simp add: byteLength_pair)
  next
    case False
    with 3 have "byteLength (v # us) \<le> byteLength (v # us @ t)" by simp
    with False show ?thesis by (simp add: byteLength_step)
  qed
qed

section \<open>ASCII text\<close>

definition ascii :: "jsstring \<Rightarrow> bool" where
  "ascii s \<longleftrightarrow> list_all (\<lambda>u. unat u < 128) s"

lemma ascii_simps [simp]:
  "ascii []"
  "ascii (u # s) \<longleftrightarrow> unat u < 128 \<and> ascii s"
  "ascii (s @ t) \<longleftrightarrow> ascii s \<and> ascii t"
  by (simp_all add: ascii_def)

lemma ascii_not_surrogate: "unat u < 128 \<Longrightarrow> \<not> is_high u \<and> \<not> is_low u"
  by (simp add: is_high_def is_low_def)

lemma ascii_scalars: "ascii s \<Longrightarrow> scalars s = map unat s"
  by (induction s rule: scalars.induct) (auto simp: ascii_not_surrogate)

lemma ascii_encode: "ascii s \<Longrightarrow> utf8_encode s = map (\<lambda>u. b8 (unat u)) s"
  by (induction s) (auto simp: utf8_encode_def ascii_scalars utf8_scalar_def)

lemma ascii_byteLength: "ascii s \<Longrightarrow> byteLength s = length s"
  by (simp add: byteLength_def ascii_encode)

lemma ascii_well_formed: "ascii s \<Longrightarrow> well_formed s"
  by (induction s rule: scalars.induct) (auto simp: ascii_not_surrogate)

end
