(* ===== verification/JsNumber.thy ===== *)
theory JsNumber
  imports Utf8
begin

text \<open>
  JavaScript numbers: IEEE 754 doubles as sign, significand and exponent, with exactly
  one representation of every value, so that HOL equality is the \<open>SameValue\<close> of the
  language (and \<open>===\<close> on numbers other than zeros and \<open>NaN\<close>). \<open>num_of_dec\<close> rounds a
  decimal numeral to the nearest double, ties to even, as number literals and
  \<open>JSON.parse\<close> do; \<open>num_to_string\<close> is \<open>Number::toString\<close>, the shortest decimal that
  reads back as the same double.
\<close>

datatype jsnum =
    Fin (neg: bool) (significand: nat) (exponent: int)
  | Inf bool
  | NaN

section \<open>From decimal\<close>

fun bit_len :: "nat \<Rightarrow> nat" where
  "bit_len n = (if n = 0 then 0 else Suc (bit_len (n div 2)))"

declare bit_len.simps [simp del]

definition round_half_even :: "nat \<Rightarrow> nat \<Rightarrow> nat" where
  "round_half_even n d =
     (let q = n div d; r = n mod d in if 2 * r > d \<or> (2 * r = d \<and> odd q) then Suc q else q)"

text \<open>The ratio \<open>n / (d * 2^e)\<close> as numerator and denominator.\<close>

definition scaled :: "nat \<Rightarrow> nat \<Rightarrow> int \<Rightarrow> nat \<times> nat" where
  "scaled n d e = (if 0 \<le> e then (n, d * 2 ^ nat e) else (n * 2 ^ nat (- e), d))"

definition num_of_ratio :: "bool \<Rightarrow> nat \<Rightarrow> nat \<Rightarrow> jsnum" where
  "num_of_ratio s n d =
     (if n = 0 then Fin s 0 (-1074)
      else
        let e0 = max (-1074) (int (bit_len n) - int (bit_len d) - 53);
            (n0, d0) = scaled n d e0;
            e = (if 2 ^ 53 * d0 \<le> n0 then e0 + 1 else e0);
            (n1, d1) = scaled n d e;
            m = round_half_even n1 d1;
            (m', e') = (if m = 2 ^ 53 then (2 ^ 52, e + 1) else (m, e))
        in if 971 < e' then Inf s else Fin s m' e')"

definition num_of_dec :: "bool \<Rightarrow> nat \<Rightarrow> int \<Rightarrow> jsnum" where
  "num_of_dec s D E =
     (if 0 \<le> E then num_of_ratio s (D * 10 ^ nat E) 1 else num_of_ratio s D (10 ^ nat (- E)))"

definition num_lit :: "nat \<Rightarrow> jsnum" where
  "num_lit n = num_of_dec False n 0"

section \<open>To decimal\<close>

fun dec_digits :: "nat \<Rightarrow> nat list" where
  "dec_digits n = (if n < 10 then [n] else dec_digits (n div 10) @ [n mod 10])"

declare dec_digits.simps [simp del]

definition digits_string :: "nat list \<Rightarrow> jsstring" where
  "digits_string ds = map (\<lambda>d. u16 (48 + d)) ds"

definition nat_to_string :: "nat \<Rightarrow> jsstring" where
  "nat_to_string n = digits_string (dec_digits n)"

definition strip_zeros :: "nat list \<Rightarrow> nat list" where
  "strip_zeros ds = rev (dropWhile (\<lambda>d. d = 0) (rev ds))"

text \<open>
  The candidates with \<open>k\<close> digits for a positive double \<open>x = p/q\<close> whose first digit has
  weight \<open>10^(n-1)\<close>: the decimal below and the one above, the nearer one first.
\<close>

definition candidates :: "nat \<Rightarrow> nat \<Rightarrow> int \<Rightarrow> nat \<Rightarrow> nat list" where
  "candidates p q n k =
     (let (a, b) = (if n \<le> int k then (p * 10 ^ nat (int k - n), q) else (p, q * 10 ^ nat (n - int k)));
          c = a div b; r = a mod b
      in if 2 * r < b \<or> (2 * r = b \<and> even c) then [c, Suc c] else [Suc c, c])"

fun shortest :: "jsnum \<Rightarrow> nat \<Rightarrow> nat \<Rightarrow> int \<Rightarrow> nat list \<Rightarrow> nat list \<times> int" where
  "shortest x p q n [] = ([], 0)"
| "shortest x p q n (k # ks) =
     (case find (\<lambda>c. num_of_dec False c (n - int k) = x) (candidates p q n k) of
        Some c \<Rightarrow> (strip_zeros (dec_digits c), n + (int (length (dec_digits c)) - int k))
      | None \<Rightarrow> shortest x p q n ks)"

text \<open>Digits and decimal point as \<open>Number::toString\<close> lays them out.\<close>

definition layout :: "nat list \<Rightarrow> int \<Rightarrow> jsstring" where
  "layout ds n =
     (let k = int (length ds); z = \<lambda>i. replicate (nat i) (48 :: 16 word);
          ex = n - 1;
          expo = js ''e'' @ (if ex < 0 then js ''-'' else js ''+'') @ nat_to_string (nat \<bar>ex\<bar>)
      in if k \<le> n \<and> n \<le> 21 then digits_string ds @ z (n - k)
         else if 0 < n \<and> n \<le> 21 then
           digits_string (take (nat n) ds) @ js ''.'' @ digits_string (drop (nat n) ds)
         else if -6 < n \<and> n \<le> 0 then js ''0.'' @ z (- n) @ digits_string ds
         else if k = 1 then digits_string ds @ expo
         else digits_string (take 1 ds) @ js ''.'' @ digits_string (drop 1 ds) @ expo)"

fun num_to_string :: "jsnum \<Rightarrow> jsstring" where
  "num_to_string NaN = js ''NaN''"
| "num_to_string (Inf s) = (if s then js ''-Infinity'' else js ''Infinity'')"
| "num_to_string (Fin s m e) =
     (if m = 0 then js ''0''
      else
        let (p, q) = scaled m 1 (- e);
            n = (if q \<le> p then int (length (dec_digits (p div q)))
                 else int (length (dec_digits (p * 10 ^ 400 div q))) - 400);
            (ds, n') = shortest (Fin False m e) p q n [1..<18]
        in (if s then js ''-'' else []) @ layout ds n')"

section \<open>Predicates\<close>

fun num_is_integer :: "jsnum \<Rightarrow> bool" where
  "num_is_integer (Fin s m e) \<longleftrightarrow> 0 \<le> e \<or> m mod 2 ^ nat (- e) = 0"
| "num_is_integer _ \<longleftrightarrow> False"

fun num_less_zero :: "jsnum \<Rightarrow> bool" where
  "num_less_zero (Fin s m e) \<longleftrightarrow> s \<and> m \<noteq> 0"
| "num_less_zero (Inf s) \<longleftrightarrow> s"
| "num_less_zero NaN \<longleftrightarrow> False"

fun num_falsy :: "jsnum \<Rightarrow> bool" where
  "num_falsy (Fin s m e) \<longleftrightarrow> m = 0"
| "num_falsy (Inf s) \<longleftrightarrow> False"
| "num_falsy NaN \<longleftrightarrow> True"

section \<open>The number 1, which every message carries as its version\<close>

text \<open>
  Ground terms evaluate with these rules. The recursive equations are not rules of
  the simplifier otherwise, since each has a call of itself on its right.
\<close>

lemmas num_eval = num_lit_def num_of_dec_def num_of_ratio_def scaled_def bit_len.simps
  round_half_even_def dec_digits.simps candidates_def strip_zeros_def layout_def
  digits_string_def nat_to_string_def Let_def

lemma num_one: "num_lit 1 = Fin False 4503599627370496 (-52)"
  by (simp add: num_eval)

lemma upt_1_18: "[Suc 0..<18] = Suc 0 # [2..<18]"
  by (simp add: upt_conv_Cons)

lemma num_one_string: "num_to_string (num_lit 1) = js ''1''"
  unfolding num_one by (simp add: num_eval upt_1_18 js_def unit_of_def u16_def del: upt_rec_numeral)

lemma num_one_integer: "num_is_integer (num_lit 1)" "\<not> num_less_zero (num_lit 1)"
  by (simp_all only: num_one num_is_integer.simps num_less_zero.simps) simp_all

lemma dec_digits_less: "d \<in> set (dec_digits n) \<Longrightarrow> d < 10"
proof (induction n rule: dec_digits.induct)
  case (1 n)
  then show ?case
    by (cases "n < 10") (auto simp: dec_digits.simps [of n])
qed

section \<open>Decimal texts are ASCII\<close>

lemma ascii_digits: "list_all (\<lambda>d. d < 10) ds \<Longrightarrow> ascii (digits_string ds)"
proof -
  have "unat (u16 (48 + d)) < 128" if "d < 10" for d
    using that by (simp only: u16_def unat_of_nat) simp
  moreover assume "list_all (\<lambda>d. d < 10) ds"
  ultimately show ?thesis by (auto simp: ascii_def digits_string_def list_all_iff)
qed

lemma ascii_nat_to_string: "ascii (nat_to_string n)"
  unfolding nat_to_string_def
  by (rule ascii_digits) (auto simp: list_all_iff dec_digits_less)

lemma shortest_digits: "list_all (\<lambda>d. d < 10) (fst (shortest x p q n ks))"
proof (induction ks)
  case Nil
  then show ?case by simp
next
  case (Cons k ks)
  have "list_all (\<lambda>d. d < 10) (strip_zeros (dec_digits c))" for c
    using dec_digits_less [of _ c] set_dropWhileD [of _ "\<lambda>d. d = 0" "rev (dec_digits c)"]
    by (auto simp: strip_zeros_def list_all_iff)
  with Cons show ?case by (auto split: option.split)
qed

lemma ascii_append: "ascii (a @ b) \<longleftrightarrow> ascii a \<and> ascii b"
  by (simp add: ascii_def)

lemma ascii_js: "list_all (\<lambda>c. of_char c < (128 :: nat)) s \<Longrightarrow> ascii (js s)"
  by (induction s) (auto simp: js_def ascii_def)

lemma ascii_jsq: "list_all (\<lambda>c. of_char c < (128 :: nat)) s \<Longrightarrow> ascii (jsq s)"
  by (auto simp: ascii_def jsq_def list_all_iff)

lemma ascii_layout:
  assumes "list_all (\<lambda>d. d < 10) ds"
  shows "ascii (layout ds n)"
proof -
  have "ascii (digits_string (take i ds))" "ascii (digits_string (drop i ds))" for i
    using assms in_set_takeD in_set_dropD by (fastforce intro!: ascii_digits simp: list_all_iff)+
  moreover have "ascii (replicate k (48 :: 16 word))" for k by (simp add: ascii_def list_all_iff)
  ultimately show ?thesis
    using ascii_digits [OF assms]
    by (simp add: layout_def Let_def ascii_append ascii_js ascii_nat_to_string)
qed

lemma ascii_layout_shortest: "ascii (layout (fst (shortest x p q n ks)) i)"
  by (rule ascii_layout, rule shortest_digits)

lemma ascii_num_to_string: "ascii (num_to_string x)"
  by (cases x)
    (simp_all add: Let_def case_prod_beta ascii_append ascii_js ascii_layout_shortest
      del: upt_rec_numeral power_numeral)

end
