(* ===== verification/JsValue.thy ===== *)
theory JsValue
  imports JsNumber
begin

text \<open>
  JavaScript values as far as protocol messages contain them, the errors the program
  throws, and the conversions of the language that the sources apply to values that
  came off the wire: property reads, \<open>typeof\<close>, truthiness and \<open>String(v)\<close>. Objects
  are plain data objects: their properties in own-property order, without duplicates.
  \<open>VBuiltin k\<close> is what reading the property \<open>k\<close> of \<open>Object.prototype\<close> gives. Equality of
  values is HOL's, which is \<open>===\<close> where one side is a string, as in every comparison of
  the sources.
  \<open>String(v)\<close> may throw: an object parsed from JSON may have a \<open>toString\<close> property that
  is not callable.
\<close>

section \<open>Errors\<close>

text \<open>
  With the texts the program gives them; \<open>SyntaxError\<close> and \<open>NodeError\<close> are thrown by the
  JSON parser and by Node's own modules, with texts the program does not fix.
\<close>

datatype js_error =
    TypeError jsstring
  | RangeError jsstring
  | SyntaxError
  | PlainError jsstring
  | NodeError
  | HandshakeError jsstring
  | FrameTooLargeError nat

section \<open>Values\<close>

datatype jsval =
    VUndef
  | VNull
  | VBool bool
  | VNum jsnum
  | VStr jsstring
  | VArr "jsval list"
  | VObj "(jsstring \<times> jsval) list"
  | VBytes bytes
  | VBuiltin jsstring

text \<open>\<open>v[k]\<close>, for a name \<open>k\<close> that \<open>Object.prototype\<close> does not have.\<close>

fun field :: "jsval \<Rightarrow> string \<Rightarrow> jsval" where
  "field (VObj kvs) k = (case map_of kvs (js k) of Some v \<Rightarrow> v | None \<Rightarrow> VUndef)"
| "field _ k = VUndef"

fun object_entries :: "jsval \<Rightarrow> (jsstring \<times> jsval) list" where
  "object_entries (VObj kvs) = kvs"
| "object_entries _ = []"

definition object_keys :: "jsval \<Rightarrow> jsstring list" where
  "object_keys v = map fst (object_entries v)"

fun is_string :: "jsval \<Rightarrow> bool" where
  "is_string (VStr s) \<longleftrightarrow> True"
| "is_string _ \<longleftrightarrow> False"

text \<open>The text of a value already known to be a string.\<close>

fun text_of :: "jsval \<Rightarrow> jsstring" where
  "text_of (VStr s) = s"
| "text_of _ = []"

text \<open>Whether a condition on the value holds.\<close>

fun truthy :: "jsval \<Rightarrow> bool" where
  "truthy VUndef \<longleftrightarrow> False"
| "truthy VNull \<longleftrightarrow> False"
| "truthy (VBool b) \<longleftrightarrow> b"
| "truthy (VNum n) \<longleftrightarrow> \<not> num_falsy n"
| "truthy (VStr s) \<longleftrightarrow> s \<noteq> []"
| "truthy _ \<longleftrightarrow> True"

lemma is_string_iff: "is_string v \<longleftrightarrow> (\<exists>s. v = VStr s)"
  by (cases v) auto

lemma text_of_string: "is_string v \<Longrightarrow> v = VStr (text_of v)"
  by (cases v) auto

text \<open>\<open>!v || typeof v !== 'object' || Array.isArray(v)\<close>, the test for "not an object".\<close>

fun not_object :: "jsval \<Rightarrow> bool" where
  "not_object (VObj kvs) \<longleftrightarrow> False"
| "not_object (VBytes bs) \<longleftrightarrow> False"
| "not_object _ \<longleftrightarrow> True"

text \<open>
  \<open>o[k]\<close> for an object \<open>o\<close> of the program used as a table: names that \<open>o\<close> does not have
  are looked up in \<open>Object.prototype\<close>.
\<close>

definition OBJECT_PROTOTYPE_NAMES :: "jsstring list" where
  "OBJECT_PROTOTYPE_NAMES =
     [js ''constructor'', js ''__defineGetter__'', js ''__defineSetter__'', js ''hasOwnProperty'',
      js ''__lookupGetter__'', js ''__lookupSetter__'', js ''isPrototypeOf'',
      js ''propertyIsEnumerable'', js ''toString'', js ''valueOf'', js ''__proto__'',
      js ''toLocaleString'']"

definition table_lookup :: "(jsstring \<times> jsval) list \<Rightarrow> jsstring \<Rightarrow> jsval" where
  "table_lookup kvs k =
     (case map_of kvs k of
        Some v \<Rightarrow> v
      | None \<Rightarrow> if k \<in> set OBJECT_PROTOTYPE_NAMES then VBuiltin k else VUndef)"

section \<open>\<open>String(v)\<close> and template literals\<close>

definition not_primitive :: js_error where
  "not_primitive = TypeError (js ''Cannot convert object to primitive value'')"

text \<open>
  For an array, its elements joined with commas, \<open>undefined\<close> and \<open>null\<close> as the empty
  string. For an object with a \<open>toString\<close> property of its own, the property is data and
  not callable, and \<open>valueOf\<close> yields no primitive either: a \<open>TypeError\<close>.
\<close>

fun join_with :: "jsstring \<Rightarrow> jsstring list \<Rightarrow> jsstring" where
  "join_with sep [] = []"
| "join_with sep [s] = s"
| "join_with sep (s # ss) = s @ sep @ join_with sep ss"

fun to_string :: "jsval \<Rightarrow> js_error + jsstring" where
  "to_string VUndef = Inr (js ''undefined'')"
| "to_string VNull = Inr (js ''null'')"
| "to_string (VBool b) = Inr (if b then js ''true'' else js ''false'')"
| "to_string (VNum n) = Inr (num_to_string n)"
| "to_string (VStr s) = Inr s"
| "to_string (VArr vs) =
     try_bind (try_map (\<lambda>v. if v = VUndef \<or> v = VNull then Inr [] else to_string v) vs)
       (\<lambda>ss. Inr (join_with (js '','') ss))"
| "to_string (VObj kvs) =
     (if map_of kvs (js ''toString'') = None then Inr (js ''[object Object]'')
      else Inl not_primitive)"
| "to_string (VBytes bs) = Inr (utf8_decode bs)"
| "to_string (VBuiltin k) =
     Inr (if k = js ''__proto__'' then js ''[object Object]''
          else js ''function '' @ (if k = js ''constructor'' then js ''Object'' else k)
            @ js ''() { [native code] }'')"

text \<open>Which values have no string: an object with its own \<open>toString\<close>, or an array holding one.\<close>

fun unprintable :: "jsval \<Rightarrow> bool" where
  "unprintable (VObj kvs) \<longleftrightarrow> map_of kvs (js ''toString'') \<noteq> None"
| "unprintable (VArr vs) \<longleftrightarrow> list_ex unprintable vs"
| "unprintable _ \<longleftrightarrow> False"

lemma to_string_error: "to_string v = Inl e \<Longrightarrow> e = not_primitive"
proof (induction v arbitrary: e)
  case (VArr vs)
  then show ?case
    by (auto simp: try_bind_Inl_iff dest!: try_map_InlD split: if_splits)
qed (auto split: if_splits)

lemma to_string_throws_iff: "(\<exists>e. to_string v = Inl e) \<longleftrightarrow> unprintable v"
proof (induction v)
  case (VArr vs)
  have "(\<exists>e. to_string (VArr vs) = Inl e) \<longleftrightarrow>
    (\<exists>v \<in> set vs. \<exists>e. (if v = VUndef \<or> v = VNull then Inr [] else to_string v) = Inl e)"
    by (simp add: try_bind_Inl_iff try_map_Inl_iff)
  also have "\<dots> \<longleftrightarrow> (\<exists>v \<in> set vs. unprintable v)"
    using VArr by (intro bex_cong) auto
  finally show ?case by (simp add: list_ex_iff)
qed auto

lemma to_string_not_throws: "\<not> unprintable v \<Longrightarrow> \<exists>s. to_string v = Inr s"
  using to_string_throws_iff by (cases "to_string v") auto

section \<open>Building objects\<close>

text \<open>
  Own properties are listed with the array indices first, in ascending order, then the
  other names in the order of their creation.
\<close>

fun digits_value :: "nat \<Rightarrow> jsstring \<Rightarrow> nat" where
  "digits_value acc [] = acc"
| "digits_value acc (u # us) = digits_value (acc * 10 + (unat u - 48)) us"

definition array_index :: "jsstring \<Rightarrow> nat option" where
  "array_index k =
     (if k \<noteq> [] \<and> list_all is_digit k \<and> (hd k = 48 \<longrightarrow> length k = 1)
        \<and> digits_value 0 k < 4294967295
      then Some (digits_value 0 k) else None)"

fun insert_index :: "nat \<Rightarrow> jsstring \<Rightarrow> jsval \<Rightarrow> (jsstring \<times> jsval) list \<Rightarrow> (jsstring \<times> jsval) list" where
  "insert_index i k v [] = [(k, v)]"
| "insert_index i k v ((k', v') # kvs) =
     (case array_index k' of
        Some j \<Rightarrow> if j < i then (k', v') # insert_index i k v kvs else (k, v) # (k', v') # kvs
      | None \<Rightarrow> (k, v) # (k', v') # kvs)"

definition obj_put :: "jsstring \<Rightarrow> jsval \<Rightarrow> (jsstring \<times> jsval) list \<Rightarrow> (jsstring \<times> jsval) list" where
  "obj_put k v kvs =
     (if k \<in> fst ` set kvs then map (\<lambda>(k', v'). (k', if k' = k then v else v')) kvs
      else case array_index k of
        Some i \<Rightarrow> insert_index i k v kvs
      | None \<Rightarrow> kvs @ [(k, v)])"

lemma map_of_insert_index:
  "k \<notin> fst ` set kvs \<Longrightarrow> map_of (insert_index i k v kvs) = (map_of kvs)(k \<mapsto> v)"
  by (induction i k v kvs rule: insert_index.induct) (auto split: option.splits)

lemma set_insert_index: "set (insert_index i k v kvs) = insert (k, v) (set kvs)"
  by (induction i k v kvs rule: insert_index.induct) (auto split: option.splits)

lemma distinct_insert_index:
  "k \<notin> fst ` set kvs \<Longrightarrow> distinct (map fst kvs) \<Longrightarrow> distinct (map fst (insert_index i k v kvs))"
  by (induction i k v kvs rule: insert_index.induct)
    (auto simp: set_insert_index split: option.splits)

lemma map_of_update:
  "k \<in> fst ` set kvs \<Longrightarrow>
    map_of (map (\<lambda>(k', v'). (k', if k' = k then v else v')) kvs) = (map_of kvs)(k \<mapsto> v)"
proof (induction kvs)
  case Nil
  then show ?case by simp
next
  case (Cons kv kvs)
  show ?case
  proof (cases "k \<in> fst ` set kvs")
    case True
    with Cons show ?thesis by (cases kv) auto
  next
    case False
    then have "map (\<lambda>(k', v'). (k', if k' = k then v else v')) kvs = kvs"
      by (intro map_idI) force
    with Cons.prems False show ?thesis by (cases kv) auto
  qed
qed

lemma map_of_obj_put: "map_of (obj_put k v kvs) = (map_of kvs)(k \<mapsto> v)"
proof (cases "k \<in> fst ` set kvs")
  case True
  then show ?thesis by (simp add: obj_put_def map_of_update)
next
  case False
  then have "map_of kvs k = None" by (simp add: map_of_eq_None_iff)
  with False show ?thesis
    by (auto simp: obj_put_def map_of_insert_index map_add_def fun_eq_iff split: option.splits)
qed

lemma distinct_obj_put: "distinct (map fst kvs) \<Longrightarrow> distinct (map fst (obj_put k v kvs))"
  by (auto simp: obj_put_def distinct_insert_index case_prod_beta comp_def image_iff
      split: option.splits)

end
