(* ===== verification/Encoding.thy ===== *)
theory Encoding
  imports JsValue
begin

text \<open>
  Texts of bytes: base64 (\<open>buf.toString('base64')\<close>, \<open>Buffer.from(s, 'base64')\<close>) and
  lower-case hex (\<open>buf.toString('hex')\<close>), and the big-endian \<open>writeUInt32BE\<close>. The
  sources decode base64 only after the text has matched the base64 pattern, so the
  decoder here reads the digits up to the first other character; what Node does with
  stray characters inside the text is not modelled.
\<close>

section \<open>base64\<close>

definition b64_char :: "nat \<Rightarrow> 16 word" where
  "b64_char n =
     (if n < 26 then u16 (65 + n) else if n < 52 then u16 (71 + n)
      else if n < 62 then u16 (n - 4) else if n = 62 then 43 else 47)"

definition b64_value :: "16 word \<Rightarrow> nat" where
  "b64_value u =
     (let n = unat u in
      if 65 \<le> n \<and> n \<le> 90 then n - 65 else if 97 \<le> n \<and> n \<le> 122 then n - 71
      else if 48 \<le> n \<and> n \<le> 57 then n + 4 else if n = 43 then 62 else 63)"

fun base64_encode :: "bytes \<Rightarrow> jsstring" where
  "base64_encode [] = []"
| "base64_encode [a] =
     (let x = unat a in [b64_char (x div 4), b64_char (x mod 4 * 16), 61, 61])"
| "base64_encode [a, b] =
     (let x = unat a; y = unat b in
      [b64_char (x div 4), b64_char (x mod 4 * 16 + y div 16), b64_char (y mod 16 * 4), 61])"
| "base64_encode (a # b # c # bs) =
     (let x = unat a; y = unat b; z = unat c in
      [b64_char (x div 4), b64_char (x mod 4 * 16 + y div 16), b64_char (y mod 16 * 4 + z div 64),
       b64_char (z mod 64)] @ base64_encode bs)"

fun b64_group :: "nat list \<Rightarrow> bytes" where
  "b64_group [] = []"
| "b64_group [p] = []"
| "b64_group [p, q] = [b8 (p * 4 + q div 16)]"
| "b64_group [p, q, r] = [b8 (p * 4 + q div 16), b8 (q mod 16 * 16 + r div 4)]"
| "b64_group (p # q # r # t # ns) =
     [b8 (p * 4 + q div 16), b8 (q mod 16 * 16 + r div 4), b8 (r mod 4 * 64 + t)] @ b64_group ns"

definition base64_decode :: "jsstring \<Rightarrow> bytes" where
  "base64_decode s = b64_group (map b64_value (takeWhile is_base64_char s))"

lemma is_base64_b64_char [simp]: "n < 64 \<Longrightarrow> is_base64_char (b64_char n)"
  by (auto simp: b64_char_def is_base64_char_def is_digit_def word_le_nat_alt)

lemma b64_value_char [simp]: "n < 64 \<Longrightarrow> b64_value (b64_char n) = n"
  by (auto simp: b64_char_def b64_value_def Let_def)

lemma not_base64_pad [simp]: "\<not> is_base64_char 61"
  by (simp add: is_base64_char_def is_digit_def)

lemma sextet_bounds:
  fixes a b :: byte
  shows "unat a div 4 < 64" "unat a mod 4 * 16 + unat b div 16 < 64" "unat a mod 4 * 16 < 64"
    "unat a mod 16 * 4 + unat b div 64 < 64" "unat a mod 16 * 4 < 64" "unat a mod 64 < 64"
proof -
  have "unat a < 256" "unat b < 256" by (rule unat8_less)+
  moreover from this have "unat b div 16 < 16" "unat b div 64 < 4"
    by (simp_all add: div_less_iff_less_mult)
  moreover have "unat a mod 4 < 4" "unat a mod 16 < 16" by simp_all
  ultimately show "unat a div 4 < 64" "unat a mod 4 * 16 + unat b div 16 < 64"
    "unat a mod 4 * 16 < 64" "unat a mod 16 * 4 + unat b div 64 < 64" "unat a mod 16 * 4 < 64"
    "unat a mod 64 < 64"
    by (simp_all add: div_less_iff_less_mult)
qed

lemma b64_group_step:
  fixes x y z :: nat
  assumes "x < 256" "y < 256" "z < 256"
  shows "x div 4 * 4 + (x mod 4 * 16 + y div 16) div 16 = x"
    "(x mod 4 * 16 + y div 16) mod 16 * 16 + (y mod 16 * 4 + z div 64) div 4 = y"
    "(y mod 16 * 4 + z div 64) mod 4 * 64 + z mod 64 = z"
proof -
  have "y div 16 < 16" "z div 64 < 4" using assms by (simp_all add: div_less_iff_less_mult)
  then show "x div 4 * 4 + (x mod 4 * 16 + y div 16) div 16 = x"
    "(x mod 4 * 16 + y div 16) mod 16 * 16 + (y mod 16 * 4 + z div 64) div 4 = y"
    "(y mod 16 * 4 + z div 64) mod 4 * 64 + z mod 64 = z"
    by simp_all
qed

lemma base64_decode_encode: "base64_decode (base64_encode bs) = bs"
proof (induction bs rule: base64_encode.induct)
  case 1
  then show ?case by (simp add: base64_decode_def)
next
  case (2 a)
  then show ?case
    using b64_group_step [of "unat a" 0 0] unat8_less [of a]
    by (simp add: base64_decode_def Let_def sextet_bounds)
next
  case (3 a b)
  then show ?case
    using b64_group_step [of "unat a" "unat b" 0] unat8_less [of a] unat8_less [of b]
    by (simp add: base64_decode_def Let_def sextet_bounds)
next
  case (4 a b c bs)
  then show ?case
    using b64_group_step [of "unat a" "unat b" "unat c"]
      unat8_less [of a] unat8_less [of b] unat8_less [of c]
    by (simp add: base64_decode_def Let_def sextet_bounds)
qed

interpretation base64: codec base64_encode "\<lambda>s. Some (base64_decode s)" "\<lambda>_. True"
  by unfold_locales (simp add: base64_decode_encode)

text \<open>The pattern \<open>/^[A-Za-z0-9+/]+={0,2}$/\<close>.\<close>

definition matches_base64 :: "jsstring \<Rightarrow> bool" where
  "matches_base64 s \<longleftrightarrow>
     takeWhile is_base64_char s \<noteq> [] \<and> dropWhile is_base64_char s \<in> {[], [61], [61, 61]}"

lemma base64_encode_shape:
  "length (base64_encode bs) = 4 * ((length bs + 2) div 3)
    \<and> dropWhile is_base64_char (base64_encode bs) \<in> {[], [61], [61, 61]}"
proof (induction bs rule: base64_encode.induct)
  case (4 a b c bs)
  have "(length (a # b # c # bs) + 2) div 3 = Suc ((length bs + 2) div 3)" by simp
  with 4 show ?case by (simp add: Let_def sextet_bounds del: length_Cons)
qed (auto simp: Let_def sextet_bounds)

lemma base64_encode_length: "length (base64_encode bs) = 4 * ((length bs + 2) div 3)"
  using base64_encode_shape [of bs] by simp

lemma base64_encode_eq_Nil [simp]: "base64_encode bs = [] \<longleftrightarrow> bs = []"
  by (cases bs rule: base64_encode.cases) (auto simp: Let_def)

lemma matches_base64_encode: "bs \<noteq> [] \<Longrightarrow> matches_base64 (base64_encode bs)"
  using base64_encode_shape [of bs]
  by (cases bs rule: base64_encode.cases) (auto simp: matches_base64_def Let_def sextet_bounds)

lemma ascii_b64_char: "n < 64 \<Longrightarrow> unat (b64_char n) < 128"
  by (auto simp: b64_char_def)

lemma ascii_base64_encode: "ascii (base64_encode bs)"
  by (induction bs rule: base64_encode.induct) (auto simp: Let_def ascii_b64_char sextet_bounds)

section \<open>hex\<close>

definition hex_char :: "nat \<Rightarrow> 16 word" where
  "hex_char n = (if n < 10 then u16 (48 + n) else u16 (87 + n))"

definition hex_encode :: "bytes \<Rightarrow> jsstring" where
  "hex_encode bs = concat (map (\<lambda>b. [hex_char (unat b div 16), hex_char (unat b mod 16)]) bs)"

lemma hex_encode_simps [simp]:
  "hex_encode [] = []"
  "hex_encode (b # bs) = hex_char (unat b div 16) # hex_char (unat b mod 16) # hex_encode bs"
  by (simp_all add: hex_encode_def)

lemma length_hex_encode: "length (hex_encode bs) = 2 * length bs"
  by (induction bs) auto

lemma hex_char_lower: "n < 16 \<Longrightarrow> is_lower_hex (hex_char n)"
  by (auto simp: hex_char_def is_lower_hex_def is_digit_def word_le_nat_alt)

lemma hex_encode_lower: "list_all is_lower_hex (hex_encode bs)"
proof (induction bs)
  case (Cons b bs)
  then show ?case
    using unat8_less [of b] by (simp add: hex_char_lower div_less_iff_less_mult)
qed simp

lemma hex_char_eq_iff: "m < 16 \<Longrightarrow> n < 16 \<Longrightarrow> hex_char m = hex_char n \<longleftrightarrow> m = n"
proof -
  assume "m < 16" "n < 16"
  then have "unat (hex_char m) = unat (hex_char n) \<longleftrightarrow> m = n"
    by (auto simp: hex_char_def)
  then show ?thesis by (metis unit_eqI)
qed

lemma hex_encode_inject: "hex_encode bs = hex_encode cs \<Longrightarrow> bs = cs"
proof (induction bs arbitrary: cs)
  case Nil
  then show ?case by (cases cs) auto
next
  case (Cons b bs)
  then obtain c cs' where cs: "cs = c # cs'" by (cases cs) auto
  have "unat b div 16 < 16" "unat c div 16 < 16"
    using unat8_less [of b] unat8_less [of c] by (simp_all add: div_less_iff_less_mult)
  with Cons.prems cs have "unat b div 16 = unat c div 16" "unat b mod 16 = unat c mod 16"
    by (auto simp: hex_char_eq_iff)
  then have "b = c" by (metis byte_eqI div_mult_mod_eq)
  with Cons cs show ?case by simp
qed

section \<open>\<open>writeUInt32BE\<close>\<close>

definition uint32_be :: "nat \<Rightarrow> bytes" where
  "uint32_be n = [b8 (n div 16777216 mod 256), b8 (n div 65536 mod 256), b8 (n div 256 mod 256), b8 (n mod 256)]"

definition read_uint32_be :: "bytes \<Rightarrow> nat" where
  "read_uint32_be bs = foldl (\<lambda>acc b. acc * 256 + unat b) 0 bs"

lemma length_uint32_be [simp]: "length (uint32_be n) = 4"
  by (simp add: uint32_be_def)

lemma read_uint32_be: "n < 2 ^ 32 \<Longrightarrow> read_uint32_be (uint32_be n) = n"
proof -
  assume n: "n < 2 ^ 32"
  then have "n div 16777216 < 256" by (simp add: div_less_iff_less_mult)
  then have a: "n div 16777216 mod 256 = n div 16777216" by simp
  have b: "n div 16777216 = n div 65536 div 256" and c: "n div 65536 = n div 256 div 256"
    by (simp_all add: div_mult2_eq [symmetric])
  have "((n div 16777216 * 256 + n div 65536 mod 256) * 256 + n div 256 mod 256) * 256 + n mod 256 = n"
    unfolding b c by (simp only: div_mult_mod_eq)
  then show ?thesis
    using \<open>n div 16777216 < 256\<close> by (simp only: read_uint32_be_def uint32_be_def foldl.simps a) simp
qed

end
