(* ===== verification/Message.thy ===== *)
theory Message
  imports Crypto
begin

text \<open>
  The message layer, \<open>src/protocol/message.js\<close> without its framing: the message types and
  their fields, the factories, and \<open>validateMessage\<close> with every rejection reason. A
  message is a JavaScript value as \<open>JSON.parse\<close> or a factory produces it. Validation
  returns \<open>Valid\<close> or \<open>Invalid reason\<close>, or throws: the reason for an unsupported version
  or event converts a value off the wire to a string.
\<close>

section \<open>Vocabulary\<close>

definition PROTOCOL_VERSION :: jsval where
  "PROTOCOL_VERSION = VNum (num_lit 1)"

definition SUPPORTED_VERSIONS :: "jsval list" where
  "SUPPORTED_VERSIONS = [VNum (num_lit 1)]"

abbreviation HELLO :: jsstring where "HELLO \<equiv> js ''HELLO''"
abbreviation CHAT :: jsstring where "CHAT \<equiv> js ''CHAT''"
abbreviation SYSTEM :: jsstring where "SYSTEM \<equiv> js ''SYSTEM''"
abbreviation ERROR :: jsstring where "ERROR \<equiv> js ''ERROR''"
abbreviation KEY_EXCHANGE :: jsstring where "KEY_EXCHANGE \<equiv> js ''KEY_EXCHANGE''"
abbreviation KEY_EXCHANGE_ACK :: jsstring where "KEY_EXCHANGE_ACK \<equiv> js ''KEY_EXCHANGE_ACK''"
abbreviation REKEY :: jsstring where "REKEY \<equiv> js ''REKEY''"
abbreviation REKEY_ACK :: jsstring where "REKEY_ACK \<equiv> js ''REKEY_ACK''"
abbreviation PEER_JOINED :: jsstring where "PEER_JOINED \<equiv> js ''PEER_JOINED''"
abbreviation PEER_LEFT :: jsstring where "PEER_LEFT \<equiv> js ''PEER_LEFT''"

definition IMPLEMENTED_TYPES :: "jsstring list" where
  "IMPLEMENTED_TYPES = [HELLO, CHAT, SYSTEM, ERROR, KEY_EXCHANGE, KEY_EXCHANGE_ACK]"

definition RESERVED_TYPES :: "jsstring list" where
  "RESERVED_TYPES = [REKEY, REKEY_ACK]"

definition HANDSHAKE_TYPES :: "jsstring list" where
  "HANDSHAKE_TYPES = [HELLO, KEY_EXCHANGE, KEY_EXCHANGE_ACK]"

definition PEER_EVENTS :: "jsstring list" where
  "PEER_EVENTS = [PEER_JOINED, PEER_LEFT]"

text \<open>\<open>HANDSHAKE_FIELDS[type]\<close>, read only for the three handshake types.\<close>

definition HANDSHAKE_FIELDS :: "jsstring \<Rightarrow> string list" where
  "HANDSHAKE_FIELDS ty =
     (if ty = HELLO then
        [''type'', ''version'', ''sender'', ''encryptionPublicKey'', ''signingPublicKey'']
      else if ty = KEY_EXCHANGE then
        [''type'', ''version'', ''sender'', ''recipient'', ''sessionId'', ''encryptedSessionKey'', ''signature'']
      else [''type'', ''version'', ''sender'', ''recipient'', ''sessionId'', ''signature''])"

definition MAX_IDENTITY_LENGTH :: nat where "MAX_IDENTITY_LENGTH = 64"
definition MAX_PEM_LENGTH :: nat where "MAX_PEM_LENGTH = 4096"
definition MIN_RSA_OUTPUT_BYTES :: nat where "MIN_RSA_OUTPUT_BYTES = MIN_MODULUS_LENGTH div 8"
definition MAX_RSA_OUTPUT_BYTES :: nat where "MAX_RSA_OUTPUT_BYTES = 1024"

section \<open>Factories\<close>

definition obj :: "(string \<times> jsval) list \<Rightarrow> jsval" where
  "obj kvs = VObj (map (\<lambda>(k, v). (js k, v)) kvs)"

definition createHelloMessage :: "jsval \<Rightarrow> jsval \<Rightarrow> jsval \<Rightarrow> jsval \<Rightarrow> jsval" where
  "createHelloMessage sender enc sig version =
     obj [(''type'', VStr HELLO), (''version'', version), (''sender'', sender),
          (''encryptionPublicKey'', enc), (''signingPublicKey'', sig)]"

definition createKeyExchangeMessage ::
  "jsval \<Rightarrow> jsval \<Rightarrow> jsval \<Rightarrow> jsval \<Rightarrow> jsval \<Rightarrow> jsval \<Rightarrow> jsval" where
  "createKeyExchangeMessage sender recipient sessionId encryptedSessionKey signature version =
     obj [(''type'', VStr KEY_EXCHANGE), (''version'', version), (''sender'', sender),
          (''recipient'', recipient), (''sessionId'', sessionId),
          (''encryptedSessionKey'', encryptedSessionKey), (''signature'', signature)]"

definition createKeyExchangeAckMessage :: "jsval \<Rightarrow> jsval \<Rightarrow> jsval \<Rightarrow> jsval \<Rightarrow> jsval \<Rightarrow> jsval" where
  "createKeyExchangeAckMessage sender recipient sessionId signature version =
     obj [(''type'', VStr KEY_EXCHANGE_ACK), (''version'', version), (''sender'', sender),
          (''recipient'', recipient), (''sessionId'', sessionId), (''signature'', signature)]"

definition createChatMessage :: "jsval \<Rightarrow> jsval \<Rightarrow> jsval \<Rightarrow> jsval" where
  "createChatMessage sender txt version =
     obj [(''type'', VStr CHAT), (''version'', version), (''sender'', sender), (''text'', txt)]"

definition createSystemMessage :: "jsval \<Rightarrow> jsval \<Rightarrow> jsval" where
  "createSystemMessage txt version =
     obj [(''type'', VStr SYSTEM), (''version'', version), (''text'', txt)]"

definition createPeerEventMessage :: "jsval \<Rightarrow> jsval \<Rightarrow> jsval \<Rightarrow> jsval \<Rightarrow> jsval" where
  "createPeerEventMessage event peer txt version =
     obj [(''type'', VStr SYSTEM), (''version'', version), (''text'', txt), (''event'', event),
          (''peer'', peer)]"

definition createErrorMessage :: "jsval \<Rightarrow> jsval \<Rightarrow> jsval" where
  "createErrorMessage txt version =
     obj [(''type'', VStr ERROR), (''version'', version), (''text'', txt)]"

section \<open>Validation\<close>

datatype validation = Valid | Invalid jsstring

definition isIdentityString :: "jsval \<Rightarrow> bool" where
  "isIdentityString v \<longleftrightarrow>
     is_string v \<and> trim (text_of v) \<noteq> [] \<and> length (text_of v) \<le> MAX_IDENTITY_LENGTH"

definition isCanonicalBase64 :: "jsval \<Rightarrow> bool" where
  "isCanonicalBase64 v \<longleftrightarrow>
     is_string v \<and> length (text_of v) \<noteq> 0 \<and> length (text_of v) mod 4 = 0
     \<and> matches_base64 (text_of v) \<and> base64_encode (base64_decode (text_of v)) = text_of v"

definition isRsaOutputField :: "jsval \<Rightarrow> bool" where
  "isRsaOutputField v \<longleftrightarrow>
     isCanonicalBase64 v
     \<and> (let n = length (base64_decode (text_of v)) in MIN_RSA_OUTPUT_BYTES \<le> n \<and> n \<le> MAX_RSA_OUTPUT_BYTES)"

definition matches_session_id :: "jsstring \<Rightarrow> bool" where
  "matches_session_id s \<longleftrightarrow> length s = 32 \<and> list_all is_lower_hex s"

definition containsPrivateKeyMaterial :: "jsval \<Rightarrow> bool" where
  "containsPrivateKeyMaterial msg \<longleftrightarrow>
     list_ex (\<lambda>(k, v). has_substring_ignore_case k (js ''private'')
       \<or> (is_string v \<and> has_substring (text_of v) (js ''PRIVATE KEY''))) (object_entries msg)"

text \<open>\<open>parsePublicKeyField\<close>: the reason or the key.\<close>

definition parsePublicKeyField :: "'r node_crypto \<Rightarrow> jsval \<Rightarrow> string \<Rightarrow> jsstring + keyobj" where
  "parsePublicKeyField C msg f =
     (let pem = field msg f; ty = text_of (field msg ''type'') in
      if \<not> is_string pem \<or> length (text_of pem) = 0 \<or> MAX_PEM_LENGTH < length (text_of pem)
      then Inl (ty @ js '' '' @ quoted (js f) @ js '' must be a PEM public key string.'')
      else case importPublicKey C pem of
        Inr key \<Rightarrow> Inr key
      | Inl e \<Rightarrow> Inl (ty @ js '' '' @ quoted (js f) @ js '' is not a valid RSA public key (SPKI PEM, at least ''
                  @ nat_to_string MIN_MODULUS_LENGTH @ js '' bits).''))"

text \<open>The part of a handshake message's validation that depends on its type.\<close>

definition validateHello :: "'r node_crypto \<Rightarrow> jsval \<Rightarrow> validation" where
  "validateHello C msg =
     (case parsePublicKeyField C msg ''encryptionPublicKey'' of Inl reason \<Rightarrow> Invalid reason
      | Inr enc \<Rightarrow>
      case parsePublicKeyField C msg ''signingPublicKey'' of Inl reason \<Rightarrow> Invalid reason
      | Inr sig \<Rightarrow>
        if enc = sig
        then Invalid (js ''HELLO must advertise two different keys: encryption and signing keys must not be reused.'')
        else Valid)"

definition validateExchange :: "jsval \<Rightarrow> validation" where
  "validateExchange msg =
     (let ty = text_of (field msg ''type'') in
      if \<not> isIdentityString (field msg ''recipient'')
      then Invalid (ty @ js '' '' @ quoted (js ''recipient'') @ js '' must be a non-empty string of at most ''
        @ nat_to_string MAX_IDENTITY_LENGTH @ js '' characters.'')
      else if field msg ''recipient'' = field msg ''sender''
      then Invalid (ty @ js '' '' @ quoted (js ''recipient'') @ js '' must differ from '' @ quoted (js ''sender'') @ js ''.'')
      else if \<not> is_string (field msg ''sessionId'') \<or> \<not> matches_session_id (text_of (field msg ''sessionId''))
      then Invalid (ty @ js '' '' @ quoted (js ''sessionId'') @ js '' must be 32 lowercase hex characters.'')
      else if ty = KEY_EXCHANGE \<and> \<not> isRsaOutputField (field msg ''encryptedSessionKey'')
      then Invalid (js ''KEY_EXCHANGE '' @ quoted (js ''encryptedSessionKey'')
        @ js '' must be canonical base64 of an RSA-sized value.'')
      else if \<not> isRsaOutputField (field msg ''signature'')
      then Invalid (ty @ js '' '' @ quoted (js ''signature'') @ js '' must be canonical base64 of an RSA-sized value.'')
      else Valid)"

definition validateHandshakeMessage :: "'r node_crypto \<Rightarrow> jsval \<Rightarrow> js_error + validation" where
  "validateHandshakeMessage C msg =
     (let ty = text_of (field msg ''type''); allowed = HANDSHAKE_FIELDS ty in
      if containsPrivateKeyMaterial msg
      then Inr (Invalid (ty @ js '' message must not contain private key material.''))
      else if field msg ''version'' = VUndef
      then Inr (Invalid (ty @ js '' message requires '' @ quoted (js ''version'') @ js ''.''))
      else if field msg ''version'' \<notin> set SUPPORTED_VERSIONS
      then try_bind (to_string (field msg ''version'')) (\<lambda>s.
        Inr (Invalid (js ''Unsupported protocol version: '' @ slice_to 32 s)))
      else case find (\<lambda>f. f \<notin> set (map js allowed)) (object_keys msg) of
        Some f \<Rightarrow> Inr (Invalid (ty @ js '' message contains unexpected field '' @ quoted f @ js ''.''))
      | None \<Rightarrow>
      case find (\<lambda>f. field msg f = VUndef) allowed of
        Some f \<Rightarrow> Inr (Invalid (ty @ js '' message requires '' @ quoted (js f) @ js ''.''))
      | None \<Rightarrow>
      if \<not> isIdentityString (field msg ''sender'')
      then Inr (Invalid (ty @ js '' '' @ quoted (js ''sender'') @ js '' must be a non-empty string of at most ''
        @ nat_to_string MAX_IDENTITY_LENGTH @ js '' characters.''))
      else if ty = HELLO then Inr (validateHello C msg)
      else Inr (validateExchange msg))"

definition validateMessage :: "'r node_crypto \<Rightarrow> jsval \<Rightarrow> js_error + validation" where
  "validateMessage C msg =
     (let ty = text_of (field msg ''type''); txt = field msg ''text'' in
      if not_object msg then Inr (Invalid (js ''Message must be a JSON object.''))
      else if \<not> is_string (field msg ''type'') \<or> trim ty = []
      then Inr (Invalid (js ''Message is missing a '' @ quoted (js ''type'') @ js '' field.''))
      else if ty \<in> set RESERVED_TYPES
      then Inr (Invalid (js ''Message type '' @ quoted ty
        @ js '' is reserved for a future CipherLink phase and is not supported yet.''))
      else if ty \<notin> set IMPLEMENTED_TYPES
      then Inr (Invalid (js ''Unsupported message type: '' @ ty))
      else if ty \<in> set HANDSHAKE_TYPES then validateHandshakeMessage C msg
      else if field msg ''version'' \<noteq> VUndef \<and> field msg ''version'' \<notin> set SUPPORTED_VERSIONS
      then try_bind (to_string (field msg ''version'')) (\<lambda>s.
        Inr (Invalid (js ''Unsupported protocol version: '' @ s)))
      else if ty = CHAT then
        (if \<not> is_string txt
         then Inr (Invalid (js ''CHAT message requires '' @ quoted (js ''text'') @ js '' to be a string.''))
         else if trim (text_of txt) = []
         then Inr (Invalid (js ''CHAT message requires non-empty '' @ quoted (js ''text'') @ js ''.''))
         else Inr Valid)
      else \<comment> \<open>SYSTEM or ERROR\<close>
        (if \<not> is_string txt \<or> trim (text_of txt) = []
         then Inr (Invalid (ty @ js '' message requires non-empty '' @ quoted (js ''text'') @ js ''.''))
         else if ty = SYSTEM \<and> field msg ''event'' \<noteq> VUndef then
           (if field msg ''event'' \<notin> set (map VStr PEER_EVENTS)
            then try_bind (to_string (field msg ''event'')) (\<lambda>s.
              Inr (Invalid (js ''Unknown SYSTEM event: '' @ slice_to 32 s)))
            else if \<not> isIdentityString (field msg ''peer'')
            then Inr (Invalid (js ''SYSTEM event requires a non-empty '' @ quoted (js ''peer'') @ js ''.''))
            else Inr Valid)
         else Inr Valid))"

end
