(* ===== verification/MessageLaws.thy ===== *)
theory MessageLaws
  imports Message
begin

text \<open>
  What \<open>validateMessage\<close> promises: the declarative schema of each handshake message and
  that validation accepts exactly the messages of the schema, when validation throws, and
  that every message a factory builds from proper parts is accepted.
\<close>

lemmas type_sets = IMPLEMENTED_TYPES_def RESERVED_TYPES_def HANDSHAKE_TYPES_def

lemma trim_js_type: "ty \<in> set IMPLEMENTED_TYPES \<Longrightarrow> trim ty \<noteq> []"
  by (auto simp: IMPLEMENTED_TYPES_def trim_eq_Nil_iff js_def unit_of_def is_js_space_def)

lemma handshake_types_implemented: "ty \<in> set HANDSHAKE_TYPES \<Longrightarrow> ty \<in> set IMPLEMENTED_TYPES"
  by (auto simp: type_sets)

lemma implemented_not_reserved: "ty \<in> set IMPLEMENTED_TYPES \<Longrightarrow> ty \<notin> set RESERVED_TYPES"
  by (auto simp: type_sets)

section \<open>Canonical base64\<close>

lemma isCanonicalBase64_iff: "isCanonicalBase64 (VStr s) \<longleftrightarrow> (\<exists>bs. bs \<noteq> [] \<and> s = base64_encode bs)"
proof
  assume "isCanonicalBase64 (VStr s)"
  then have "s \<noteq> []" and "s = base64_encode (base64_decode s)" by (auto simp: isCanonicalBase64_def)
  then show "\<exists>bs. bs \<noteq> [] \<and> s = base64_encode bs"
    by (metis base64_encode.simps(1))
next
  assume "\<exists>bs. bs \<noteq> [] \<and> s = base64_encode bs"
  then obtain bs where bs: "bs \<noteq> []" and s: "s = base64_encode bs" by blast
  have "length s mod 4 = 0" unfolding s by (simp add: base64_encode_length)
  moreover have "s \<noteq> []" using bs s by simp
  ultimately show "isCanonicalBase64 (VStr s)"
    using bs s by (simp add: isCanonicalBase64_def matches_base64_encode base64_decode_encode)
qed

lemma isRsaOutputField_encode [simp]:
  "isRsaOutputField (VStr (base64_encode bs)) \<longleftrightarrow> 384 \<le> length bs \<and> length bs \<le> 1024"
proof -
  have "isCanonicalBase64 (VStr (base64_encode bs))" if "384 \<le> length bs"
    using that isCanonicalBase64_iff [of "base64_encode bs"] by (cases "bs = []") auto
  then show ?thesis
    by (auto simp: isRsaOutputField_def base64_decode_encode MIN_RSA_OUTPUT_BYTES_def
        MAX_RSA_OUTPUT_BYTES_def MIN_MODULUS_LENGTH_def Let_def)
qed

lemma isRsaOutputField_iff:
  "isRsaOutputField v \<longleftrightarrow> (\<exists>bs. v = VStr (base64_encode bs) \<and> 384 \<le> length bs \<and> length bs \<le> 1024)"
proof
  assume v: "isRsaOutputField v"
  then have "is_string v" and "isCanonicalBase64 v"
    by (auto simp: isRsaOutputField_def isCanonicalBase64_def)
  then obtain bs where "v = VStr (base64_encode bs)"
    by (auto simp: is_string_iff isCanonicalBase64_iff)
  with v show "\<exists>bs. v = VStr (base64_encode bs) \<and> 384 \<le> length bs \<and> length bs \<le> 1024" by auto
qed auto

section \<open>The schemas\<close>

text \<open>What all three handshake messages have in common.\<close>

definition handshake_envelope :: "jsstring \<Rightarrow> jsval \<Rightarrow> bool" where
  "handshake_envelope ty msg \<longleftrightarrow>
     \<not> not_object msg \<and> field msg ''type'' = VStr ty \<and> field msg ''version'' = PROTOCOL_VERSION
     \<and> set (object_keys msg) \<subseteq> js ` set (HANDSHAKE_FIELDS ty)
     \<and> (\<forall>f \<in> set (HANDSHAKE_FIELDS ty). field msg f \<noteq> VUndef)
     \<and> isIdentityString (field msg ''sender'') \<and> \<not> containsPrivateKeyMaterial msg"

definition hello_schema :: "'r node_crypto \<Rightarrow> jsval \<Rightarrow> bool" where
  "hello_schema C msg \<longleftrightarrow>
     handshake_envelope HELLO msg
     \<and> (\<exists>pem pem' key key'. field msg ''encryptionPublicKey'' = VStr pem
          \<and> field msg ''signingPublicKey'' = VStr pem' \<and> length pem \<le> 4096 \<and> length pem' \<le> 4096
          \<and> importPublicKey C (VStr pem) = Inr key \<and> importPublicKey C (VStr pem') = Inr key' \<and> key \<noteq> key')"

definition exchange_schema :: "jsstring \<Rightarrow> jsval \<Rightarrow> bool" where
  "exchange_schema ty msg \<longleftrightarrow>
     handshake_envelope ty msg \<and> isIdentityString (field msg ''recipient'')
     \<and> field msg ''recipient'' \<noteq> field msg ''sender''
     \<and> (\<exists>sid sig. field msg ''sessionId'' = VStr sid \<and> matches_session_id sid
          \<and> field msg ''signature'' = VStr (base64_encode sig) \<and> 384 \<le> length sig \<and> length sig \<le> 1024)
     \<and> (ty = KEY_EXCHANGE \<longrightarrow>
          (\<exists>ek. field msg ''encryptedSessionKey'' = VStr (base64_encode ek)
             \<and> 384 \<le> length ek \<and> length ek \<le> 1024))"

lemma find_fields_None:
  "find (\<lambda>f. f \<notin> set (map js fs)) ks = None \<longleftrightarrow> set ks \<subseteq> js ` set fs"
  "find (\<lambda>f. field msg f = VUndef) fs = None \<longleftrightarrow> (\<forall>f \<in> set fs. field msg f \<noteq> VUndef)"
  by (auto simp: find_None_iff)

text \<open>The common part of validation, with the type-specific part left open.\<close>

lemma validateHandshake_Valid_iff:
  assumes "field msg ''type'' = VStr ty" and "\<not> not_object msg"
  shows "validateHandshakeMessage C msg = Inr Valid \<longleftrightarrow>
    handshake_envelope ty msg \<and> (if ty = HELLO then validateHello C msg else validateExchange msg) = Valid"
proof -
  let ?fs = "HANDSHAKE_FIELDS ty"
  have v: "field msg ''version'' \<noteq> VUndef \<and> field msg ''version'' \<in> set SUPPORTED_VERSIONS
    \<longleftrightarrow> field msg ''version'' = PROTOCOL_VERSION"
    by (auto simp: SUPPORTED_VERSIONS_def PROTOCOL_VERSION_def)
  have "validateHandshakeMessage C msg = Inr Valid \<longleftrightarrow>
    \<not> containsPrivateKeyMaterial msg \<and> field msg ''version'' \<noteq> VUndef
    \<and> field msg ''version'' \<in> set SUPPORTED_VERSIONS
    \<and> find (\<lambda>f. f \<notin> set (map js ?fs)) (object_keys msg) = None
    \<and> find (\<lambda>f. field msg f = VUndef) ?fs = None \<and> isIdentityString (field msg ''sender'')
    \<and> (if ty = HELLO then validateHello C msg else validateExchange msg) = Valid"
    by (simp add: validateHandshakeMessage_def assms Let_def split: option.split)
  with assms v show ?thesis
    unfolding find_fields_None handshake_envelope_def by blast
qed

lemma validateMessage_handshake:
  assumes "\<not> not_object msg" and "field msg ''type'' = VStr ty" and "ty \<in> set HANDSHAKE_TYPES"
  shows "validateMessage C msg = validateHandshakeMessage C msg"
  using assms handshake_types_implemented [OF assms(3)] trim_js_type [of ty]
    implemented_not_reserved [of ty]
  by (simp add: validateMessage_def Let_def)

lemma parsePublicKeyField_Inr_iff:
  "parsePublicKeyField C msg f = Inr key \<longleftrightarrow>
    (\<exists>pem. field msg f = VStr pem \<and> length pem \<le> 4096 \<and> importPublicKey C (VStr pem) = Inr key)"
proof -
  have "importPublicKey C (VStr []) \<noteq> Inr key"
    by (simp add: importPublicKey_def)
  then show ?thesis
    by (cases "field msg f")
      (auto simp: parsePublicKeyField_def Let_def MAX_PEM_LENGTH_def split: sum.splits)
qed

lemma validateHello_Valid_iff:
  "validateHello C msg = Valid \<longleftrightarrow>
    (\<exists>pem pem' key key'. field msg ''encryptionPublicKey'' = VStr pem
       \<and> field msg ''signingPublicKey'' = VStr pem' \<and> length pem \<le> 4096 \<and> length pem' \<le> 4096
       \<and> importPublicKey C (VStr pem) = Inr key \<and> importPublicKey C (VStr pem') = Inr key' \<and> key \<noteq> key')"
proof -
  have "validateHello C msg = Valid \<longleftrightarrow>
    (\<exists>key key'. parsePublicKeyField C msg ''encryptionPublicKey'' = Inr key
      \<and> parsePublicKeyField C msg ''signingPublicKey'' = Inr key' \<and> key \<noteq> key')"
    by (auto simp: validateHello_def split: sum.splits)
  then show ?thesis by (fastforce simp: parsePublicKeyField_Inr_iff)
qed

lemma validateExchange_Valid_iff:
  assumes "handshake_envelope ty msg"
  shows "validateExchange msg = Valid \<longleftrightarrow> exchange_schema ty msg"
proof -
  have ty: "field msg ''type'' = VStr ty" using assms by (simp add: handshake_envelope_def)
  have sid: "is_string v \<and> matches_session_id (text_of v) \<longleftrightarrow> (\<exists>s. v = VStr s \<and> matches_session_id s)" for v
    by (cases v) auto
  show ?thesis
    using assms sid [of "field msg ''sessionId''"]
    by (auto simp: validateExchange_def exchange_schema_def ty isRsaOutputField_iff Let_def)
qed

lemma validate_hello_iff:
  assumes "\<not> not_object msg" and "field msg ''type'' = VStr HELLO"
  shows "validateMessage C msg = Inr Valid \<longleftrightarrow> hello_schema C msg"
  using validateMessage_handshake [OF assms, of C] validateHandshake_Valid_iff [OF assms(2,1), of C]
  by (simp add: type_sets hello_schema_def validateHello_Valid_iff)

lemma validate_exchange_iff:
  assumes "\<not> not_object msg" and "field msg ''type'' = VStr ty"
    and "ty = KEY_EXCHANGE \<or> ty = KEY_EXCHANGE_ACK"
  shows "validateMessage C msg = Inr Valid \<longleftrightarrow> exchange_schema ty msg"
proof -
  have "validateMessage C msg = Inr Valid \<longleftrightarrow> handshake_envelope ty msg \<and> validateExchange msg = Valid"
    using assms validateMessage_handshake [OF assms(1,2), of C]
      validateHandshake_Valid_iff [OF assms(2,1), of C]
    by (auto simp: type_sets)
  moreover have "exchange_schema ty msg \<Longrightarrow> handshake_envelope ty msg"
    by (simp add: exchange_schema_def)
  ultimately show ?thesis using validateExchange_Valid_iff by blast
qed

section \<open>All accepted messages\<close>

definition optional_version :: "jsval \<Rightarrow> bool" where
  "optional_version msg \<longleftrightarrow> field msg ''version'' = VUndef \<or> field msg ''version'' = PROTOCOL_VERSION"

definition nonblank :: "jsval \<Rightarrow> bool" where
  "nonblank v \<longleftrightarrow> is_string v \<and> trim (text_of v) \<noteq> []"

text \<open>A SYSTEM message may carry an event, which then needs the name of the peer.\<close>

definition event_schema :: "jsval \<Rightarrow> bool" where
  "event_schema msg \<longleftrightarrow>
     field msg ''event'' = VUndef
     \<or> field msg ''event'' \<in> {VStr PEER_JOINED, VStr PEER_LEFT} \<and> isIdentityString (field msg ''peer'')"

definition message_schema :: "'r node_crypto \<Rightarrow> jsval \<Rightarrow> bool" where
  "message_schema C msg \<longleftrightarrow>
     hello_schema C msg \<or> exchange_schema KEY_EXCHANGE msg \<or> exchange_schema KEY_EXCHANGE_ACK msg
     \<or> \<not> not_object msg \<and> optional_version msg \<and> nonblank (field msg ''text'')
       \<and> (field msg ''type'' = VStr CHAT \<or> field msg ''type'' = VStr ERROR
          \<or> field msg ''type'' = VStr SYSTEM \<and> event_schema msg)"

lemma validate_plain_iff:
  assumes "\<not> not_object msg" and "field msg ''type'' = VStr ty" and "ty \<in> {CHAT, SYSTEM, ERROR}"
  shows "validateMessage C msg = Inr Valid \<longleftrightarrow>
    optional_version msg \<and> nonblank (field msg ''text'') \<and> (ty = SYSTEM \<longrightarrow> event_schema msg)"
proof -
  have ty: "trim ty \<noteq> []" "ty \<notin> set RESERVED_TYPES" "ty \<in> set IMPLEMENTED_TYPES" "ty \<notin> set HANDSHAKE_TYPES"
    using assms(3) trim_js_type [of ty] by (auto simp: type_sets)
  have version: "field msg ''version'' \<noteq> VUndef \<and> field msg ''version'' \<notin> set SUPPORTED_VERSIONS \<longleftrightarrow>
    \<not> optional_version msg"
    by (simp add: optional_version_def SUPPORTED_VERSIONS_def PROTOCOL_VERSION_def)
  show ?thesis
    using assms(3) ty
    unfolding validateMessage_def Let_def version
    by (auto simp: assms(1,2) nonblank_def event_schema_def PEER_EVENTS_def)
qed

text \<open>
  Property C24: validation accepts exactly the messages of the schema, for every JavaScript
  value: HELLO with two different valid RSA keys, KEY_EXCHANGE and its acknowledgement with
  exactly the fields of their type, canonical base64 of RSA size and a recipient other than
  the sender, and CHAT, SYSTEM and ERROR with a non-blank text, a supported version if any,
  and a known event if any.
\<close>

theorem validate_accepts_iff: "validateMessage C msg = Inr Valid \<longleftrightarrow> message_schema C msg"
proof (cases "not_object msg \<or> \<not> is_string (field msg ''type'')
    \<or> text_of (field msg ''type'') \<notin> set IMPLEMENTED_TYPES")
  case True
  then have "validateMessage C msg \<noteq> Inr Valid"
    by (elim disjE) (simp_all add: validateMessage_def Let_def)
  moreover have "\<not> message_schema C msg"
    using True
    by (auto simp: message_schema_def hello_schema_def exchange_schema_def handshake_envelope_def
        IMPLEMENTED_TYPES_def)
  ultimately show ?thesis by simp
next
  case False
  then obtain ty where ty: "field msg ''type'' = VStr ty" "ty \<in> set IMPLEMENTED_TYPES"
    and o: "\<not> not_object msg"
    by (cases "field msg ''type''") auto
  have others: "hello_schema C msg \<Longrightarrow> ty = HELLO" "exchange_schema t msg \<Longrightarrow> ty = t" for t
    using ty(1) by (simp_all add: hello_schema_def exchange_schema_def handshake_envelope_def)
  from ty(2) consider "ty = HELLO" | "ty = KEY_EXCHANGE \<or> ty = KEY_EXCHANGE_ACK" | "ty \<in> {CHAT, SYSTEM, ERROR}"
    by (auto simp: IMPLEMENTED_TYPES_def)
  then show ?thesis
  proof cases
    case 1
    with validate_hello_iff [OF o, of C] ty others(2) [of KEY_EXCHANGE] others(2) [of KEY_EXCHANGE_ACK]
    show ?thesis
      by (auto simp: message_schema_def)
  next
    case 2
    with validate_exchange_iff [OF o ty(1), of C] ty others show ?thesis
      by (auto simp: message_schema_def)
  next
    case 3
    with validate_plain_iff [OF o ty(1), of C] ty(1) o others(1)
      others(2) [of KEY_EXCHANGE] others(2) [of KEY_EXCHANGE_ACK]
    show ?thesis by (auto simp: message_schema_def)
  qed
qed

section \<open>When validation throws\<close>

definition unsupported_version :: "jsval \<Rightarrow> bool" where
  "unsupported_version msg \<longleftrightarrow>
     field msg ''version'' \<noteq> VUndef \<and> field msg ''version'' \<noteq> PROTOCOL_VERSION"

text \<open>
  A message of an implemented type whose unsupported version, or (for SYSTEM) unknown
  event, has no string form.
\<close>

definition throws_on :: "jsval \<Rightarrow> bool" where
  "throws_on msg \<longleftrightarrow>
     \<not> not_object msg \<and> is_string (field msg ''type'')
     \<and> (let ty = text_of (field msg ''type'') in
        ty \<in> set IMPLEMENTED_TYPES
        \<and> (ty \<in> set HANDSHAKE_TYPES \<longrightarrow> \<not> containsPrivateKeyMaterial msg)
        \<and> (unsupported_version msg \<and> unprintable (field msg ''version'')
           \<or> ty = SYSTEM \<and> \<not> unsupported_version msg \<and> is_string (field msg ''text'')
              \<and> trim (text_of (field msg ''text'')) \<noteq> []
              \<and> unprintable (field msg ''event'')))"

lemma to_string_Inl_iff: "to_string v = Inl e \<longleftrightarrow> e = not_primitive \<and> unprintable v"
  using to_string_error [of v] to_string_throws_iff [of v] by blast

lemma unsupported_version_alt:
  "unsupported_version msg \<longleftrightarrow>
    field msg ''version'' \<noteq> VUndef \<and> field msg ''version'' \<notin> set SUPPORTED_VERSIONS"
  by (simp add: unsupported_version_def SUPPORTED_VERSIONS_def PROTOCOL_VERSION_def)

lemma unprintable_event:
  "unprintable v \<Longrightarrow> v \<noteq> VUndef \<and> v \<notin> set (map VStr PEER_EVENTS)"
  by (auto simp: PEER_EVENTS_def)

lemma validateHandshake_Inl_iff:
  "validateHandshakeMessage C msg = Inl e \<longleftrightarrow>
    e = not_primitive \<and> \<not> containsPrivateKeyMaterial msg \<and> unsupported_version msg
    \<and> unprintable (field msg ''version'')"
  by (auto simp: validateHandshakeMessage_def Let_def try_bind_Inl_iff to_string_Inl_iff
      unsupported_version_alt split: option.splits)

lemma validate_Inl_iff:
  "validateMessage C msg = Inl e \<longleftrightarrow> e = not_primitive \<and> throws_on msg"
proof (cases "not_object msg \<or> \<not> is_string (field msg ''type'')
    \<or> text_of (field msg ''type'') \<notin> set IMPLEMENTED_TYPES")
  case True
  then show ?thesis
    by (elim disjE) (simp_all add: validateMessage_def throws_on_def Let_def)
next
  case False
  define ty where "ty = text_of (field msg ''type'')"
  from False have ty: "trim ty \<noteq> []" "ty \<notin> set RESERVED_TYPES" "ty \<in> set IMPLEMENTED_TYPES"
    by (simp_all add: ty_def trim_js_type implemented_not_reserved)
  show ?thesis
  proof (cases "ty \<in> set HANDSHAKE_TYPES")
    case True
    with False ty have "validateMessage C msg = validateHandshakeMessage C msg"
      by (simp add: validateMessage_def Let_def ty_def)
    moreover have "ty \<noteq> SYSTEM" using True by (auto simp: type_sets)
    ultimately show ?thesis
      using False True by (auto simp: validateHandshake_Inl_iff throws_on_def Let_def ty_def)
  next
    case nh: False
    have "unprintable (field msg ''event'') \<Longrightarrow>
      field msg ''event'' \<noteq> VUndef \<and> field msg ''event'' \<notin> set (map VStr PEER_EVENTS)"
      by (rule unprintable_event)
    with False nh ty show ?thesis
      by (auto simp: validateMessage_def throws_on_def Let_def ty_def [symmetric] try_bind_Inl_iff
          to_string_Inl_iff unsupported_version_alt split: if_splits)
  qed
qed

section \<open>Messages of the factories\<close>

lemma map_of_js: "map_of (map (\<lambda>(k, v). (js k, v)) kvs) (js f) = map_of kvs f"
  by (induction kvs) auto

lemma field_obj [simp]:
  "field (obj kvs) f = (case map_of kvs f of Some v \<Rightarrow> v | None \<Rightarrow> VUndef)"
  by (simp add: obj_def map_of_js)

lemma not_object_obj [simp]: "\<not> not_object (obj kvs)"
  by (simp add: obj_def)

lemma object_keys_obj [simp]: "object_keys (obj kvs) = map js (map fst kvs)"
  by (simp add: obj_def object_keys_def case_prod_beta comp_def)

lemma has_substring_subset: "has_substring s p \<Longrightarrow> set p \<subseteq> set s"
  by (auto simp: has_substring_iff_sublist sublist_def)

text \<open>A text that cannot be taken for a private key in PEM form.\<close>

definition no_pem_text :: "jsval \<Rightarrow> bool" where
  "no_pem_text v \<longleftrightarrow> \<not> (is_string v \<and> has_substring (text_of v) (js ''PRIVATE KEY''))"

lemma space_in_pem_text: "32 \<in> set (js ''PRIVATE KEY'')"
  by (simp add: js_def unit_of_def)

lemma no_space_no_pem: "32 \<notin> set s \<Longrightarrow> no_pem_text (VStr s)"
  using has_substring_subset [of s "js ''PRIVATE KEY''"] space_in_pem_text
  by (auto simp: no_pem_text_def)

lemma no_pem_hex: "list_all is_lower_hex s \<Longrightarrow> no_pem_text (VStr s)"
  by (rule no_space_no_pem) (auto simp: list_all_iff is_lower_hex_def is_digit_def)

lemma space_not_base64: "n < 64 \<Longrightarrow> 32 \<noteq> b64_char n"
  using is_base64_b64_char [of n] by (auto simp: is_base64_char_def is_digit_def)

lemma no_pem_base64: "no_pem_text (VStr (base64_encode bs))"
proof (rule no_space_no_pem)
  show "32 \<notin> set (base64_encode bs)"
    by (induction bs rule: base64_encode.induct) (auto simp: Let_def space_not_base64 sextet_bounds)
qed

lemma no_pem_simps [simp]: "no_pem_text (VNum n)" "no_pem_text VUndef"
  by (simp_all add: no_pem_text_def)

lemma contains_private_obj:
  "containsPrivateKeyMaterial (obj kvs) \<longleftrightarrow>
    list_ex (\<lambda>(k, v). has_substring_ignore_case (js k) (js ''private'') \<or> \<not> no_pem_text v) kvs"
  by (simp add: containsPrivateKeyMaterial_def obj_def no_pem_text_def list_ex_iff case_prod_beta)

lemma handshake_names_not_private:
  "k \<in> {''type'', ''version'', ''sender'', ''recipient'', ''sessionId'', ''encryptedSessionKey'',
     ''signature'', ''encryptionPublicKey'', ''signingPublicKey''}
   \<Longrightarrow> \<not> has_substring_ignore_case (js k) (js ''private'')"
  by (auto simp: has_substring_ignore_case_def js_def unit_of_def ascii_lower_def startsWith_def)

lemma types_no_pem: "ty \<in> set HANDSHAKE_TYPES \<Longrightarrow> no_pem_text (VStr ty)"
  by (auto simp: HANDSHAKE_TYPES_def js_def unit_of_def intro!: no_space_no_pem)

lemma hello_valid:
  assumes "isIdentityString sender" and "no_pem_text sender"
    and "pem_key C k" and "pem_key C k'" and "k \<noteq> k'"
  shows "validateMessage C (createHelloMessage sender (VStr (nc_export_spki_pem C k))
    (VStr (nc_export_spki_pem C k')) PROTOCOL_VERSION) = Inr Valid"
proof -
  let ?m = "createHelloMessage sender (VStr (nc_export_spki_pem C k))
    (VStr (nc_export_spki_pem C k')) PROTOCOL_VERSION"
  have "no_pem_text (VStr (nc_export_spki_pem C q))" if "pem_key C q" for q
    using that by (simp add: pem_key_def no_pem_text_def)
  with assms have p: "\<not> containsPrivateKeyMaterial ?m"
    by (auto simp: createHelloMessage_def contains_private_obj handshake_names_not_private
        types_no_pem HANDSHAKE_TYPES_def PROTOCOL_VERSION_def)
  have "sender \<noteq> VUndef" using assms(1) by (auto simp: isIdentityString_def)
  with p assms have "hello_schema C ?m"
    by (auto simp: hello_schema_def handshake_envelope_def createHelloMessage_def HANDSHAKE_FIELDS_def
        PROTOCOL_VERSION_def importPublicKey_export pem_key_def [of C k] pem_key_def [of C k'])
  then show ?thesis
    using validate_hello_iff [of ?m C] by (simp add: createHelloMessage_def)
qed

lemma exchange_valid:
  assumes "isIdentityString s" "isIdentityString r" "s \<noteq> r" "no_pem_text s" "no_pem_text r"
    and "matches_session_id sid"
    and "384 \<le> length ek" "length ek \<le> 1024" "384 \<le> length sg" "length sg \<le> 1024"
  shows "validateMessage C (createKeyExchangeMessage s r (VStr sid) (VStr (base64_encode ek))
    (VStr (base64_encode sg)) PROTOCOL_VERSION) = Inr Valid"
proof -
  let ?m = "createKeyExchangeMessage s r (VStr sid) (VStr (base64_encode ek))
    (VStr (base64_encode sg)) PROTOCOL_VERSION"
  have "s \<noteq> VUndef" "r \<noteq> VUndef" using assms(1,2) by (auto simp: isIdentityString_def)
  moreover have "no_pem_text (VStr sid)" using assms(6) by (simp add: matches_session_id_def no_pem_hex)
  ultimately have "exchange_schema KEY_EXCHANGE ?m"
    using assms
    by (auto simp: exchange_schema_def handshake_envelope_def createKeyExchangeMessage_def
        contains_private_obj handshake_names_not_private types_no_pem HANDSHAKE_TYPES_def
        no_pem_base64 HANDSHAKE_FIELDS_def PROTOCOL_VERSION_def)
  then show ?thesis
    using validate_exchange_iff [of ?m KEY_EXCHANGE C] by (simp add: createKeyExchangeMessage_def)
qed

lemma ack_valid:
  assumes "isIdentityString s" "isIdentityString r" "s \<noteq> r" "no_pem_text s" "no_pem_text r"
    and "matches_session_id sid" and "384 \<le> length sg" "length sg \<le> 1024"
  shows "validateMessage C (createKeyExchangeAckMessage s r (VStr sid)
    (VStr (base64_encode sg)) PROTOCOL_VERSION) = Inr Valid"
proof -
  let ?m = "createKeyExchangeAckMessage s r (VStr sid) (VStr (base64_encode sg)) PROTOCOL_VERSION"
  have "s \<noteq> VUndef" "r \<noteq> VUndef" using assms(1,2) by (auto simp: isIdentityString_def)
  moreover have "no_pem_text (VStr sid)" using assms(6) by (simp add: matches_session_id_def no_pem_hex)
  ultimately have "exchange_schema KEY_EXCHANGE_ACK ?m"
    using assms
    by (auto simp: exchange_schema_def handshake_envelope_def createKeyExchangeAckMessage_def
        contains_private_obj handshake_names_not_private types_no_pem HANDSHAKE_TYPES_def
        no_pem_base64 HANDSHAKE_FIELDS_def PROTOCOL_VERSION_def)
  then show ?thesis
    using validate_exchange_iff [of ?m KEY_EXCHANGE_ACK C] by (simp add: createKeyExchangeAckMessage_def)
qed

end
