(* ===== verification/Canonical.thy ===== *)
theory Canonical
  imports Message
begin

text \<open>
  \<open>src/protocol/canonical.js\<close>: the bytes that are signed. Every field is preceded by its
  length, so the concatenation of the fields determines them; the interpretation of
  \<open>self_delimiting\<close> turns this into the injectivity of \<open>canonicalizeHandshake\<close>.
\<close>

definition SIGNATURE_LABEL :: jsstring where
  "SIGNATURE_LABEL = js ''CipherLink handshake signature''"

text \<open>\<open>writeUInt32BE\<close> throws a \<open>RangeError\<close> of Node's for a length that does not fit.\<close>

definition lengthPrefixed :: "jsval \<Rightarrow> js_error + bytes" where
  "lengthPrefixed v =
     try_bind
       (case v of VStr s \<Rightarrow> Inr (utf8_encode s) | VBytes bs \<Rightarrow> Inr bs
        | _ \<Rightarrow> Inl (TypeError (js ''Canonical field must be a string or bytes.'')))
       (\<lambda>bs. if length bs < 2 ^ 32 then Inr (uint32_be (length bs) @ bs) else Inl NodeError)"

definition requireNonEmptyString :: "string \<Rightarrow> jsval \<Rightarrow> js_error + unit" where
  "requireNonEmptyString name v =
     (if \<not> is_string v \<or> text_of v = []
      then Inl (TypeError (js ''Canonical field '' @ quoted (js name) @ js '' must be a non-empty string.''))
      else Inr ())"

text \<open>The argument of \<open>canonicalizeHandshake\<close>; a field that is left out is \<open>undefined\<close>.\<close>

record canonical_fields =
  cf_version :: jsval
  cf_type :: jsval
  cf_sender :: jsval
  cf_recipient :: jsval
  cf_sessionId :: jsval
  cf_encryptedSessionKey :: jsval
  cf_recipientEncryptionKeyFingerprint :: jsval

fun is_bytes :: "jsval \<Rightarrow> bool" where
  "is_bytes (VBytes bs) \<longleftrightarrow> True"
| "is_bytes _ \<longleftrightarrow> False"

fun valid_version :: "jsval \<Rightarrow> bool" where
  "valid_version (VNum n) \<longleftrightarrow> num_is_integer n \<and> \<not> num_less_zero n"
| "valid_version _ \<longleftrightarrow> False"

definition canonicalizeHandshake :: "canonical_fields \<Rightarrow> js_error + bytes" where
  "canonicalizeHandshake f =
     (if \<not> valid_version (cf_version f)
      then Inl (TypeError (js ''Canonical field '' @ quoted (js ''version'')
        @ js '' must be a non-negative integer.''))
      else
        try_bind (requireNonEmptyString ''type'' (cf_type f)) (\<lambda>_.
        try_bind (requireNonEmptyString ''sender'' (cf_sender f)) (\<lambda>_.
        try_bind (requireNonEmptyString ''recipient'' (cf_recipient f)) (\<lambda>_.
        try_bind (requireNonEmptyString ''sessionId'' (cf_sessionId f)) (\<lambda>_.
        try_bind (to_string (cf_version f)) (\<lambda>version.
        try_bind (try_map lengthPrefixed
          [VStr SIGNATURE_LABEL, VStr version, cf_type f, cf_sender f, cf_recipient f, cf_sessionId f])
          (\<lambda>parts.
        if cf_type f = VStr KEY_EXCHANGE then
          (if \<not> is_bytes (cf_encryptedSessionKey f)
              \<or> \<not> is_bytes (cf_recipientEncryptionKeyFingerprint f)
           then Inl (TypeError
             (js ''KEY_EXCHANGE requires encryptedSessionKey and recipientEncryptionKeyFingerprint bytes.''))
           else try_bind (try_map lengthPrefixed
                  [cf_encryptedSessionKey f, cf_recipientEncryptionKeyFingerprint f])
                  (\<lambda>more. Inr (concat (parts @ more))))
        else if cf_type f = VStr KEY_EXCHANGE_ACK then
          (if cf_encryptedSessionKey f \<noteq> VUndef \<or> cf_recipientEncryptionKeyFingerprint f \<noteq> VUndef
           then Inl (TypeError (js ''KEY_EXCHANGE_ACK has no key fields.''))
           else Inr (concat parts))
        else Inl (TypeError (js ''Cannot canonicalize message type '' @ quoted (text_of (cf_type f))
               @ js ''.'')))))))))"

section \<open>Length prefixes delimit\<close>

definition prefixed :: "bytes \<Rightarrow> bytes" where
  "prefixed bs = uint32_be (length bs) @ bs"

definition read_prefixed :: "bytes \<Rightarrow> (bytes \<times> bytes) option" where
  "read_prefixed bs =
     (let n = read_uint32_be (take 4 bs); rest = drop 4 bs in Some (take n rest, drop n rest))"

interpretation prefixed: self_delimiting prefixed read_prefixed "\<lambda>bs. length bs < 2 ^ 32"
proof unfold_locales
  fix bs rest :: bytes
  assume "length bs < 2 ^ 32"
  then have "read_uint32_be (uint32_be (length bs)) = length bs" by (rule read_uint32_be)
  then show "read_prefixed (prefixed bs @ rest) = Some (bs, rest)"
    by (simp add: read_prefixed_def prefixed_def)
next
  fix bs :: bytes
  show "prefixed bs \<noteq> []" by (simp add: prefixed_def uint32_be_def)
qed

text \<open>The bytes of a field.\<close>

fun field_bytes :: "jsval \<Rightarrow> bytes" where
  "field_bytes (VStr s) = utf8_encode s"
| "field_bytes (VBytes bs) = bs"
| "field_bytes _ = []"

lemma lengthPrefixed_Inr:
  "lengthPrefixed v = Inr bs \<longleftrightarrow>
    (is_string v \<or> is_bytes v) \<and> length (field_bytes v) < 2 ^ 32 \<and> bs = prefixed (field_bytes v)"
  by (cases v) (auto simp: lengthPrefixed_def prefixed_def split: if_splits)

lemma try_map_lengthPrefixed:
  "try_map lengthPrefixed vs = Inr ps \<longleftrightarrow>
    list_all (\<lambda>v. (is_string v \<or> is_bytes v) \<and> length (field_bytes v) < 2 ^ 32) vs
    \<and> ps = map (\<lambda>v. prefixed (field_bytes v)) vs"
  by (induction vs arbitrary: ps) (auto simp: lengthPrefixed_Inr)

section \<open>The signed fields\<close>

text \<open>The fields in their signed order, the label and the version's text included.\<close>

definition signed_fields :: "canonical_fields \<Rightarrow> jsval list" where
  "signed_fields f =
     [VStr SIGNATURE_LABEL, (case to_string (cf_version f) of Inr s \<Rightarrow> VStr s | Inl e \<Rightarrow> VUndef),
      cf_type f, cf_sender f, cf_recipient f, cf_sessionId f]
     @ (if cf_type f = VStr KEY_EXCHANGE
        then [cf_encryptedSessionKey f, cf_recipientEncryptionKeyFingerprint f] else [])"

text \<open>What the code checks, besides the lengths: the arguments a caller has to pass.\<close>

definition canonical_args :: "canonical_fields \<Rightarrow> bool" where
  "canonical_args f \<longleftrightarrow>
     valid_version (cf_version f)
     \<and> list_all (\<lambda>v. is_string v \<and> text_of v \<noteq> []) [cf_type f, cf_sender f, cf_recipient f, cf_sessionId f]
     \<and> (cf_type f = VStr KEY_EXCHANGE \<and> is_bytes (cf_encryptedSessionKey f)
           \<and> is_bytes (cf_recipientEncryptionKeyFingerprint f)
        \<or> cf_type f = VStr KEY_EXCHANGE_ACK \<and> cf_encryptedSessionKey f = VUndef
           \<and> cf_recipientEncryptionKeyFingerprint f = VUndef)"

lemma canonicalize_Inr_iff:
  "canonicalizeHandshake f = Inr bs \<longleftrightarrow>
    canonical_args f \<and> list_all (\<lambda>v. length (field_bytes v) < 2 ^ 32) (signed_fields f)
    \<and> bs = concat (map (\<lambda>v. prefixed (field_bytes v)) (signed_fields f))"
proof (cases "cf_version f")
  case (VNum n)
  show ?thesis
    by (cases "cf_type f = VStr KEY_EXCHANGE"; cases "cf_type f = VStr KEY_EXCHANGE_ACK")
      (auto simp: canonicalizeHandshake_def canonical_args_def signed_fields_def VNum
        requireNonEmptyString_def try_map_lengthPrefixed lengthPrefixed_Inr is_string_iff)
qed (simp_all add: canonicalizeHandshake_def canonical_args_def)

text \<open>Equal signed bytes, equal fields: as byte strings, without any assumption on the texts.\<close>

lemma canonicalize_same_bytes:
  assumes "canonicalizeHandshake f = Inr bs" and "canonicalizeHandshake g = Inr bs"
  shows "map field_bytes (signed_fields f) = map field_bytes (signed_fields g)"
proof -
  let ?F = "map field_bytes (signed_fields f)" and ?G = "map field_bytes (signed_fields g)"
  have ok: "list_all (\<lambda>bs. length bs < 2 ^ 32) ?F" "list_all (\<lambda>bs. length bs < 2 ^ 32) ?G"
    using assms by (simp_all add: canonicalize_Inr_iff list_all_iff)
  have "concat (map prefixed ?F) = concat (map prefixed ?G)"
    using assms by (simp add: canonicalize_Inr_iff comp_def)
  with prefixed.concat_enc_eq_iff [OF ok] show ?thesis by simp
qed

lemma utf8_inject: "well_formed s \<Longrightarrow> well_formed t \<Longrightarrow> utf8_encode s = utf8_encode t \<longleftrightarrow> s = t"
  by (rule utf8.enc_eq_iff)

definition well_formed_texts :: "canonical_fields \<Rightarrow> bool" where
  "well_formed_texts f \<longleftrightarrow>
     list_all (\<lambda>v. well_formed (text_of v)) [cf_sender f, cf_recipient f, cf_sessionId f]"

lemma well_formed_js: "list_all (\<lambda>c. of_char c < (128 :: nat)) s \<Longrightarrow> well_formed (js s)"
  by (rule ascii_well_formed) (induction s, auto simp: js_def ascii_def)

lemma field_bytes_eq:
  "is_string v \<Longrightarrow> is_string w \<Longrightarrow> well_formed (text_of v) \<Longrightarrow> well_formed (text_of w) \<Longrightarrow>
    field_bytes v = field_bytes w \<longleftrightarrow> v = w"
  "is_bytes v \<Longrightarrow> is_bytes w \<Longrightarrow> field_bytes v = field_bytes w \<longleftrightarrow> v = w"
  by (cases v; cases w; simp add: utf8_inject)+

lemma field_bytes_js_eq:
  "list_all (\<lambda>c. of_char c < (128 :: nat)) a \<Longrightarrow> list_all (\<lambda>c. of_char c < (128 :: nat)) b \<Longrightarrow>
    field_bytes (VStr (js a)) = field_bytes (VStr (js b)) \<longleftrightarrow> a = b"
  by (simp add: utf8_inject well_formed_js)

lemma signed_types:
  assumes "canonical_args f" and "canonical_args g"
    and "field_bytes (cf_type f) = field_bytes (cf_type g)"
  shows "cf_type f = cf_type g"
proof -
  have "cf_type f \<in> {VStr KEY_EXCHANGE, VStr KEY_EXCHANGE_ACK}"
    "cf_type g \<in> {VStr KEY_EXCHANGE, VStr KEY_EXCHANGE_ACK}"
    using assms(1,2) by (auto simp: canonical_args_def)
  moreover have "field_bytes (VStr KEY_EXCHANGE) \<noteq> field_bytes (VStr KEY_EXCHANGE_ACK)"
    by (subst field_bytes_js_eq) simp_all
  ultimately show ?thesis using assms(3) by (auto simp del: field_bytes.simps)
qed

lemma canonicalize_same_signed:
  assumes "canonicalizeHandshake f = Inr bs" and "canonicalizeHandshake g = Inr bs"
    and "well_formed_texts f" and "well_formed_texts g"
  shows "signed_fields f = signed_fields g"
proof -
  have args: "canonical_args f" "canonical_args g" using assms(1,2) by (simp_all add: canonicalize_Inr_iff)
  note fb = canonicalize_same_bytes [OF assms(1,2)]
  from fb have "field_bytes (cf_type f) = field_bytes (cf_type g)" by (simp add: signed_fields_def)
  with args have ty: "cf_type f = cf_type g" by (rule signed_types)
  have strs: "is_string (cf_sender h)" "is_string (cf_recipient h)" "is_string (cf_sessionId h)"
    if "canonical_args h" for h
    using that by (simp_all add: canonical_args_def)
  have parties: "cf_sender f = cf_sender g" "cf_recipient f = cf_recipient g"
    "cf_sessionId f = cf_sessionId g"
    using fb strs [OF args(1)] strs [OF args(2)] assms(3,4)
    by (simp_all add: signed_fields_def field_bytes_eq(1) well_formed_texts_def)
  obtain n m where "cf_version f = VNum n" "cf_version g = VNum m"
    using args by (cases "cf_version f"; cases "cf_version g") (simp_all add: canonical_args_def)
  with fb have version: "to_string (cf_version f) = to_string (cf_version g)"
    by (simp add: signed_fields_def utf8_inject ascii_well_formed ascii_num_to_string)
  have "cf_type f = VStr KEY_EXCHANGE \<Longrightarrow> cf_encryptedSessionKey f = cf_encryptedSessionKey g
    \<and> cf_recipientEncryptionKeyFingerprint f = cf_recipientEncryptionKeyFingerprint g"
    using fb ty args by (auto simp: signed_fields_def canonical_args_def field_bytes_eq(2))
  with ty parties version show ?thesis by (simp add: signed_fields_def)
qed

lemma signed_fields_eqD:
  assumes "canonical_args f" and "canonical_args g" and "signed_fields f = signed_fields g"
  shows "cf_type f = cf_type g" "cf_sender f = cf_sender g" "cf_recipient f = cf_recipient g"
    "cf_sessionId f = cf_sessionId g" "cf_encryptedSessionKey f = cf_encryptedSessionKey g"
    "cf_recipientEncryptionKeyFingerprint f = cf_recipientEncryptionKeyFingerprint g"
    "to_string (cf_version f) = to_string (cf_version g)"
proof -
  show ty: "cf_type f = cf_type g" and "cf_sender f = cf_sender g" "cf_recipient f = cf_recipient g"
    "cf_sessionId f = cf_sessionId g"
    using assms(3) by (simp_all add: signed_fields_def)
  show "cf_encryptedSessionKey f = cf_encryptedSessionKey g"
    "cf_recipientEncryptionKeyFingerprint f = cf_recipientEncryptionKeyFingerprint g"
    using assms ty by (simp_all add: signed_fields_def canonical_args_def split: if_splits)
  obtain n m where "cf_version f = VNum n" "cf_version g = VNum m"
    using assms(1,2) by (cases "cf_version f"; cases "cf_version g") (simp_all add: canonical_args_def)
  then show "to_string (cf_version f) = to_string (cf_version g)"
    using assms(3) by (simp add: signed_fields_def)
qed

section \<open>Properties\<close>

text \<open>
  Property C25: the signed bytes determine everything that is signed. Two arguments whose
  texts are well-formed UTF-16 and that \<open>canonicalizeHandshake\<close> turns into the same bytes
  have the same type, parties, session ID and version text, and, for KEY_EXCHANGE, the same
  ciphertext and recipient-key fingerprint. So a signature made for one message never
  verifies for another.
\<close>

theorem canonicalize_injective:
  assumes "canonicalizeHandshake f = Inr bs" and "canonicalizeHandshake g = Inr bs"
    and "well_formed_texts f" and "well_formed_texts g"
  shows "cf_type f = cf_type g \<and> cf_sender f = cf_sender g \<and> cf_recipient f = cf_recipient g
    \<and> cf_sessionId f = cf_sessionId g \<and> cf_encryptedSessionKey f = cf_encryptedSessionKey g
    \<and> cf_recipientEncryptionKeyFingerprint f = cf_recipientEncryptionKeyFingerprint g
    \<and> to_string (cf_version f) = to_string (cf_version g)"
  using signed_fields_eqD [OF _ _ canonicalize_same_signed [OF assms]] assms(1,2)
  by (simp add: canonicalize_Inr_iff)

text \<open>A concrete acknowledgement, for the witnesses.\<close>

definition sample_ack :: canonical_fields where
  "sample_ack = \<lparr>cf_version = PROTOCOL_VERSION, cf_type = VStr KEY_EXCHANGE_ACK,
     cf_sender = VStr (js ''B''), cf_recipient = VStr (js ''A''), cf_sessionId = VStr (js ''7''),
     cf_encryptedSessionKey = VUndef, cf_recipientEncryptionKeyFingerprint = VUndef\<rparr>"

lemma sample_ack_ok:
  "\<exists>bs. canonicalizeHandshake sample_ack = Inr bs" "well_formed_texts sample_ack"
  by (simp_all add: canonicalize_Inr_iff canonical_args_def sample_ack_def signed_fields_def
      PROTOCOL_VERSION_def num_one_integer num_one_string well_formed_texts_def well_formed_js
      SIGNATURE_LABEL_def utf8_encode_def js_def unit_of_def is_high_def is_low_def utf8_scalar_def
      del: One_nat_def)

theorem canonicalize_injective_witness:
  "\<exists>bs. canonicalizeHandshake sample_ack = Inr bs \<and> cf_sender sample_ack = VStr (js ''B'')"
proof -
  obtain bs where "canonicalizeHandshake sample_ack = Inr bs" using sample_ack_ok(1) by blast
  moreover from canonicalize_injective [OF this this sample_ack_ok(2) sample_ack_ok(2)]
  have "cf_sender sample_ack = cf_sender sample_ack" by simp
  ultimately show ?thesis by (auto simp: sample_ack_def)
qed

text \<open>
  The limit of injectivity: a lone surrogate is signed as U+FFFD, so two different
  senders, each a single lone surrogate, always have the same signed bytes: the encoding is
  injective on well-formed texts only, not on all strings that \<open>JSON.parse\<close> can produce.
\<close>

theorem lone_surrogates_collide:
  "canonicalizeHandshake (f\<lparr>cf_sender := VStr [0xD800]\<rparr>)
    = canonicalizeHandshake (f\<lparr>cf_sender := VStr [0xDFFF]\<rparr>)
  \<and> VStr [0xD800] \<noteq> VStr [0xDFFF]"
proof -
  have "lengthPrefixed (VStr [0xD800]) = lengthPrefixed (VStr [0xDFFF])"
    by (simp add: lengthPrefixed_def utf8_encode_def is_high_def is_low_def)
  then show ?thesis
    by (simp add: canonicalizeHandshake_def requireNonEmptyString_def cong: if_cong)
qed

end
