(* ===== verification/Handshake.thy ===== *)
theory Handshake
  imports MessageLaws Canonical
begin

text \<open>
  \<open>src/security/handshake.js\<close> and \<open>src/security/identity.js\<close>: the construction and
  verification of the handshake messages, and a client's key material. The functions are
  state transformers of a \<open>world\<close>: the source of randomness, and the buffers that hold
  session keys. A session key is a mutable \<open>Buffer\<close> that several objects share and that is
  overwritten with zeros when it is discarded, so it is an address into \<open>w_heap\<close>.
\<close>

section \<open>The world\<close>

record 'r world =
  w_entropy :: 'r
  w_heap :: "bytes list"

definition alloc :: "bytes \<Rightarrow> 'r world \<Rightarrow> nat \<times> 'r world" where
  "alloc bs w = (length (w_heap w), w\<lparr>w_heap := w_heap w @ [bs]\<rparr>)"

text \<open>\<open>buf.fill(0)\<close>.\<close>

definition fill0 :: "nat \<Rightarrow> 'r world \<Rightarrow> 'r world" where
  "fill0 a w = w\<lparr>w_heap := (w_heap w)[a := replicate (length (w_heap w ! a)) 0]\<rparr>"

definition zeroed :: "'r world \<Rightarrow> nat \<Rightarrow> bool" where
  "zeroed w a \<longleftrightarrow> a < length (w_heap w) \<and> (\<forall>b \<in> set (w_heap w ! a). b = 0)"

lemma alloc_simps [simp]:
  "fst (alloc bs w) = length (w_heap w)" "w_heap (snd (alloc bs w)) = w_heap w @ [bs]"
  "w_entropy (snd (alloc bs w)) = w_entropy w"
  by (simp_all add: alloc_def)

lemma fill0_simps [simp]:
  "length (w_heap (fill0 a w)) = length (w_heap w)" "w_entropy (fill0 a w) = w_entropy w"
  by (simp_all add: fill0_def)

lemma fill0_zeroed: "a < length (w_heap w) \<Longrightarrow> zeroed (fill0 a w) a"
  by (simp add: zeroed_def fill0_def)

section \<open>Identities\<close>

record key_pair =
  kp_public :: keyobj
  kp_private :: keyobj

record identity =
  id_encryption :: key_pair
  id_signing :: key_pair

definition createIdentity :: "'r node_crypto \<Rightarrow> 'r \<Rightarrow> identity \<times> 'r" where
  "createIdentity C r =
     (let ((pub, priv), r1) = generateKeyPair C r; ((pub', priv'), r2) = generateKeyPair C r1
      in (\<lparr>id_encryption = \<lparr>kp_public = pub, kp_private = priv\<rparr>,
           id_signing = \<lparr>kp_public = pub', kp_private = priv'\<rparr>\<rparr>, r2))"

text \<open>The two PEM texts: encryption, signing.\<close>

definition exportPublicKeys :: "'r node_crypto \<Rightarrow> identity \<Rightarrow> js_error + (jsstring \<times> jsstring)" where
  "exportPublicKeys C i =
     try_bind (exportPublicKey C (Some (kp_public (id_encryption i)))) (\<lambda>enc.
     try_bind (exportPublicKey C (Some (kp_public (id_signing i)))) (\<lambda>sig. Inr (enc, sig)))"

section \<open>Checks\<close>

definition requireWellFormed :: "'r node_crypto \<Rightarrow> jsval \<Rightarrow> jsstring \<Rightarrow> js_error + unit" where
  "requireWellFormed C message expectedType =
     try_bind (validateMessage C message) (\<lambda>v.
       if v \<noteq> Valid \<or> field message ''type'' \<noteq> VStr expectedType
       then Inl (HandshakeError (js ''Malformed '' @ expectedType @ js '' message.''))
       else Inr ())"

definition requireParties :: "jsval \<Rightarrow> jsval \<Rightarrow> jsval \<Rightarrow> js_error + unit" where
  "requireParties message expectedSender expectedRecipient =
     (if field message ''sender'' \<noteq> expectedSender
      then Inl (HandshakeError (js ''Unexpected sender.''))
      else if field message ''recipient'' \<noteq> expectedRecipient
      then Inl (HandshakeError (js ''Message is not addressed to this client.''))
      else Inr ())"

section \<open>KEY_EXCHANGE\<close>

text \<open>The arguments of the two calls of \<open>canonicalizeHandshake\<close>.\<close>

definition exchange_fields ::
  "jsval \<Rightarrow> jsval \<Rightarrow> jsval \<Rightarrow> jsval \<Rightarrow> jsval \<Rightarrow> bytes \<Rightarrow> bytes \<Rightarrow> canonical_fields" where
  "exchange_fields version ty sender recipient sessionId ek fp =
     \<lparr>cf_version = version, cf_type = ty, cf_sender = sender, cf_recipient = recipient,
      cf_sessionId = sessionId, cf_encryptedSessionKey = VBytes ek,
      cf_recipientEncryptionKeyFingerprint = VBytes fp\<rparr>"

definition ack_fields :: "jsval \<Rightarrow> jsval \<Rightarrow> jsval \<Rightarrow> jsval \<Rightarrow> jsval \<Rightarrow> canonical_fields" where
  "ack_fields version ty sender recipient sessionId =
     \<lparr>cf_version = version, cf_type = ty, cf_sender = sender, cf_recipient = recipient,
      cf_sessionId = sessionId, cf_encryptedSessionKey = VUndef,
      cf_recipientEncryptionKeyFingerprint = VUndef\<rparr>"

text \<open>\<open>createKeyExchange\<close> returns the message, the session ID and the key's address.\<close>

definition createKeyExchange ::
  "'r node_crypto \<Rightarrow> jsval \<Rightarrow> jsval \<Rightarrow> jskey \<Rightarrow> jskey \<Rightarrow> jsval \<Rightarrow> 'r world
    \<Rightarrow> (js_error + (jsval \<times> jsstring \<times> nat)) \<times> 'r world" where
  "createKeyExchange C sender recipient signingPrivateKey peerEncryptionPublicKey version w =
     (let (key, r1) = generateSessionKey C (w_entropy w);
          (addr, w1) = alloc key (w\<lparr>w_entropy := r1\<rparr>);
          (sessionId, r2) = generateSessionId C r1;
          (wrapped, r3) = rsaEncrypt C peerEncryptionPublicKey (VBytes (w_heap w1 ! addr)) r2
      in case wrapped of
           Inl e \<Rightarrow> (Inl e, w1\<lparr>w_entropy := r3\<rparr>)
         | Inr ek \<Rightarrow>
             (case try_bind (publicKeyFingerprint C peerEncryptionPublicKey) (\<lambda>fp.
                     canonicalizeHandshake (exchange_fields version (VStr KEY_EXCHANGE) sender
                       recipient (VStr sessionId) ek fp)) of
                Inl e \<Rightarrow> (Inl e, w1\<lparr>w_entropy := r3\<rparr>)
              | Inr signedData \<Rightarrow>
                  (case sign C signingPrivateKey (VBytes signedData) r3 of
                     (Inl e, r4) \<Rightarrow> (Inl e, w1\<lparr>w_entropy := r4\<rparr>)
                   | (Inr signature, r4) \<Rightarrow>
                       (Inr (createKeyExchangeMessage sender recipient (VStr sessionId)
                               (VStr (base64_encode ek)) (VStr (base64_encode signature)) version,
                             sessionId, addr),
                        w1\<lparr>w_entropy := r4\<rparr>))))"

definition verifyKeyExchange ::
  "'r node_crypto \<Rightarrow> jsval \<Rightarrow> jsval \<Rightarrow> jsval \<Rightarrow> jskey \<Rightarrow> jskey \<Rightarrow> jskey \<Rightarrow> 'r world
    \<Rightarrow> (js_error + (jsval \<times> nat)) \<times> 'r world" where
  "verifyKeyExchange C message expectedSender expectedRecipient peerSigningPublicKey
       ownEncryptionPublicKey ownEncryptionPrivateKey w =
     (let encryptedSessionKey = base64_decode (text_of (field message ''encryptedSessionKey''))
      in case
           try_bind (requireWellFormed C message KEY_EXCHANGE) (\<lambda>_.
           try_bind (requireParties message expectedSender expectedRecipient) (\<lambda>_.
           try_bind (publicKeyFingerprint C ownEncryptionPublicKey) (\<lambda>fp.
           try_bind (canonicalizeHandshake (exchange_fields (field message ''version'')
               (field message ''type'') (field message ''sender'') (field message ''recipient'')
               (field message ''sessionId'') encryptedSessionKey fp)) (\<lambda>signedData.
           try_bind (verify C peerSigningPublicKey (VBytes signedData)
               (VBytes (base64_decode (text_of (field message ''signature''))))) (\<lambda>ok.
           if \<not> ok then Inl (HandshakeError (js ''Invalid signature.''))
           else case rsaDecrypt C ownEncryptionPrivateKey (VBytes encryptedSessionKey) of
               Inl e \<Rightarrow> Inl (HandshakeError (js ''Unable to decrypt the session key.''))
             | Inr key \<Rightarrow> Inr key))))) of
           Inl e \<Rightarrow> (Inl e, w)
         | Inr key \<Rightarrow>
             (let (addr, w1) = alloc key w
              in if length (w_heap w1 ! addr) \<noteq> SESSION_KEY_BYTES
                 then (Inl (HandshakeError (js ''Session key has the wrong length.'')), fill0 addr w1)
                 else (Inr (field message ''sessionId'', addr), w1)))"

section \<open>KEY_EXCHANGE_ACK\<close>

definition createKeyExchangeAck ::
  "'r node_crypto \<Rightarrow> jsval \<Rightarrow> jsval \<Rightarrow> jsval \<Rightarrow> jskey \<Rightarrow> jsval \<Rightarrow> 'r world
    \<Rightarrow> (js_error + jsval) \<times> 'r world" where
  "createKeyExchangeAck C sender recipient sessionId signingPrivateKey version w =
     (case canonicalizeHandshake
         (ack_fields version (VStr KEY_EXCHANGE_ACK) sender recipient sessionId) of
        Inl e \<Rightarrow> (Inl e, w)
      | Inr signedData \<Rightarrow>
          (case sign C signingPrivateKey (VBytes signedData) (w_entropy w) of
             (Inl e, r) \<Rightarrow> (Inl e, w\<lparr>w_entropy := r\<rparr>)
           | (Inr signature, r) \<Rightarrow>
               (Inr (createKeyExchangeAckMessage sender recipient sessionId
                  (VStr (base64_encode signature)) version), w\<lparr>w_entropy := r\<rparr>)))"

definition verifyKeyExchangeAck ::
  "'r node_crypto \<Rightarrow> jsval \<Rightarrow> jsval \<Rightarrow> jsval \<Rightarrow> jsval \<Rightarrow> jskey \<Rightarrow> js_error + unit" where
  "verifyKeyExchangeAck C message expectedSender expectedRecipient expectedSessionId
       peerSigningPublicKey =
     try_bind (requireWellFormed C message KEY_EXCHANGE_ACK) (\<lambda>_.
     try_bind (requireParties message expectedSender expectedRecipient) (\<lambda>_.
     if field message ''sessionId'' \<noteq> expectedSessionId
     then Inl (HandshakeError (js ''Unexpected session ID.''))
     else
       try_bind (canonicalizeHandshake (ack_fields (field message ''version'')
           (field message ''type'') (field message ''sender'') (field message ''recipient'')
           (field message ''sessionId''))) (\<lambda>signedData.
       try_bind (verify C peerSigningPublicKey (VBytes signedData)
           (VBytes (base64_decode (text_of (field message ''signature''))))) (\<lambda>ok.
       if \<not> ok then Inl (HandshakeError (js ''Invalid signature.'')) else Inr ()))))"

end
