(* ===== verification/SampleCrypto.thy ===== *)
theory SampleCrypto
  imports Crypto
begin

text \<open>
  A concrete module with the documented behaviour \<open>Crypto\<close> states, on which the
  properties are witnessed. Its keys are numbers, its ciphertexts contain the plaintext: it
  has the functional behaviour of a crypto module and none of its secrecy, which no
  property assumes.
\<close>

definition sample_key :: "key_kind \<Rightarrow> 8 word \<Rightarrow> keyobj" where
  "sample_key ty n =
     \<lparr>key_type = ty, asymmetricKeyType = Some (js ''rsa''), modulusLength = 3072, key_material = [n]\<rparr>"

definition sample_pem :: "keyobj \<Rightarrow> jsstring" where
  "sample_pem k = js ''-----BEGIN PUBLIC KEY-----'' @ map ucast (key_material k)"

definition sample_parse :: "jsstring \<Rightarrow> keyobj option" where
  "sample_parse t =
     (case drop 26 t of [c] \<Rightarrow> Some (sample_key PublicKey (ucast c)) | _ \<Rightarrow> None)"

definition sample_encrypt :: "keyobj \<Rightarrow> bytes \<Rightarrow> nat \<Rightarrow> bytes option \<times> nat" where
  "sample_encrypt k m r =
     (if length m \<le> 318
      then (Some (take 1 (key_material k) @ uint32_be (length m) @ m @ replicate (379 - length m) 0), r + 1)
      else (None, r))"

definition sample_decrypt :: "keyobj \<Rightarrow> bytes \<Rightarrow> bytes option" where
  "sample_decrypt k c =
     (let n = read_uint32_be (take 4 (drop 1 c)) in
      if take 1 c = take 1 (key_material k) \<and> n \<le> 318 then Some (take n (drop 5 c)) else None)"

definition sample_crypto :: "nat node_crypto" where
  "sample_crypto =
     \<lparr>nc_randomBytes = (\<lambda>n r. (replicate n (of_nat r), r + 1)),
      nc_generateKeyPairSync = (\<lambda>n e r.
        ((sample_key PublicKey (of_nat r), sample_key PrivateKey (of_nat r)), r + 1)),
      nc_createPublicKey = sample_parse,
      nc_createPrivateKey = (\<lambda>t. None),
      nc_export_spki_pem = sample_pem,
      nc_export_spki_der = key_material,
      nc_export_pkcs8_pem = sample_pem,
      nc_publicEncrypt = sample_encrypt,
      nc_privateDecrypt = sample_decrypt,
      nc_sha256 = (\<lambda>bs. replicate 32 (of_nat (length bs))),
      nc_sign = (\<lambda>k d r. (Some (key_material k @ replicate 383 0), r + 1)),
      nc_verify = (\<lambda>k d s. Some (take 1 s = key_material k))\<rparr>"

lemma sample_good [simp]: "good_key ty (sample_key ty n)" "modulusLength (sample_key ty n) = 3072"
  by (simp_all add: good_key_def sample_key_def MIN_MODULUS_LENGTH_def)

lemma sample_random [simp]: "random_ok sample_crypto"
  by (simp add: random_ok_def sample_crypto_def)

lemma sample_sha256 [simp]: "sha256_ok sample_crypto"
  by (simp add: sha256_ok_def sample_crypto_def)

lemma sample_oaep [simp]:
  "oaep_pair sample_crypto (sample_key PublicKey n) (sample_key PrivateKey n)"
proof -
  have "sample_decrypt (sample_key PrivateKey n)
      (take 1 (key_material (sample_key PublicKey n)) @ uint32_be (length m) @ m @ replicate (379 - length m) 0) = Some m"
    if "length m \<le> 318" for m
    using that read_uint32_be [of "length m"]
    by (simp add: sample_decrypt_def sample_key_def Let_def)
  then show ?thesis
    by (auto simp: oaep_pair_def sample_crypto_def sample_encrypt_def sample_key_def good_key_def MIN_MODULUS_LENGTH_def)
qed

lemma sample_pss [simp]:
  "pss_pair sample_crypto (sample_key PublicKey n) (sample_key PrivateKey n)"
  by (auto simp: pss_pair_def sample_crypto_def sample_key_def good_key_def MIN_MODULUS_LENGTH_def)

lemma sample_pem_key [simp]: "pem_key sample_crypto (sample_key PublicKey n)"
proof -
  have "has_substring (js ''-----BEGIN PUBLIC KEY-----'' @ [c]) (js ''-----BEGIN PUBLIC KEY-----'')" for c
    by (simp add: js_def startsWith_def)
  moreover have "\<not> has_substring (js ''-----BEGIN PUBLIC KEY-----'' @ [c]) (js ''PRIVATE KEY'')" for c
    by (simp add: js_def unit_of_def startsWith_def)
  moreover have "(ucast (ucast n :: 16 word) :: 8 word) = n"
    by (rule bit_word_eqI) (simp add: bit_unsigned_iff)
  ultimately show ?thesis
    by (simp add: pem_key_def sample_crypto_def sample_pem_def sample_parse_def js_def)
      (simp_all add: sample_key_def)
qed

end
