(* ===== verification/HandshakeLaws.thy ===== *)
theory HandshakeLaws
  imports Handshake SampleCrypto
begin

text \<open>
  What the handshake functions promise. Completeness: with matching keys, a message one
  side creates is accepted by the other, which recovers the same session key. Soundness:
  what an accepted message proves. Agreement: if the peer's signing key has signed only
  what the peer created, an accepted message carries a session of the peer.
\<close>

section \<open>Canonical data of well-formed messages exist\<close>

definition clean_party :: "jsval \<Rightarrow> bool" where
  "clean_party v \<longleftrightarrow> isIdentityString v \<and> no_pem_text v \<and> well_formed (text_of v)"

lemma clean_party_identity: "clean_party v \<Longrightarrow> isIdentityString v \<and> no_pem_text v"
  by (simp add: clean_party_def)

lemma identity_string: "isIdentityString v \<Longrightarrow> is_string v \<and> text_of v \<noteq> [] \<and> length (text_of v) \<le> 64"
  by (auto simp: isIdentityString_def MAX_IDENTITY_LENGTH_def)

lemma field_bytes_identity: "isIdentityString v \<Longrightarrow> length (field_bytes v) < 2 ^ 32"
proof -
  assume "isIdentityString v"
  then have "is_string v" "length (text_of v) \<le> 64" using identity_string by simp_all
  then obtain s where v: "v = VStr s" "length s \<le> 64" by (cases v) auto
  have "byteLength s \<le> 3 * length s" using byteLength_bounds by blast
  with v show ?thesis by (simp add: byteLength_def)
qed

lemma session_id_ascii: "matches_session_id s \<Longrightarrow> ascii s"
  by (auto simp: matches_session_id_def ascii_def list_all_iff is_lower_hex_def is_digit_def
      word_le_nat_alt)

lemma field_bytes_session_id: "matches_session_id s \<Longrightarrow> length (field_bytes (VStr s)) = 32"
  using ascii_byteLength [of s] by (simp add: session_id_ascii byteLength_def matches_session_id_def)

lemma session_id_not_Nil: "matches_session_id s \<Longrightarrow> s \<noteq> []"
  by (auto simp: matches_session_id_def)

lemma concat_prefixed_not_Nil: "vs \<noteq> [] \<Longrightarrow> concat (map (\<lambda>v. prefixed (field_bytes v)) vs) \<noteq> []"
  by (cases vs) (auto simp: prefixed_def uint32_be_def)

lemma utf8_js_length: "list_all (\<lambda>c. of_char c < (128 :: nat)) s \<Longrightarrow> length (utf8_encode (js s)) = length s"
proof -
  assume "list_all (\<lambda>c. of_char c < (128 :: nat)) s"
  then have "ascii (js s)" by (induction s) (auto simp: js_def ascii_def)
  then show ?thesis using ascii_byteLength [of "js s"] by (simp add: byteLength_def)
qed

lemma version_field:
  "to_string PROTOCOL_VERSION = Inr (js ''1'')" "valid_version PROTOCOL_VERSION"
  by (simp_all add: PROTOCOL_VERSION_def num_one_string num_one_integer del: One_nat_def)

lemma canonicalize_exchange:
  assumes "isIdentityString s" "isIdentityString r" "matches_session_id sid"
    and "length ek < 2 ^ 32" "length fp < 2 ^ 32"
  shows "\<exists>bs. canonicalizeHandshake
    (exchange_fields PROTOCOL_VERSION (VStr KEY_EXCHANGE) s r (VStr sid) ek fp) = Inr bs \<and> bs \<noteq> []"
proof -
  let ?f = "exchange_fields PROTOCOL_VERSION (VStr KEY_EXCHANGE) s r (VStr sid) ek fp"
  have "canonical_args ?f"
    using assms(1-3) identity_string session_id_not_Nil
    by (auto simp: canonical_args_def exchange_fields_def version_field)
  moreover have "list_all (\<lambda>v. length (field_bytes v) < 2 ^ 32) (signed_fields ?f)"
    using assms field_bytes_identity field_bytes_session_id [of sid]
    by (simp add: signed_fields_def exchange_fields_def version_field SIGNATURE_LABEL_def utf8_js_length)
  moreover have "signed_fields ?f \<noteq> []" by (simp add: signed_fields_def)
  ultimately show ?thesis using concat_prefixed_not_Nil by (simp add: canonicalize_Inr_iff)
qed

lemma canonicalize_ack:
  assumes "isIdentityString s" "isIdentityString r" "matches_session_id sid"
  shows "\<exists>bs. canonicalizeHandshake
    (ack_fields PROTOCOL_VERSION (VStr KEY_EXCHANGE_ACK) s r (VStr sid)) = Inr bs \<and> bs \<noteq> []"
proof -
  let ?f = "ack_fields PROTOCOL_VERSION (VStr KEY_EXCHANGE_ACK) s r (VStr sid)"
  have "canonical_args ?f"
    using assms(1-3) identity_string session_id_not_Nil
    by (auto simp: canonical_args_def ack_fields_def version_field)
  moreover have "list_all (\<lambda>v. length (field_bytes v) < 2 ^ 32) (signed_fields ?f)"
    using assms field_bytes_identity field_bytes_session_id [of sid]
    by (simp add: signed_fields_def ack_fields_def version_field SIGNATURE_LABEL_def utf8_js_length)
  moreover have "signed_fields ?f \<noteq> []" by (simp add: signed_fields_def)
  ultimately show ?thesis using concat_prefixed_not_Nil by (simp add: canonicalize_Inr_iff)
qed

section \<open>Soundness of verification\<close>

text \<open>What an accepted KEY_EXCHANGE proves about the message.\<close>

definition exchange_verified ::
  "'r node_crypto \<Rightarrow> jsval \<Rightarrow> jsval \<Rightarrow> jsval \<Rightarrow> keyobj \<Rightarrow> keyobj \<Rightarrow> keyobj \<Rightarrow> bytes \<Rightarrow> bool" where
  "exchange_verified C msg s r sigpub encpub encpriv key \<longleftrightarrow>
     exchange_schema KEY_EXCHANGE msg \<and> field msg ''sender'' = s \<and> field msg ''recipient'' = r
     \<and> length key = 32
     \<and> (\<exists>d. canonicalizeHandshake (exchange_fields (field msg ''version'') (field msg ''type'') s r
              (field msg ''sessionId'') (base64_decode (text_of (field msg ''encryptedSessionKey'')))
              (nc_sha256 C (nc_export_spki_der C encpub))) = Inr d
          \<and> nc_verify C sigpub d (base64_decode (text_of (field msg ''signature''))) = Some True)
     \<and> nc_privateDecrypt C encpriv (base64_decode (text_of (field msg ''encryptedSessionKey''))) = Some key"

lemma requireWellFormed_Inr:
  "requireWellFormed C msg ty = Inr () \<longleftrightarrow>
    validateMessage C msg = Inr Valid \<and> field msg ''type'' = VStr ty"
  by (auto simp: requireWellFormed_def split: if_splits)

lemma requireParties_Inr:
  "requireParties msg s r = Inr () \<longleftrightarrow> field msg ''sender'' = s \<and> field msg ''recipient'' = r"
  by (simp add: requireParties_def)

lemma valid_not_not_object: "validateMessage C msg = Inr Valid \<Longrightarrow> \<not> not_object msg"
  by (auto simp: validateMessage_def Let_def)

lemma publicKeyFingerprint_Inr:
  "publicKeyFingerprint C (Some k) = Inr fp \<longleftrightarrow>
    good_key PublicKey k \<and> fp = nc_sha256 C (nc_export_spki_der C k)"
  by (auto simp: publicKeyFingerprint_def assertRsaPublicKey_def assertRsaKey_iff sha256_def)

lemma rsaDecrypt_Inr:
  "rsaDecrypt C (Some k) (VBytes c) = Inr p \<longleftrightarrow>
    good_key PrivateKey k \<and> nc_privateDecrypt C k c = Some p"
  by (auto simp: rsaDecrypt_def assertRsaPrivateKey_def assertRsaKey_iff split: option.splits)

text \<open>The checks of \<open>verifyKeyExchange\<close> in a row, before the key is looked at.\<close>

definition unwrap_exchange ::
  "'r node_crypto \<Rightarrow> jsval \<Rightarrow> jsval \<Rightarrow> jsval \<Rightarrow> jskey \<Rightarrow> jskey \<Rightarrow> jskey \<Rightarrow> js_error + bytes" where
  "unwrap_exchange C msg s r sigpub encpub encpriv =
     (let ek = base64_decode (text_of (field msg ''encryptedSessionKey'')) in
      try_bind (requireWellFormed C msg KEY_EXCHANGE) (\<lambda>_.
      try_bind (requireParties msg s r) (\<lambda>_.
      try_bind (publicKeyFingerprint C encpub) (\<lambda>fp.
      try_bind (canonicalizeHandshake (exchange_fields (field msg ''version'')
          (field msg ''type'') (field msg ''sender'') (field msg ''recipient'')
          (field msg ''sessionId'') ek fp)) (\<lambda>signedData.
      try_bind (verify C sigpub (VBytes signedData)
          (VBytes (base64_decode (text_of (field msg ''signature''))))) (\<lambda>ok.
      if \<not> ok then Inl (HandshakeError (js ''Invalid signature.''))
      else case rsaDecrypt C encpriv (VBytes ek) of
          Inl e \<Rightarrow> Inl (HandshakeError (js ''Unable to decrypt the session key.''))
        | Inr key \<Rightarrow> Inr key))))))"

lemma verifyKeyExchange_unwrap:
  "verifyKeyExchange C msg s r sigpub encpub encpriv w =
    (case unwrap_exchange C msg s r sigpub encpub encpriv of
       Inl e \<Rightarrow> (Inl e, w)
     | Inr key \<Rightarrow>
         if length key \<noteq> 32
         then (Inl (HandshakeError (js ''Session key has the wrong length.'')),
               w\<lparr>w_heap := w_heap w @ [replicate (length key) 0]\<rparr>)
         else (Inr (field msg ''sessionId'', length (w_heap w)), w\<lparr>w_heap := w_heap w @ [key]\<rparr>))"
  unfolding verifyKeyExchange_def unwrap_exchange_def Let_def alloc_def fill0_def SESSION_KEY_BYTES_def
  by (simp cong: sum.case_cong if_cong)

lemma unwrap_exchange_Inr:
  "unwrap_exchange C msg s r (Some sigpub) (Some encpub) (Some encpriv) = Inr key \<longleftrightarrow>
    validateMessage C msg = Inr Valid \<and> field msg ''type'' = VStr KEY_EXCHANGE
    \<and> field msg ''sender'' = s \<and> field msg ''recipient'' = r
    \<and> good_key PublicKey encpub \<and> good_key PublicKey sigpub \<and> good_key PrivateKey encpriv
    \<and> (\<exists>d. canonicalizeHandshake (exchange_fields (field msg ''version'') (field msg ''type'') s r
              (field msg ''sessionId'') (base64_decode (text_of (field msg ''encryptedSessionKey'')))
              (nc_sha256 C (nc_export_spki_der C encpub))) = Inr d \<and> d \<noteq> []
          \<and> base64_decode (text_of (field msg ''signature'')) \<noteq> []
          \<and> nc_verify C sigpub d (base64_decode (text_of (field msg ''signature''))) = Some True)
    \<and> nc_privateDecrypt C encpriv (base64_decode (text_of (field msg ''encryptedSessionKey''))) = Some key"
  (is "?l = ?r")
proof -
  have dec: "(case rsaDecrypt C (Some encpriv) (VBytes ek) of
        Inl e \<Rightarrow> Inl (HandshakeError x) | Inr key \<Rightarrow> Inr key) = Inr key \<longleftrightarrow>
      good_key PrivateKey encpriv \<and> nc_privateDecrypt C encpriv ek = Some key" for ek x
    using rsaDecrypt_Inr [of C encpriv ek] by (cases "rsaDecrypt C (Some encpriv) (VBytes ek)") auto
  have iff: "(\<exists>ok. X = Inr ok \<and> (if \<not> ok then Inl e else Y) = Inr key) \<longleftrightarrow> X = Inr True \<and> Y = Inr key"
    for X :: "js_error + bool" and Y :: "js_error + bytes" and e
    by auto
  show ?thesis
    unfolding unwrap_exchange_def Let_def try_bind_Inr_iff iff dec verify_Inr_True
      publicKeyFingerprint_Inr
    by (auto simp: requireWellFormed_Inr requireParties_Inr)
qed

lemma verifyKeyExchange_Inr:
  assumes "verifyKeyExchange C msg s r (Some sigpub) (Some encpub) (Some encpriv) w = (Inr (sid, a), w')"
  shows "exchange_verified C msg s r sigpub encpub encpriv (w_heap w' ! a)"
    and "sid = field msg ''sessionId''" and "a = length (w_heap w)"
    and "w' = w\<lparr>w_heap := w_heap w @ [w_heap w' ! a]\<rparr>"
proof -
  from assms obtain key where u: "unwrap_exchange C msg s r (Some sigpub) (Some encpub) (Some encpriv) = Inr key"
    and l: "length key = 32"
    and w: "sid = field msg ''sessionId''" "a = length (w_heap w)" "w' = w\<lparr>w_heap := w_heap w @ [key]\<rparr>"
    by (auto simp: verifyKeyExchange_unwrap split: sum.splits if_splits)
  from u have v: "validateMessage C msg = Inr Valid" "field msg ''type'' = VStr KEY_EXCHANGE"
    by (simp_all add: unwrap_exchange_Inr)
  then have "exchange_schema KEY_EXCHANGE msg"
    using validate_exchange_iff [of msg KEY_EXCHANGE C] valid_not_not_object [OF v(1)] by simp
  with u l w show "exchange_verified C msg s r sigpub encpub encpriv (w_heap w' ! a)"
    "sid = field msg ''sessionId''" "a = length (w_heap w)"
    "w' = w\<lparr>w_heap := w_heap w @ [w_heap w' ! a]\<rparr>"
    by (auto simp: exchange_verified_def unwrap_exchange_Inr)
qed

text \<open>The acknowledgement proves that the peer confirms this session ID.\<close>

definition ack_verified ::
  "'r node_crypto \<Rightarrow> jsval \<Rightarrow> jsval \<Rightarrow> jsval \<Rightarrow> jsval \<Rightarrow> keyobj \<Rightarrow> bool" where
  "ack_verified C msg s r sid sigpub \<longleftrightarrow>
     exchange_schema KEY_EXCHANGE_ACK msg \<and> field msg ''sender'' = s \<and> field msg ''recipient'' = r
     \<and> field msg ''sessionId'' = sid \<and> good_key PublicKey sigpub
     \<and> (\<exists>d. canonicalizeHandshake (ack_fields (field msg ''version'') (VStr KEY_EXCHANGE_ACK) s r sid) = Inr d
          \<and> nc_verify C sigpub d (base64_decode (text_of (field msg ''signature''))) = Some True)"

lemma canonicalize_not_Nil: "canonicalizeHandshake f = Inr d \<Longrightarrow> d \<noteq> []"
  by (auto simp: canonicalize_Inr_iff signed_fields_def prefixed_def uint32_be_def)

lemma schema_valid:
  "exchange_schema ty msg \<Longrightarrow> ty = KEY_EXCHANGE \<or> ty = KEY_EXCHANGE_ACK \<Longrightarrow>
    validateMessage C msg = Inr Valid \<and> field msg ''type'' = VStr ty"
  using validate_exchange_iff [of msg ty C]
  by (auto simp: exchange_schema_def handshake_envelope_def)

lemma valid_schema:
  "validateMessage C msg = Inr Valid \<Longrightarrow> field msg ''type'' = VStr ty \<Longrightarrow>
    ty = KEY_EXCHANGE \<or> ty = KEY_EXCHANGE_ACK \<Longrightarrow> exchange_schema ty msg"
  using validate_exchange_iff [of msg ty C] valid_not_not_object [of C msg] by blast

lemma schema_signature: "exchange_schema ty msg \<Longrightarrow> base64_decode (text_of (field msg ''signature'')) \<noteq> []"
  by (auto simp: exchange_schema_def base64_decode_encode)

lemma verifyKeyExchangeAck_Inr:
  "verifyKeyExchangeAck C msg s r sid (Some sigpub) = Inr () \<longleftrightarrow> ack_verified C msg s r sid sigpub"
  (is "?l \<longleftrightarrow> ?r")
proof -
  have "?l \<longleftrightarrow> validateMessage C msg = Inr Valid \<and> field msg ''type'' = VStr KEY_EXCHANGE_ACK
    \<and> field msg ''sender'' = s \<and> field msg ''recipient'' = r \<and> field msg ''sessionId'' = sid
    \<and> good_key PublicKey sigpub
    \<and> (\<exists>d. canonicalizeHandshake (ack_fields (field msg ''version'') (VStr KEY_EXCHANGE_ACK) s r sid) = Inr d
          \<and> d \<noteq> [] \<and> base64_decode (text_of (field msg ''signature'')) \<noteq> []
          \<and> nc_verify C sigpub d (base64_decode (text_of (field msg ''signature''))) = Some True)"
  proof -
    have iff: "(\<exists>ok. X = Inr ok \<and> (if \<not> ok then Inl e else Inr ()) = Inr ()) \<longleftrightarrow> X = Inr True"
      for X :: "js_error + bool" and e :: js_error
      by auto
    have if_iff: "(if c then Inl e else Y) = Inr () \<longleftrightarrow> \<not> c \<and> Y = Inr ()"
      for Y :: "js_error + unit" and e :: js_error and c
      by simp
    show ?thesis
      unfolding verifyKeyExchangeAck_def try_bind_Inr_iff if_iff [of "_ \<noteq> _"] iff verify_Inr_True
      by (auto simp: requireWellFormed_Inr requireParties_Inr)
  qed
  also have "\<dots> \<longleftrightarrow> ?r"
    using schema_valid [of KEY_EXCHANGE_ACK msg C] valid_schema [of C msg KEY_EXCHANGE_ACK]
    by (auto simp: ack_verified_def schema_signature canonicalize_not_Nil)
  finally show ?thesis .
qed

section \<open>Completeness\<close>

lemma schema_rsa_sizes: "good_key PublicKey k \<Longrightarrow> modulusLength k \<le> 8192 \<Longrightarrow>
    384 \<le> modulusLength k div 8 \<and> modulusLength k div 8 \<le> 1024"
  using good_key_modulus [of PublicKey k] by auto

lemma matches_generated_id: "length bs = 16 \<Longrightarrow> matches_session_id (hex_encode bs)"
  by (simp add: matches_session_id_def length_hex_encode hex_encode_lower)

text \<open>Everything a party needs to run the handshake with a peer.\<close>

definition module_ok :: "'r node_crypto \<Rightarrow> bool" where
  "module_ok C \<longleftrightarrow> random_ok C \<and> sha256_ok C"

definition parties_ok :: "jsval \<Rightarrow> jsval \<Rightarrow> bool" where
  "parties_ok s r \<longleftrightarrow> isIdentityString s \<and> isIdentityString r \<and> s \<noteq> r \<and> no_pem_text s \<and> no_pem_text r"

lemma random_length: "random_ok C \<Longrightarrow> nc_randomBytes C n r = (bs, r') \<Longrightarrow> length bs = n"
  by (metis fst_conv random_ok_def)

lemma createKeyExchange_accepted:
  assumes "module_ok C" "parties_ok s r"
    and enc: "oaep_pair C encpub encpriv" "modulusLength encpub \<le> 8192"
    and sig: "pss_pair C sigpub sigpriv" "modulusLength sigpub \<le> 8192"
  obtains msg sid key r' where
    "createKeyExchange C s r (Some sigpriv) (Some encpub) PROTOCOL_VERSION w =
       (Inr (msg, sid, length (w_heap w)), w\<lparr>w_entropy := r', w_heap := w_heap w @ [key]\<rparr>)"
    and "matches_session_id sid" and "length key = 32" and "exchange_schema KEY_EXCHANGE msg"
    and "\<And>v. verifyKeyExchange C msg s r (Some sigpub) (Some encpub) (Some encpriv) v =
       (Inr (VStr sid, length (w_heap v)), v\<lparr>w_heap := w_heap v @ [key]\<rparr>)"
proof -
  obtain key r1 where k: "nc_randomBytes C 32 (w_entropy w) = (key, r1)" by fastforce
  obtain ib r2 where ib: "nc_randomBytes C 16 r1 = (ib, r2)" by fastforce
  have len: "length key = 32" "length ib = 16"
    using assms(1) random_length [OF _ k] random_length [OF _ ib] by (simp_all add: module_ok_def)
  define sid where "sid = hex_encode ib"
  have sid: "matches_session_id sid" using len by (simp add: sid_def matches_generated_id)
  obtain ek r3 where ek: "rsaEncrypt C (Some encpub) (VBytes key) r2 = (Inr ek, r3)"
    "rsaDecrypt C (Some encpriv) (VBytes ek) = Inr key" "length ek = modulusLength encpub div 8"
  proof -
    have "key \<noteq> []" "length key \<le> 318" using len by auto
    with rsa_roundtrip [OF enc(1), of key r2] that show thesis by blast
  qed
  have good: "good_key PublicKey encpub" "good_key PublicKey sigpub"
    using enc(1) sig(1) by (simp_all add: oaep_pair_def pss_pair_def)
  define fp where "fp = nc_sha256 C (nc_export_spki_der C encpub)"
  have fp: "publicKeyFingerprint C (Some encpub) = Inr fp" "length fp = 32"
    using good assms(1) by (simp_all add: publicKeyFingerprint_Inr fp_def module_ok_def sha256_ok_def)
  let ?f = "exchange_fields PROTOCOL_VERSION (VStr KEY_EXCHANGE) s r (VStr sid) ek fp"
  obtain d where d: "canonicalizeHandshake ?f = Inr d" "d \<noteq> []"
    using canonicalize_exchange [of s r sid ek fp] assms(2) sid fp ek schema_rsa_sizes [OF good(1) enc(2)]
    by (auto simp: parties_ok_def)
  obtain sg r4 where sg: "sign C (Some sigpriv) (VBytes d) r3 = (Inr sg, r4)"
    "verify C (Some sigpub) (VBytes d) (VBytes sg) = Inr True" "length sg = modulusLength sigpub div 8"
    using sign_verify [OF sig(1) d(2), of r3] by auto
  let ?m = "createKeyExchangeMessage s r (VStr sid) (VStr (base64_encode ek))
    (VStr (base64_encode sg)) PROTOCOL_VERSION"
  have valid: "validateMessage C ?m = Inr Valid"
    using exchange_valid [of s r sid ek sg C] assms(2) sid ek(3) sg(3) schema_rsa_sizes good enc(2) sig(2)
    by (simp add: parties_ok_def)
  have fields: "field ?m ''type'' = VStr KEY_EXCHANGE" "field ?m ''version'' = PROTOCOL_VERSION"
    "field ?m ''sender'' = s" "field ?m ''recipient'' = r" "field ?m ''sessionId'' = VStr sid"
    "field ?m ''encryptedSessionKey'' = VStr (base64_encode ek)"
    "field ?m ''signature'' = VStr (base64_encode sg)"
    by (simp_all add: createKeyExchangeMessage_def)
  have u: "unwrap_exchange C ?m s r (Some sigpub) (Some encpub) (Some encpriv) = Inr key"
    by (simp add: unwrap_exchange_def Let_def requireWellFormed_def valid fields requireParties_def
        base64_decode_encode fp d sg ek)
  show thesis
  proof (rule that)
    show "createKeyExchange C s r (Some sigpriv) (Some encpub) PROTOCOL_VERSION w =
      (Inr (?m, sid, length (w_heap w)), w\<lparr>w_entropy := r4, w_heap := w_heap w @ [key]\<rparr>)"
      by (simp add: createKeyExchange_def generateSessionKey_def generateSessionId_def SESSION_KEY_BYTES_def
          SESSION_ID_BYTES_def k ib alloc_def ek sid_def [symmetric] fp d sg)
    show "verifyKeyExchange C ?m s r (Some sigpub) (Some encpub) (Some encpriv) v =
      (Inr (VStr sid, length (w_heap v)), v\<lparr>w_heap := w_heap v @ [key]\<rparr>)" for v
      by (simp add: verifyKeyExchange_unwrap u len fields)
    show "exchange_schema KEY_EXCHANGE ?m" using valid fields by (intro valid_schema) auto
  qed (use sid len in simp_all)
qed

lemma createKeyExchangeAck_accepted:
  assumes "parties_ok s r" "matches_session_id sid"
    and sig: "pss_pair C sigpub sigpriv" "modulusLength sigpub \<le> 8192"
  obtains msg r' where
    "createKeyExchangeAck C s r (VStr sid) (Some sigpriv) PROTOCOL_VERSION w = (Inr msg, w\<lparr>w_entropy := r'\<rparr>)"
    and "exchange_schema KEY_EXCHANGE_ACK msg"
    and "verifyKeyExchangeAck C msg s r (VStr sid) (Some sigpub) = Inr ()"
proof -
  let ?f = "ack_fields PROTOCOL_VERSION (VStr KEY_EXCHANGE_ACK) s r (VStr sid)"
  obtain d where d: "canonicalizeHandshake ?f = Inr d" "d \<noteq> []"
    using canonicalize_ack [of s r sid] assms(1,2) by (auto simp: parties_ok_def)
  obtain sg r4 where sg: "sign C (Some sigpriv) (VBytes d) (w_entropy w) = (Inr sg, r4)"
    "verify C (Some sigpub) (VBytes d) (VBytes sg) = Inr True" "length sg = modulusLength sigpub div 8"
    using sign_verify [OF sig(1) d(2), of "w_entropy w"] by auto
  have good: "good_key PublicKey sigpub" using sig(1) by (simp add: pss_pair_def)
  let ?m = "createKeyExchangeAckMessage s r (VStr sid) (VStr (base64_encode sg)) PROTOCOL_VERSION"
  have valid: "validateMessage C ?m = Inr Valid"
    using ack_valid [of s r sid sg C] assms(1,2) sg(3) schema_rsa_sizes [OF good sig(2)]
    by (simp add: parties_ok_def)
  have fields: "field ?m ''type'' = VStr KEY_EXCHANGE_ACK" "field ?m ''version'' = PROTOCOL_VERSION"
    "field ?m ''sender'' = s" "field ?m ''recipient'' = r" "field ?m ''sessionId'' = VStr sid"
    "field ?m ''signature'' = VStr (base64_encode sg)"
    by (simp_all add: createKeyExchangeAckMessage_def)
  show thesis
  proof (rule that)
    show "createKeyExchangeAck C s r (VStr sid) (Some sigpriv) PROTOCOL_VERSION w =
      (Inr ?m, w\<lparr>w_entropy := r4\<rparr>)"
      by (simp add: createKeyExchangeAck_def d sg)
    show "exchange_schema KEY_EXCHANGE_ACK ?m" using valid fields by (intro valid_schema) auto
    show "verifyKeyExchangeAck C ?m s r (VStr sid) (Some sigpub) = Inr ()"
      by (simp add: verifyKeyExchangeAck_def requireWellFormed_def valid fields requireParties_def
          base64_decode_encode d sg)
  qed
qed

section \<open>Properties\<close>

text \<open>
  What the holder of a signing key has signed: every signature that verifies is for the
  canonical bytes of some \<open>f\<close> with \<open>created f\<close>. This idealises unforgeability for one key.
\<close>

definition signs_only :: "'r node_crypto \<Rightarrow> keyobj \<Rightarrow> (canonical_fields \<Rightarrow> bool) \<Rightarrow> bool" where
  "signs_only C sigpub created \<longleftrightarrow>
     (\<forall>d s. nc_verify C sigpub d s = Some True \<longrightarrow>
        (\<exists>f. created f \<and> well_formed_texts f \<and> canonicalizeHandshake f = Inr d))"

lemma verified_created:
  assumes "signs_only C sigpub created" and "canonicalizeHandshake g = Inr d" and "well_formed_texts g"
    and "nc_verify C sigpub d sg = Some True"
  obtains f where "created f" "canonicalizeHandshake f = Inr d" "well_formed_texts f"
  using assms unfolding signs_only_def by blast

lemma same_bytes_fields:
  assumes "canonicalizeHandshake f = Inr d" and "canonicalizeHandshake g = Inr d"
    and "well_formed_texts f" and "well_formed_texts g"
  shows "cf_type f = cf_type g" "cf_sender f = cf_sender g" "cf_recipient f = cf_recipient g"
    "cf_sessionId f = cf_sessionId g" "cf_encryptedSessionKey f = cf_encryptedSessionKey g"
    "cf_recipientEncryptionKeyFingerprint f = cf_recipientEncryptionKeyFingerprint g"
  using signed_fields_eqD [OF _ _ canonicalize_same_signed [OF assms]] assms(1,2)
  by (simp_all add: canonicalize_Inr_iff)

lemma session_id_field_ok:
  "exchange_schema ty msg \<Longrightarrow> well_formed (text_of (field msg ''sessionId''))"
  by (auto simp: exchange_schema_def ascii_well_formed session_id_ascii)

text \<open>
  Property C12: agreement on the session. If the peer's signing key has only signed what the
  peer created, a KEY_EXCHANGE that \<open>verifyKeyExchange\<close> accepts carries the type, the sender,
  the recipient, the session ID, the ciphertext and the recipient-key fingerprint of one
  exchange the peer created: it was made for this recipient and this recipient's encryption
  key, it is not a relabelled acknowledgement, and the accepted key is what its ciphertext
  decrypts to.
\<close>

theorem exchange_agreement:
  assumes "verifyKeyExchange C msg s r (Some sigpub) (Some encpub) (Some encpriv) w = (Inr (sid, a), w')"
    and "signs_only C sigpub created" and "well_formed (text_of s)" and "well_formed (text_of r)"
  shows "\<exists>f ek. created f \<and> cf_type f = VStr KEY_EXCHANGE \<and> cf_sender f = s \<and> cf_recipient f = r
    \<and> cf_sessionId f = sid \<and> cf_encryptedSessionKey f = VBytes ek
    \<and> cf_recipientEncryptionKeyFingerprint f = VBytes (nc_sha256 C (nc_export_spki_der C encpub))
    \<and> nc_privateDecrypt C encpriv ek = Some (w_heap w' ! a)"
proof -
  note acc = verifyKeyExchange_Inr [OF assms(1)]
  let ?ek = "base64_decode (text_of (field msg ''encryptedSessionKey''))"
  let ?g = "exchange_fields (field msg ''version'') (field msg ''type'') s r sid ?ek
    (nc_sha256 C (nc_export_spki_der C encpub))"
  from acc(1,2) obtain d where d: "canonicalizeHandshake ?g = Inr d"
    "nc_verify C sigpub d (base64_decode (text_of (field msg ''signature''))) = Some True"
    and schema: "exchange_schema KEY_EXCHANGE msg"
    and key: "nc_privateDecrypt C encpriv ?ek = Some (w_heap w' ! a)"
    by (auto simp: exchange_verified_def)
  have wf: "well_formed_texts ?g"
    using assms(3,4) session_id_field_ok [OF schema] acc(2)
    by (simp add: well_formed_texts_def exchange_fields_def)
  obtain f where f: "created f" "canonicalizeHandshake f = Inr d" "well_formed_texts f"
    using verified_created [OF assms(2) d(1) wf d(2)] by blast
  have ty: "field msg ''type'' = VStr KEY_EXCHANGE"
    using schema by (simp add: exchange_schema_def handshake_envelope_def)
  show ?thesis
    using same_bytes_fields [OF f(2) d(1) f(3) wf] f(1) key ty
    by (auto simp: exchange_fields_def)
qed

text \<open>
  Property C13: the same for the acknowledgement. The initiator accepts only an
  acknowledgement that the peer created for this sender, this recipient and the session ID
  the initiator started; an exchange of the peer never passes for one.
\<close>

theorem ack_agreement:
  assumes "verifyKeyExchangeAck C msg s r sid (Some sigpub) = Inr ()"
    and "signs_only C sigpub created" and "well_formed (text_of s)" and "well_formed (text_of r)"
  shows "\<exists>f. created f \<and> cf_type f = VStr KEY_EXCHANGE_ACK \<and> cf_sender f = s \<and> cf_recipient f = r
    \<and> cf_sessionId f = sid"
proof -
  let ?g = "ack_fields (field msg ''version'') (VStr KEY_EXCHANGE_ACK) s r sid"
  from assms(1) have "ack_verified C msg s r sid sigpub" by (simp add: verifyKeyExchangeAck_Inr)
  then obtain d where d: "canonicalizeHandshake ?g = Inr d"
    "nc_verify C sigpub d (base64_decode (text_of (field msg ''signature''))) = Some True"
    and schema: "exchange_schema KEY_EXCHANGE_ACK msg" and sid: "field msg ''sessionId'' = sid"
    by (auto simp: ack_verified_def)
  have wf: "well_formed_texts ?g"
    using assms(3,4) session_id_field_ok [OF schema] sid
    by (simp add: well_formed_texts_def ack_fields_def)
  obtain f where f: "created f" "canonicalizeHandshake f = Inr d" "well_formed_texts f"
    using verified_created [OF assms(2) d(1) wf d(2)] by blast
  then show ?thesis
    using same_bytes_fields [OF f(2) d(1) f(3) wf] by (auto simp: ack_fields_def)
qed

text \<open>
  A rejected KEY_EXCHANGE leaves no key material behind. Whatever the message,
  when \<open>verifyKeyExchange\<close> throws, the randomness and every existing buffer are as before, and
  every buffer it allocated is filled with zeros.
\<close>

lemma verifyKeyExchange_failure_clean:
  assumes "verifyKeyExchange C msg s r sigpub encpub encpriv w = (Inl e, w')"
  shows "w_entropy w' = w_entropy w \<and> take (length (w_heap w)) (w_heap w') = w_heap w
    \<and> (\<forall>a. length (w_heap w) \<le> a \<longrightarrow> a < length (w_heap w') \<longrightarrow> zeroed w' a)"
  using assms
  by (auto simp: verifyKeyExchange_unwrap zeroed_def nth_append split: sum.splits if_splits)

section \<open>Witnesses\<close>

definition client_A :: jsval where "client_A = VStr (js ''Client A'')"
definition client_B :: jsval where "client_B = VStr (js ''Client B'')"

lemma client_names:
  "parties_ok client_A client_B" "parties_ok client_B client_A" "client_A \<noteq> client_B"
  "well_formed (text_of client_A)" "well_formed (text_of client_B)"
proof -
  have "\<not> has_substring (js ''Client '' @ [c]) (js ''PRIVATE KEY'')" for c
    by (simp add: js_def unit_of_def startsWith_def)
  from this [of 65] this [of 66]
  have "no_pem_text client_A" "no_pem_text client_B"
    by (simp_all add: client_A_def client_B_def no_pem_text_def js_def unit_of_def)
  moreover show "client_A \<noteq> client_B"
    "well_formed (text_of client_A)" "well_formed (text_of client_B)"
    by (simp_all add: client_A_def client_B_def ascii_well_formed ascii_js)
  ultimately show "parties_ok client_A client_B" "parties_ok client_B client_A"
    by (simp_all add: parties_ok_def client_A_def client_B_def isIdentityString_def
        MAX_IDENTITY_LENGTH_def trim_eq_Nil_iff js_def unit_of_def is_js_space_def)
qed

definition keyA :: "key_kind \<Rightarrow> keyobj" where "keyA ty = sample_key ty 1"
definition keyB :: "key_kind \<Rightarrow> keyobj" where "keyB ty = sample_key ty 2"

text \<open>A verified exchange from A to B and the acknowledgement, with the sample module.\<close>

lemma sample_pairs [simp]:
  "module_ok sample_crypto"
  "oaep_pair sample_crypto (keyA PublicKey) (keyA PrivateKey)"
  "oaep_pair sample_crypto (keyB PublicKey) (keyB PrivateKey)"
  "pss_pair sample_crypto (keyA PublicKey) (keyA PrivateKey)"
  "pss_pair sample_crypto (keyB PublicKey) (keyB PrivateKey)"
  "modulusLength (keyA ty) = 3072" "modulusLength (keyB ty) = 3072"
  "good_key ty (keyA ty)" "good_key ty (keyB ty)"
  by (simp_all add: module_ok_def keyA_def keyB_def)

lemma sample_exchange:
  obtains msg key where "exchange_verified sample_crypto msg client_A client_B (keyA PublicKey)
    (keyB PublicKey) (keyB PrivateKey) key"
proof (rule createKeyExchange_accepted [OF sample_pairs(1) client_names(1) sample_pairs(3) _ sample_pairs(4),
      where w = "\<lparr>w_entropy = 0, w_heap = []\<rparr>"])
  show "modulusLength (keyB PublicKey) \<le> 8192" "modulusLength (keyA PublicKey) \<le> 8192" by simp_all
  fix msg sid key
  assume "\<And>v. verifyKeyExchange sample_crypto msg client_A client_B (Some (keyA PublicKey))
      (Some (keyB PublicKey)) (Some (keyB PrivateKey)) v =
    (Inr (VStr sid, length (w_heap v)), v\<lparr>w_heap := w_heap v @ [key]\<rparr>)"
  from that [OF verifyKeyExchange_Inr(1) [OF this]] show thesis .
qed

lemma unwrap_verified:
  assumes "exchange_verified sample_crypto msg s r sigpub encpub encpriv key"
    and "nc_sha256 C = nc_sha256 sample_crypto" "nc_export_spki_der C = nc_export_spki_der sample_crypto"
    and "good_key PublicKey sigpub" "good_key PublicKey encpub" "good_key PrivateKey encpriv"
    and "\<And>c. nc_privateDecrypt C encpriv c = Some key'"
    and "\<And>f d sg. cf_sender f = s \<Longrightarrow> canonicalizeHandshake f = Inr d \<Longrightarrow>
      well_formed (text_of (cf_sessionId f)) \<Longrightarrow> cf_recipient f = r \<Longrightarrow> nc_verify C sigpub d sg = Some True"
  shows "unwrap_exchange C msg s r (Some sigpub) (Some encpub) (Some encpriv) = Inr key'"
proof -
  let ?g = "exchange_fields (field msg ''version'') (field msg ''type'') s r (field msg ''sessionId'')
    (base64_decode (text_of (field msg ''encryptedSessionKey''))) (nc_sha256 C (nc_export_spki_der C encpub))"
  from assms(1-3) obtain d where d: "canonicalizeHandshake ?g = Inr d"
    and schema: "exchange_schema KEY_EXCHANGE msg" and parties: "field msg ''sender'' = s" "field msg ''recipient'' = r"
    by (auto simp: exchange_verified_def)
  have "nc_verify C sigpub d sg = Some True" for sg
    by (rule assms(8) [OF _ d]) (simp_all add: exchange_fields_def session_id_field_ok [OF schema])
  with d parties assms(4-7) schema_valid [OF schema, of C] schema_signature [OF schema]
  show ?thesis by (simp add: unwrap_exchange_Inr canonicalize_not_Nil)
qed

text \<open>A module whose signatures verify only for what A sent.\<close>

definition sent_by_A :: "canonical_fields \<Rightarrow> bool" where
  "sent_by_A f \<longleftrightarrow> cf_sender f = client_A"

definition strict_crypto :: "nat node_crypto" where
  "strict_crypto = sample_crypto\<lparr>nc_privateDecrypt := \<lambda>k c. Some (replicate 32 7),
     nc_verify := \<lambda>k d s. Some (\<exists>f. sent_by_A f \<and> well_formed_texts f \<and> canonicalizeHandshake f = Inr d)\<rparr>"

lemma strict_signs_only: "signs_only strict_crypto k sent_by_A"
  by (auto simp: signs_only_def strict_crypto_def)

lemma strict_verifies:
  "cf_sender f = client_A \<Longrightarrow> canonicalizeHandshake f = Inr d \<Longrightarrow> well_formed (text_of (cf_sessionId f)) \<Longrightarrow>
    cf_recipient f = client_B \<Longrightarrow> nc_verify strict_crypto k d sg = Some True"
  by (auto simp: strict_crypto_def sent_by_A_def well_formed_texts_def client_names intro!: exI [of _ f])

lemma strict_exchange:
  obtains msg where "unwrap_exchange strict_crypto msg client_A client_B (Some (keyA PublicKey))
    (Some (keyB PublicKey)) (Some (keyB PrivateKey)) = Inr (replicate 32 7)"
proof -
  obtain msg key where "exchange_verified sample_crypto msg client_A client_B (keyA PublicKey)
    (keyB PublicKey) (keyB PrivateKey) key"
    by (rule sample_exchange)
  from that [OF unwrap_verified [OF this _ _ _ _ _ _ strict_verifies]] show thesis
    by (simp add: strict_crypto_def)
qed

theorem exchange_agreement_witness:
  "\<exists>f ek. sent_by_A f \<and> cf_type f = VStr KEY_EXCHANGE \<and> cf_sender f = client_A \<and> cf_recipient f = client_B
    \<and> cf_encryptedSessionKey f = VBytes ek"
proof -
  let ?w = "\<lparr>w_entropy = 0, w_heap = []\<rparr> :: nat world"
  obtain msg where "unwrap_exchange strict_crypto msg client_A client_B (Some (keyA PublicKey))
    (Some (keyB PublicKey)) (Some (keyB PrivateKey)) = Inr (replicate 32 7)"
    by (rule strict_exchange)
  then have "verifyKeyExchange strict_crypto msg client_A client_B (Some (keyA PublicKey))
      (Some (keyB PublicKey)) (Some (keyB PrivateKey)) ?w =
    (Inr (field msg ''sessionId'', 0), ?w\<lparr>w_heap := [replicate 32 7]\<rparr>)"
    by (simp add: verifyKeyExchange_unwrap)
  from exchange_agreement [OF this strict_signs_only client_names(4,5)]
  show ?thesis by blast
qed

text \<open>A module that decrypts every ciphertext to a key that is too short.\<close>

definition short_crypto :: "nat node_crypto" where
  "short_crypto = sample_crypto\<lparr>nc_privateDecrypt := \<lambda>k c. Some [7, 7], nc_verify := \<lambda>k d s. Some True\<rparr>"

theorem verifyKeyExchange_failure_clean_witness:
  "\<exists>msg w'. verifyKeyExchange short_crypto msg client_A client_B (Some (keyA PublicKey))
      (Some (keyB PublicKey)) (Some (keyB PrivateKey)) \<lparr>w_entropy = 0, w_heap = []\<rparr> =
      (Inl (HandshakeError (js ''Session key has the wrong length.'')), w')
    \<and> length (w_heap w') = 1 \<and> zeroed w' 0"
proof -
  let ?w = "\<lparr>w_entropy = 0, w_heap = []\<rparr> :: nat world"
  obtain msg key where "exchange_verified sample_crypto msg client_A client_B (keyA PublicKey)
    (keyB PublicKey) (keyB PrivateKey) key"
    by (rule sample_exchange)
  then have "unwrap_exchange short_crypto msg client_A client_B (Some (keyA PublicKey))
    (Some (keyB PublicKey)) (Some (keyB PrivateKey)) = Inr [7, 7]"
    by (rule unwrap_verified) (simp_all add: short_crypto_def)
  then have run: "verifyKeyExchange short_crypto msg client_A client_B (Some (keyA PublicKey))
      (Some (keyB PublicKey)) (Some (keyB PrivateKey)) ?w =
    (Inl (HandshakeError (js ''Session key has the wrong length.'')), ?w\<lparr>w_heap := [[0, 0]]\<rparr>)"
    by (simp add: verifyKeyExchange_unwrap numeral_2_eq_2)
  from verifyKeyExchange_failure_clean [OF this] have "zeroed (?w\<lparr>w_heap := [[0, 0]]\<rparr>) 0" by simp
  with run show ?thesis by fastforce
qed

lemma strict_ack:
  obtains msg where "verifyKeyExchangeAck strict_crypto msg client_A client_B (VStr (hex_encode (replicate 16 1)))
    (Some (keyA PublicKey)) = Inr ()"
proof (rule createKeyExchangeAck_accepted [OF client_names(1) matches_generated_id sample_pairs(4),
      where w = "\<lparr>w_entropy = 0, w_heap = []\<rparr>"])
  let ?sid = "hex_encode (replicate 16 1)"
  show "length (replicate 16 (1 :: 8 word)) = 16" "modulusLength (keyA PublicKey) \<le> 8192" by simp_all
  fix msg
  assume "verifyKeyExchangeAck sample_crypto msg client_A client_B (VStr ?sid) (Some (keyA PublicKey)) = Inr ()"
  then have ack: "ack_verified sample_crypto msg client_A client_B (VStr ?sid) (keyA PublicKey)"
    by (simp add: verifyKeyExchangeAck_Inr)
  then obtain d where d: "canonicalizeHandshake (ack_fields (field msg ''version'') (VStr KEY_EXCHANGE_ACK)
      client_A client_B (VStr ?sid)) = Inr d"
    by (auto simp: ack_verified_def)
  have "well_formed ?sid" by (simp add: ascii_well_formed session_id_ascii matches_generated_id)
  then have "nc_verify strict_crypto (keyA PublicKey) d sg = Some True" for sg
    by (intro strict_verifies [OF _ d]) (simp_all add: ack_fields_def)
  with ack d have "ack_verified strict_crypto msg client_A client_B (VStr ?sid) (keyA PublicKey)"
    by (simp add: ack_verified_def)
  then show thesis by (intro that) (simp add: verifyKeyExchangeAck_Inr)
qed

theorem ack_agreement_witness:
  "\<exists>f. sent_by_A f \<and> cf_type f = VStr KEY_EXCHANGE_ACK \<and> cf_sessionId f = VStr (hex_encode (replicate 16 1))"
proof -
  obtain msg where "verifyKeyExchangeAck strict_crypto msg client_A client_B
    (VStr (hex_encode (replicate 16 1))) (Some (keyA PublicKey)) = Inr ()"
    by (rule strict_ack)
  from ack_agreement [OF this strict_signs_only client_names(4,5)] show ?thesis by blast
qed

end
