(* ===== verification/PeerSession.thy ===== *)
theory PeerSession
  imports HandshakeLaws
begin

text \<open>
  \<open>src/security/peer-session.js\<close>: the class \<open>PeerSession\<close>, a client's state machine for the
  handshake with its peer. The private fields are the record \<open>peer_session\<close>; a method is a
  function of the session and the world (where the session key's buffer lives) and returns
  what it returns or throws with both afterwards. \<open>null\<close> is \<open>None\<close>, or \<open>VNull\<close> for the
  session ID.
\<close>

section \<open>State\<close>

datatype session_state = NO_SESSION | HELLO_EXCHANGED | KEY_SENT | KEY_RECEIVED | ESTABLISHED | FAILED

fun state_name :: "session_state \<Rightarrow> jsstring" where
  "state_name NO_SESSION = js ''NO_SESSION''"
| "state_name HELLO_EXCHANGED = js ''HELLO_EXCHANGED''"
| "state_name KEY_SENT = js ''KEY_SENT''"
| "state_name KEY_RECEIVED = js ''KEY_RECEIVED''"
| "state_name ESTABLISHED = js ''ESTABLISHED''"
| "state_name FAILED = js ''FAILED''"

definition INITIATOR_ID :: jsstring where "INITIATOR_ID = js ''Client A''"

text \<open>\<open>PEER_OF[selfId]\<close>: an object literal, so inherited names are found as well.\<close>

definition PEER_OF :: "jsstring \<Rightarrow> jsval" where
  "PEER_OF selfId =
     table_lookup [(js ''Client A'', VStr (js ''Client B'')), (js ''Client B'', VStr (js ''Client A''))] selfId"

record peer_session =
  ps_selfId :: jsstring
  ps_peerId :: jsval
  ps_identity :: identity
  ps_state :: session_state
  ps_helloSent :: bool
  ps_sessionId :: jsval
  ps_sessionKey :: "nat option"
  ps_peerEncryptionPublicKey :: jskey
  ps_peerSigningPublicKey :: jskey

record outcome =
  oc_outgoing :: "jsval list"
  oc_event :: "jsstring option"
  oc_error :: "jsstring option"

text \<open>What a method returns or throws, the session and the world.\<close>

type_synonym ('r, 'a) session_result = "(js_error + 'a) \<times> peer_session \<times> 'r world"

section \<open>Private methods\<close>

definition ps_reset :: "peer_session \<Rightarrow> 'r world \<Rightarrow> peer_session \<times> 'r world" where
  "ps_reset s w =
     (s\<lparr>ps_state := NO_SESSION, ps_helloSent := False, ps_sessionId := VNull, ps_sessionKey := None,
        ps_peerEncryptionPublicKey := None, ps_peerSigningPublicKey := None\<rparr>,
      case ps_sessionKey s of Some a \<Rightarrow> fill0 a w | None \<Rightarrow> w)"

definition ownHelloOnce :: "'r node_crypto \<Rightarrow> peer_session \<Rightarrow> (js_error + jsval list) \<times> peer_session" where
  "ownHelloOnce C s =
     (if ps_helloSent s then (Inr [], s)
      else
        (try_bind (exportPublicKeys C (ps_identity s)) (\<lambda>(enc, sig).
           Inr [createHelloMessage (VStr (ps_selfId s)) (VStr enc) (VStr sig) PROTOCOL_VERSION]),
         s\<lparr>ps_helloSent := True\<rparr>))"

text \<open>\<open>x || null\<close> of a string or \<open>null\<close>: the empty string is falsy.\<close>

fun or_null :: "jsstring option \<Rightarrow> jsstring option" where
  "or_null (Some (u # us)) = Some (u # us)"
| "or_null _ = None"

definition ps_result :: "jsval list \<Rightarrow> jsstring option \<Rightarrow> jsstring option \<Rightarrow> outcome" where
  "ps_result outgoing event err =
     \<lparr>oc_outgoing = outgoing, oc_event = or_null event, oc_error = or_null err\<rparr>"

definition ps_reject :: "jsstring \<Rightarrow> outcome" where
  "ps_reject reason = ps_result [] None (Some reason)"

definition ps_fail :: "js_error \<Rightarrow> peer_session \<Rightarrow> 'r world \<Rightarrow> ('r, outcome) session_result" where
  "ps_fail err s w =
     (Inr (ps_reject (case err of HandshakeError m \<Rightarrow> m | _ \<Rightarrow> js ''Handshake failed.'')),
      s\<lparr>ps_sessionKey := None, ps_state := FAILED\<rparr>,
      case ps_sessionKey s of Some a \<Rightarrow> fill0 a w | None \<Rightarrow> w)"

section \<open>Public methods\<close>

text \<open>The constructor. Its reset has no session key to overwrite.\<close>

definition new_PeerSession :: "jsstring \<Rightarrow> identity \<Rightarrow> js_error + peer_session" where
  "new_PeerSession selfId i =
     (if \<not> truthy (PEER_OF selfId)
      then Inl (TypeError (js ''selfId must be '' @ quoted (js ''Client A'') @ js '' or '' @ quoted (js ''Client B'') @ js ''.''))
      else Inr \<lparr>ps_selfId = selfId, ps_peerId = PEER_OF selfId, ps_identity = i,
             ps_state = NO_SESSION, ps_helloSent = False, ps_sessionId = VNull, ps_sessionKey = None,
             ps_peerEncryptionPublicKey = None, ps_peerSigningPublicKey = None\<rparr>)"

text \<open>The getter \<open>sessionKey\<close>: the buffer, as its address.\<close>

definition sessionKey :: "peer_session \<Rightarrow> nat option" where
  "sessionKey s = (if ps_state s = ESTABLISHED then ps_sessionKey s else None)"

definition ps_sessionKeyFingerprint :: "'r node_crypto \<Rightarrow> peer_session \<Rightarrow> 'r world \<Rightarrow> js_error + jsstring option" where
  "ps_sessionKeyFingerprint C s w =
     (case sessionKey s of
        None \<Rightarrow> Inr None
      | Some a \<Rightarrow> try_bind (sessionKeyFingerprint C (VBytes (w_heap w ! a))) (\<lambda>f. Inr (Some f)))"

definition onPeerJoined :: "'r node_crypto \<Rightarrow> peer_session \<Rightarrow> 'r world \<Rightarrow> ('r, outcome) session_result" where
  "onPeerJoined C s w =
     (let (hello, s') = ownHelloOnce C s
      in (try_bind hello (\<lambda>ms. Inr (ps_result ms None None)), s', w))"

definition onPeerLeft :: "peer_session \<Rightarrow> 'r world \<Rightarrow> peer_session \<times> 'r world" where
  "onPeerLeft s w = ps_reset s w"

definition onHello :: "'r node_crypto \<Rightarrow> jsval \<Rightarrow> peer_session \<Rightarrow> 'r world \<Rightarrow> ('r, outcome) session_result" where
  "onHello C msg s w =
     (if field msg ''sender'' \<noteq> ps_peerId s
      then (Inr (ps_reject (js ''HELLO sender is not the expected peer.'')), s, w)
      else if ps_state s \<noteq> NO_SESSION
      then (Inr (ps_reject (js ''Unexpected HELLO: a handshake is already in progress or established.'')), s, w)
      else
        case importPublicKey C (field msg ''encryptionPublicKey'') of
          Inl e \<Rightarrow> (Inl e, s, w)
        | Inr enc \<Rightarrow>
        let s1 = s\<lparr>ps_peerEncryptionPublicKey := Some enc\<rparr> in
        case importPublicKey C (field msg ''signingPublicKey'') of
          Inl e \<Rightarrow> (Inl e, s1, w)
        | Inr sig \<Rightarrow>
        let s2 = s1\<lparr>ps_peerSigningPublicKey := Some sig, ps_state := HELLO_EXCHANGED\<rparr> in
        case ownHelloOnce C s2 of
          (Inl e, s3) \<Rightarrow> (Inl e, s3, w)
        | (Inr outgoing, s3) \<Rightarrow>
        if ps_selfId s3 \<noteq> INITIATOR_ID
        then (Inr (ps_result outgoing (Some (js ''PEER_KEYS_RECEIVED'')) None), s3, w)
        else
          case createKeyExchange C (VStr (ps_selfId s3)) (ps_peerId s3)
              (Some (kp_private (id_signing (ps_identity s3)))) (ps_peerEncryptionPublicKey s3)
              PROTOCOL_VERSION w of
            (Inl e, w') \<Rightarrow> ps_fail e s3 w'
          | (Inr (message, sid, key), w') \<Rightarrow>
              (Inr (ps_result (outgoing @ [message]) (Some (js ''KEY_EXCHANGE_SENT'')) None),
               s3\<lparr>ps_sessionId := VStr sid, ps_sessionKey := Some key, ps_state := KEY_SENT\<rparr>, w'))"

definition onKeyExchange :: "'r node_crypto \<Rightarrow> jsval \<Rightarrow> peer_session \<Rightarrow> 'r world \<Rightarrow> ('r, outcome) session_result" where
  "onKeyExchange C msg s w =
     (if ps_selfId s = INITIATOR_ID
      then (Inr (ps_reject (js ''Only the responder accepts KEY_EXCHANGE.'')), s, w)
      else if ps_state s = ESTABLISHED
      then (Inr (ps_reject (js ''Session already established; duplicate KEY_EXCHANGE ignored.'')), s, w)
      else if ps_state s \<noteq> HELLO_EXCHANGED
      then (Inr (ps_reject (js ''KEY_EXCHANGE is not acceptable in state '' @ state_name (ps_state s) @ js ''.'')), s, w)
      else
        let s1 = s\<lparr>ps_state := KEY_RECEIVED\<rparr> in
        case verifyKeyExchange C msg (ps_peerId s) (VStr (ps_selfId s)) (ps_peerSigningPublicKey s)
            (Some (kp_public (id_encryption (ps_identity s))))
            (Some (kp_private (id_encryption (ps_identity s)))) w of
          (Inl e, w') \<Rightarrow> ps_fail e s1 w'
        | (Inr (sid, key), w') \<Rightarrow>
            (case createKeyExchangeAck C (VStr (ps_selfId s)) (ps_peerId s) sid
                (Some (kp_private (id_signing (ps_identity s)))) PROTOCOL_VERSION w' of
               (Inl e, w'') \<Rightarrow> ps_fail e s1 w''
             | (Inr ack, w'') \<Rightarrow>
                 (Inr (ps_result [ack] (Some (js ''ESTABLISHED'')) None),
                  s1\<lparr>ps_sessionId := sid, ps_sessionKey := Some key, ps_state := ESTABLISHED\<rparr>, w'')))"

definition onKeyExchangeAck :: "'r node_crypto \<Rightarrow> jsval \<Rightarrow> peer_session \<Rightarrow> 'r world \<Rightarrow> ('r, outcome) session_result" where
  "onKeyExchangeAck C msg s w =
     (if ps_selfId s \<noteq> INITIATOR_ID
      then (Inr (ps_reject (js ''Only the initiator accepts KEY_EXCHANGE_ACK.'')), s, w)
      else if ps_state s = ESTABLISHED
      then (Inr (ps_reject (js ''Session already established; duplicate KEY_EXCHANGE_ACK ignored.'')), s, w)
      else if ps_state s \<noteq> KEY_SENT
      then (Inr (ps_reject (js ''KEY_EXCHANGE_ACK is not acceptable in state '' @ state_name (ps_state s) @ js ''.'')), s, w)
      else
        case verifyKeyExchangeAck C msg (ps_peerId s) (VStr (ps_selfId s)) (ps_sessionId s)
            (ps_peerSigningPublicKey s) of
          Inl e \<Rightarrow> ps_fail e s w
        | Inr _ \<Rightarrow> (Inr (ps_result [] (Some (js ''ESTABLISHED'')) None), s\<lparr>ps_state := ESTABLISHED\<rparr>, w))"

definition handleMessage :: "'r node_crypto \<Rightarrow> jsval \<Rightarrow> peer_session \<Rightarrow> 'r world \<Rightarrow> ('r, outcome) session_result" where
  "handleMessage C msg s w =
     (case validateMessage C msg of
        Inl e \<Rightarrow> (Inl e, s, w)
      | Inr (Invalid reason) \<Rightarrow> (Inr (ps_reject reason), s, w)
      | Inr Valid \<Rightarrow>
          let ty = text_of (field msg ''type'') in
          if ty = HELLO then onHello C msg s w
          else if ty = KEY_EXCHANGE then onKeyExchange C msg s w
          else if ty = KEY_EXCHANGE_ACK then onKeyExchangeAck C msg s w
          else (Inr (ps_reject (js ''Unexpected '' @ ty @ js '' message during the handshake.'')), s, w))"

end
