(* ===== verification/SessionLaws.thy ===== *)
theory SessionLaws
  imports PeerSession
begin

text \<open>
  What \<open>PeerSession\<close> promises: the invariant every event keeps, and the abstract session it
  implements, a relation on phases with six kinds of moves. \<open>session_step\<close> drives the class
  by events, and its interpretation as a \<open>machine\<close> carries the invariant over every history.
\<close>

section \<open>Events\<close>

datatype session_event = PeerJoined | PeerLeft | Received jsval

fun session_step :: "'r node_crypto \<Rightarrow> session_event \<Rightarrow> peer_session \<times> 'r world \<Rightarrow> peer_session \<times> 'r world" where
  "session_step C PeerJoined (s, w) = snd (onPeerJoined C s w)"
| "session_step C PeerLeft (s, w) = onPeerLeft s w"
| "session_step C (Received msg) (s, w) = snd (handleMessage C msg s w)"

section \<open>The invariant\<close>

definition identity_ok :: "identity \<Rightarrow> bool" where
  "identity_ok i \<longleftrightarrow>
     good_key PublicKey (kp_public (id_encryption i)) \<and> good_key PrivateKey (kp_private (id_encryption i))
     \<and> good_key PublicKey (kp_public (id_signing i)) \<and> good_key PrivateKey (kp_private (id_signing i))"

definition has_peer_keys :: "peer_session \<Rightarrow> bool" where
  "has_peer_keys s \<longleftrightarrow>
     (\<exists>enc sig. ps_peerEncryptionPublicKey s = Some enc \<and> ps_peerSigningPublicKey s = Some sig
        \<and> good_key PublicKey enc \<and> good_key PublicKey sig \<and> enc \<noteq> sig)"

text \<open>A live key: its buffer exists and holds 32 bytes, and the session has an ID.\<close>

definition live_key :: "peer_session \<Rightarrow> 'r world \<Rightarrow> bool" where
  "live_key s w \<longleftrightarrow>
     (\<exists>a. ps_sessionKey s = Some a \<and> a < length (w_heap w) \<and> length (w_heap w ! a) = 32)
     \<and> (\<exists>sid. ps_sessionId s = VStr sid \<and> matches_session_id sid)"

fun phase_ok :: "session_state \<Rightarrow> peer_session \<Rightarrow> 'r world \<Rightarrow> bool" where
  "phase_ok NO_SESSION s w \<longleftrightarrow> ps_sessionKey s = None \<and> ps_sessionId s = VNull
     \<and> ps_peerEncryptionPublicKey s = None \<and> ps_peerSigningPublicKey s = None"
| "phase_ok HELLO_EXCHANGED s w \<longleftrightarrow> ps_sessionKey s = None \<and> ps_selfId s \<noteq> INITIATOR_ID
     \<and> ps_helloSent s \<and> has_peer_keys s"
| "phase_ok KEY_SENT s w \<longleftrightarrow> live_key s w \<and> ps_selfId s = INITIATOR_ID
     \<and> ps_helloSent s \<and> has_peer_keys s"
| "phase_ok KEY_RECEIVED s w \<longleftrightarrow> False"
| "phase_ok ESTABLISHED s w \<longleftrightarrow> live_key s w \<and> ps_helloSent s \<and> has_peer_keys s"
| "phase_ok FAILED s w \<longleftrightarrow> ps_sessionKey s = None \<and> ps_helloSent s \<and> has_peer_keys s"

text \<open>
  The session is between the two clients, its keys are sound, its fields fit its state, and
  of all the buffers that ever held a session key, only the current one is not zeroed.
\<close>

definition session_inv :: "peer_session \<Rightarrow> 'r world \<Rightarrow> bool" where
  "session_inv s w \<longleftrightarrow>
     (VStr (ps_selfId s), ps_peerId s) \<in> {(client_A, client_B), (client_B, client_A)}
     \<and> identity_ok (ps_identity s) \<and> phase_ok (ps_state s) s w
     \<and> (\<forall>a < length (w_heap w). ps_sessionKey s \<noteq> Some a \<longrightarrow> zeroed w a)"

text \<open>
  Encryption with an RSA key of at most 16384 bits, the limit of OpenSSL, and signing do not
  fail; and no public key that is presented is longer. Without the second assumption the
  creation of a KEY_EXCHANGE can fail, and it then leaves a fresh key behind that the code
  does not wipe: \<open>failed_exchange_leaks\<close>.
\<close>

definition OPENSSL_MAX_BITS :: nat where "OPENSSL_MAX_BITS = 16384"

definition no_long_keys :: "'r node_crypto \<Rightarrow> bool" where
  "no_long_keys C \<longleftrightarrow> (\<forall>t k. nc_createPublicKey C t = Some k \<longrightarrow> modulusLength k \<le> OPENSSL_MAX_BITS)"

definition module_total :: "'r node_crypto \<Rightarrow> bool" where
  "module_total C \<longleftrightarrow> module_ok C \<and> no_long_keys C
     \<and> (\<forall>k m r. good_key PublicKey k \<longrightarrow> modulusLength k \<le> OPENSSL_MAX_BITS \<longrightarrow> length m = 32 \<longrightarrow>
          (\<exists>c r'. nc_publicEncrypt C k m r = (Some c, r') \<and> length c < 2 ^ 32))
     \<and> (\<forall>k d r. good_key PrivateKey k \<longrightarrow> (\<exists>s r'. nc_sign C k d r = (Some s, r')))"

section \<open>Moves of the parts\<close>

lemma exportPublicKeys_ok:
  "identity_ok i \<Longrightarrow> exportPublicKeys C i =
    Inr (nc_export_spki_pem C (kp_public (id_encryption i)), nc_export_spki_pem C (kp_public (id_signing i)))"
  by (simp add: exportPublicKeys_def exportPublicKey_def assertRsaPublicKey_def identity_ok_def)

text \<open>The HELLO of an identity.\<close>

definition own_hello :: "'r node_crypto \<Rightarrow> jsval \<Rightarrow> identity \<Rightarrow> jsval" where
  "own_hello C self i =
     createHelloMessage self (VStr (nc_export_spki_pem C (kp_public (id_encryption i))))
       (VStr (nc_export_spki_pem C (kp_public (id_signing i)))) PROTOCOL_VERSION"

lemma ownHelloOnce_ok:
  "identity_ok (ps_identity s) \<Longrightarrow> ownHelloOnce C s =
    (Inr (if ps_helloSent s then [] else [own_hello C (VStr (ps_selfId s)) (ps_identity s)]),
     s\<lparr>ps_helloSent := True\<rparr>)"
  by (simp add: ownHelloOnce_def exportPublicKeys_ok own_hello_def)

lemma hello_keys:
  assumes "validateMessage C msg = Inr Valid" and "text_of (field msg ''type'') = HELLO"
  obtains enc sig where "importPublicKey C (field msg ''encryptionPublicKey'') = Inr enc"
    "importPublicKey C (field msg ''signingPublicKey'') = Inr sig" "enc \<noteq> sig"
    "good_key PublicKey enc" "good_key PublicKey sig" "hello_schema C msg"
proof -
  have o: "\<not> not_object msg" by (rule valid_not_not_object [OF assms(1)])
  have "field msg ''type'' = VStr HELLO"
    using assms(2) by (cases "field msg ''type''") (auto simp: js_def)
  then have h: "hello_schema C msg" using validate_hello_iff [OF o, of C] assms(1) by simp
  then obtain enc sig where "importPublicKey C (field msg ''encryptionPublicKey'') = Inr enc"
    "importPublicKey C (field msg ''signingPublicKey'') = Inr sig" "enc \<noteq> sig"
    by (auto simp: hello_schema_def)
  with h that importPublicKey_good show thesis by metis
qed

lemma createKeyExchange_result:
  assumes "module_ok C" "createKeyExchange C s r sk pk v w = (Inr (msg, sid, a), w')"
  shows "a = length (w_heap w)" "matches_session_id sid"
    and "\<exists>key. w_heap w' = w_heap w @ [key] \<and> length key = 32"
proof -
  obtain key r1 where k: "nc_randomBytes C 32 (w_entropy w) = (key, r1)" by fastforce
  obtain ib r2 where ib: "nc_randomBytes C 16 r1 = (ib, r2)" by fastforce
  have len: "length key = 32" "length ib = 16"
    using assms(1) random_length [OF _ k] random_length [OF _ ib] by (simp_all add: module_ok_def)
  with assms(2) show "a = length (w_heap w)" "matches_session_id sid"
    and "\<exists>key. w_heap w' = w_heap w @ [key] \<and> length key = 32"
    by (auto simp: createKeyExchange_def generateSessionKey_def generateSessionId_def SESSION_KEY_BYTES_def
        SESSION_ID_BYTES_def k ib alloc_def matches_generated_id split: sum.splits prod.splits)
qed

lemma createKeyExchange_total:
  assumes "module_total C" "isIdentityString s" "isIdentityString r"
    and "good_key PrivateKey sk" "good_key PublicKey pk" "modulusLength pk \<le> OPENSSL_MAX_BITS"
  shows "\<exists>x w'. createKeyExchange C s r (Some sk) (Some pk) PROTOCOL_VERSION w = (Inr x, w')"
proof -
  have m: "random_ok C" "sha256_ok C" using assms(1) by (simp_all add: module_total_def module_ok_def)
  obtain key r1 where k: "nc_randomBytes C 32 (w_entropy w) = (key, r1)" by fastforce
  obtain ib r2 where ib: "nc_randomBytes C 16 r1 = (ib, r2)" by fastforce
  have len: "length key = 32" "length ib = 16" using random_length [OF m(1)] k ib by blast+
  obtain ek r3 where ek: "nc_publicEncrypt C pk key r2 = (Some ek, r3)" "length ek < 2 ^ 32"
    using assms(1,5,6) len unfolding module_total_def by blast
  have big: "(3072 :: rat) \<le> of_nat (modulusLength pk)"
    using assms(5) by (simp add: good_key_def MIN_MODULUS_LENGTH_def of_nat_le_iff [symmetric])
  have enc: "rsaEncrypt C (Some pk) (VBytes key) r2 = (Inr ek, r3)"
    using big len assms(5) ek
    by (auto simp: rsaEncrypt_def maxPlaintextLength_def assertRsaPublicKey_def OAEP_HASH_BYTES_def)
  obtain fp where fp: "publicKeyFingerprint C (Some pk) = Inr fp" "length fp = 32"
    using assms(5) m(2) by (simp add: publicKeyFingerprint_Inr sha256_ok_def)
  obtain d where d: "canonicalizeHandshake (exchange_fields PROTOCOL_VERSION (VStr KEY_EXCHANGE) s r
      (VStr (hex_encode ib)) ek fp) = Inr d" "d \<noteq> []"
    using canonicalize_exchange [OF assms(2,3) matches_generated_id [OF len(2)] ek(2), of fp] fp by auto
  obtain sg r4 where "nc_sign C sk d r3 = (Some sg, r4)" using assms(1,4) by (metis module_total_def)
  then have "sign C (Some sk) (VBytes d) r3 = (Inr sg, r4)"
    using assms(4) d(2) by (simp add: sign_def assertRsaPrivateKey_def)
  then show ?thesis
    by (simp add: createKeyExchange_def generateSessionKey_def generateSessionId_def SESSION_KEY_BYTES_def
        SESSION_ID_BYTES_def k ib alloc_def enc fp d)
qed

lemma createKeyExchangeAck_total:
  assumes "module_total C" "isIdentityString s" "isIdentityString r" "matches_session_id sid"
    and "good_key PrivateKey sk"
  shows "\<exists>x w'. createKeyExchangeAck C s r (VStr sid) (Some sk) PROTOCOL_VERSION w = (Inr x, w')
    \<and> w_heap w' = w_heap w"
proof -
  obtain d where d: "canonicalizeHandshake (ack_fields PROTOCOL_VERSION (VStr KEY_EXCHANGE_ACK) s r (VStr sid))
      = Inr d" "d \<noteq> []"
    using canonicalize_ack [OF assms(2-4)] by blast
  obtain sg r4 where "nc_sign C sk d (w_entropy w) = (Some sg, r4)"
    using assms(1,5) by (metis module_total_def)
  then have "sign C (Some sk) (VBytes d) (w_entropy w) = (Inr sg, r4)"
    using assms(5) d(2) by (simp add: sign_def assertRsaPrivateKey_def)
  then show ?thesis by (simp add: createKeyExchangeAck_def d)
qed

section \<open>The abstract session\<close>

text \<open>
  What a session is for its user: nothing yet, the peer's keys known, a key offered (the
  initiator waits), a live session with an ID, a key and the peer's keys, or dead.
\<close>

datatype phase = Idle | PeerKnown keyobj keyobj | Offered jsval bytes keyobj keyobj
  | Live jsval bytes keyobj keyobj | Dead

definition the_key :: "peer_session \<Rightarrow> 'r world \<Rightarrow> bytes" where
  "the_key s w = w_heap w ! the (ps_sessionKey s)"

definition session_phase :: "peer_session \<Rightarrow> 'r world \<Rightarrow> phase" where
  "session_phase s w =
     (let enc = the (ps_peerEncryptionPublicKey s); sig = the (ps_peerSigningPublicKey s) in
      case ps_state s of
        NO_SESSION \<Rightarrow> Idle
      | HELLO_EXCHANGED \<Rightarrow> PeerKnown enc sig
      | KEY_SENT \<Rightarrow> Offered (ps_sessionId s) (the_key s w) enc sig
      | ESTABLISHED \<Rightarrow> Live (ps_sessionId s) (the_key s w) enc sig
      | _ \<Rightarrow> Dead)"

text \<open>The peer's HELLO and the keys it advertises.\<close>

definition hello_from :: "'r node_crypto \<Rightarrow> jsval \<Rightarrow> jsval \<Rightarrow> keyobj \<Rightarrow> keyobj \<Rightarrow> bool" where
  "hello_from C peer msg enc sig \<longleftrightarrow> hello_schema C msg \<and> field msg ''sender'' = peer
     \<and> importPublicKey C (field msg ''encryptionPublicKey'') = Inr enc
     \<and> importPublicKey C (field msg ''signingPublicKey'') = Inr sig"

text \<open>
  The moves of a client \<open>self\<close> with identity \<open>i\<close> towards its peer. A phase with keys is
  entered only through a verified message and left only by the departure of the peer or by
  a message that fails verification before the session is live.
\<close>

inductive move :: "'r node_crypto \<Rightarrow> jsval \<Rightarrow> jsval \<Rightarrow> identity \<Rightarrow> phase \<Rightarrow> session_event \<Rightarrow> phase \<Rightarrow> bool"
  for C :: "'r node_crypto" and self peer :: jsval and i :: identity
where
  joined: "move C self peer i p PeerJoined p"
| left: "move C self peer i p PeerLeft Idle"
| ignored: "move C self peer i p (Received msg) p"
| hello_responder:
    "hello_from C peer msg enc sig \<Longrightarrow> self \<noteq> VStr INITIATOR_ID \<Longrightarrow>
      move C self peer i Idle (Received msg) (PeerKnown enc sig)"
| hello_initiator:
    "hello_from C peer msg enc sig \<Longrightarrow> self = VStr INITIATOR_ID \<Longrightarrow>
      matches_session_id sid \<Longrightarrow> length key = 32 \<Longrightarrow>
      move C self peer i Idle (Received msg) (Offered (VStr sid) key enc sig)"
| exchange_accepted:
    "exchange_verified C msg peer self sig (kp_public (id_encryption i)) (kp_private (id_encryption i)) key \<Longrightarrow>
      move C self peer i (PeerKnown enc sig) (Received msg) (Live (field msg ''sessionId'') key enc sig)"
| exchange_refused:
    "\<nexists>key. exchange_verified C msg peer self sig (kp_public (id_encryption i)) (kp_private (id_encryption i)) key \<Longrightarrow>
      move C self peer i (PeerKnown enc sig) (Received msg) Dead"
| ack_accepted:
    "ack_verified C msg peer self sid sig \<Longrightarrow>
      move C self peer i (Offered sid key enc sig) (Received msg) (Live sid key enc sig)"
| ack_refused:
    "\<not> ack_verified C msg peer self sid sig \<Longrightarrow>
      move C self peer i (Offered sid key enc sig) (Received msg) Dead"

inductive_cases move_fromE: "move C self peer i p ev q"
inductive_cases move_liveE: "move C self peer i (Live sid key enc sig) ev q"
inductive_cases move_to_liveE: "move C self peer i p ev (Live sid key enc sig)"
inductive_simps move_receivedI [simp]: "move C self peer i p PeerJoined q" "move C self peer i p PeerLeft q"

definition same_client :: "peer_session \<Rightarrow> peer_session \<Rightarrow> bool" where
  "same_client s s' \<longleftrightarrow> ps_selfId s' = ps_selfId s \<and> ps_peerId s' = ps_peerId s \<and> ps_identity s' = ps_identity s"

text \<open>One step as it should be: the invariant is kept and the phase makes a move.\<close>

definition good_step :: "'r node_crypto \<Rightarrow> session_event \<Rightarrow> peer_session \<times> 'r world \<Rightarrow> peer_session \<times> 'r world \<Rightarrow> bool" where
  "good_step C ev = (\<lambda>(s, w) (s', w'). session_inv s' w' \<and> same_client s s'
     \<and> move C (VStr (ps_selfId s)) (ps_peerId s) (ps_identity s) (session_phase s w) ev (session_phase s' w'))"

lemma good_ignored: "session_inv s w \<Longrightarrow> good_step C (Received msg) (s, w) (s, w)"
  by (simp add: good_step_def same_client_def ignored)

section \<open>Every event is a move\<close>

text \<open>Buffers that stay zeroed when the heap grows or another buffer is overwritten.\<close>

lemma zeroed_grow: "a < length (w_heap w) \<Longrightarrow> w_heap w' = w_heap w @ hs \<Longrightarrow> zeroed w' a \<longleftrightarrow> zeroed w a"
  by (simp add: zeroed_def nth_append)

lemma zeroed_fill0: "zeroed w a \<Longrightarrow> zeroed (fill0 b w) a"
  by (cases "b = a"; cases "b < length (w_heap w)") (auto simp: zeroed_def fill0_def)

lemma session_invD:
  assumes "session_inv s w"
  shows "identity_ok (ps_identity s)" "phase_ok (ps_state s) s w"
    "isIdentityString (VStr (ps_selfId s))" "isIdentityString (ps_peerId s)"
  using assms client_names(1) by (auto simp: session_inv_def parties_ok_def)

lemma INITIATOR_client_A: "VStr INITIATOR_ID = client_A"
  by (simp add: INITIATOR_ID_def client_A_def)

text \<open>A HELLO that is acted upon.\<close>

definition own_hellos :: "'r node_crypto \<Rightarrow> peer_session \<Rightarrow> jsval list" where
  "own_hellos C s = (if ps_helloSent s then [] else [own_hello C (VStr (ps_selfId s)) (ps_identity s)])"

definition with_peer_keys :: "keyobj \<Rightarrow> keyobj \<Rightarrow> peer_session \<Rightarrow> peer_session" where
  "with_peer_keys enc sig s =
     s\<lparr>ps_peerEncryptionPublicKey := Some enc, ps_peerSigningPublicKey := Some sig,
       ps_state := HELLO_EXCHANGED, ps_helloSent := True\<rparr>"

lemma onHello_idle:
  assumes "hello_from C (ps_peerId s) msg enc sig" "ps_state s = NO_SESSION" "identity_ok (ps_identity s)"
  shows "ps_selfId s \<noteq> INITIATOR_ID \<Longrightarrow> onHello C msg s w =
      (Inr (ps_result (own_hellos C s) (Some (js ''PEER_KEYS_RECEIVED'')) None), with_peer_keys enc sig s, w)"
    and "ps_selfId s = INITIATOR_ID \<Longrightarrow>
      createKeyExchange C client_A (ps_peerId s) (Some (kp_private (id_signing (ps_identity s)))) (Some enc)
        PROTOCOL_VERSION w = (Inr (m, sid, a), w') \<Longrightarrow>
      onHello C msg s w =
        (Inr (ps_result (own_hellos C s @ [m]) (Some (js ''KEY_EXCHANGE_SENT'')) None),
         (with_peer_keys enc sig s)\<lparr>ps_sessionId := VStr sid, ps_sessionKey := Some a, ps_state := KEY_SENT\<rparr>, w')"
proof -
  let ?s2 = "s\<lparr>ps_peerEncryptionPublicKey := Some enc, ps_peerSigningPublicKey := Some sig,
    ps_state := HELLO_EXCHANGED\<rparr>"
  have hello: "ownHelloOnce C ?s2 = (Inr (own_hellos C s), with_peer_keys enc sig s)"
    by (subst ownHelloOnce_ok) (simp_all add: assms own_hellos_def with_peer_keys_def)
  have keys: "field msg ''sender'' = ps_peerId s" "importPublicKey C (field msg ''encryptionPublicKey'') = Inr enc"
    "importPublicKey C (field msg ''signingPublicKey'') = Inr sig"
    using assms(1) by (simp_all add: hello_from_def)
  have same: "ps_selfId (with_peer_keys enc sig s) = ps_selfId s" "ps_peerId (with_peer_keys enc sig s) = ps_peerId s"
    "ps_identity (with_peer_keys enc sig s) = ps_identity s"
    "ps_peerEncryptionPublicKey (with_peer_keys enc sig s) = Some enc"
    by (simp_all add: with_peer_keys_def)
  show "ps_selfId s \<noteq> INITIATOR_ID \<Longrightarrow> onHello C msg s w =
      (Inr (ps_result (own_hellos C s) (Some (js ''PEER_KEYS_RECEIVED'')) None), with_peer_keys enc sig s, w)"
    by (simp add: onHello_def assms(2) keys hello same Let_def)
  show "ps_selfId s = INITIATOR_ID \<Longrightarrow>
      createKeyExchange C client_A (ps_peerId s) (Some (kp_private (id_signing (ps_identity s)))) (Some enc)
        PROTOCOL_VERSION w = (Inr (m, sid, a), w') \<Longrightarrow>
      onHello C msg s w =
        (Inr (ps_result (own_hellos C s @ [m]) (Some (js ''KEY_EXCHANGE_SENT'')) None),
         (with_peer_keys enc sig s)\<lparr>ps_sessionId := VStr sid, ps_sessionKey := Some a, ps_state := KEY_SENT\<rparr>, w')"
    by (simp add: onHello_def assms(2) keys hello same Let_def INITIATOR_client_A)
qed

lemma onHello_good:
  assumes inv: "session_inv s w" and C: "module_total C"
    and v: "validateMessage C msg = Inr Valid" "text_of (field msg ''type'') = HELLO"
  shows "good_step C (Received msg) (s, w) (snd (onHello C msg s w))"
proof (cases "field msg ''sender'' = ps_peerId s \<and> ps_state s = NO_SESSION")
  case False
  then show ?thesis using good_ignored [OF inv] by (auto simp: onHello_def)
next
  case True
  obtain enc sig where keys: "importPublicKey C (field msg ''encryptionPublicKey'') = Inr enc"
    "importPublicKey C (field msg ''signingPublicKey'') = Inr sig" "enc \<noteq> sig"
    "good_key PublicKey enc" "good_key PublicKey sig" "hello_schema C msg"
    by (rule hello_keys [OF v])
  have from_peer: "hello_from C (ps_peerId s) msg enc sig"
    using keys True by (simp add: hello_from_def)
  note invD = session_invD [OF inv]
  note run = onHello_idle [OF from_peer _ invD(1)]
  have none: "ps_sessionKey s = None" using invD(2) True by simp
  show ?thesis
  proof (cases "ps_selfId s = INITIATOR_ID")
    case False
    with True inv keys from_peer none run(1) show ?thesis
      by (simp add: good_step_def session_inv_def same_client_def has_peer_keys_def session_phase_def
          with_peer_keys_def hello_responder)
  next
    case init: True
    have short: "modulusLength enc \<le> OPENSSL_MAX_BITS"
      using C importPublicKey_parsed [OF keys(1)] by (auto simp: module_total_def no_long_keys_def)
    obtain m sid a w' where ex: "createKeyExchange C client_A (ps_peerId s)
        (Some (kp_private (id_signing (ps_identity s)))) (Some enc) PROTOCOL_VERSION w = (Inr (m, sid, a), w')"
      using createKeyExchange_total [OF C invD(3,4), of "kp_private (id_signing (ps_identity s))" enc w]
        invD(1) keys init short by (auto simp: identity_ok_def INITIATOR_client_A)
    have "module_ok C" using C by (simp add: module_total_def)
    note res = createKeyExchange_result [OF this ex]
    then obtain key where key: "w_heap w' = w_heap w @ [key]" "length key = 32" by blast
    let ?s4 = "(with_peer_keys enc sig s)\<lparr>ps_sessionId := VStr sid, ps_sessionKey := Some a, ps_state := KEY_SENT\<rparr>"
    have "snd (onHello C msg s w) = (?s4, w')"
      using True init by (simp add: run(2) ex)
    moreover have "session_inv ?s4 w'"
      using inv keys init key res none True
      by (auto simp: session_inv_def live_key_def has_peer_keys_def with_peer_keys_def less_Suc_eq
          zeroed_grow [OF _ key(1)])
    moreover have "move C (VStr (ps_selfId s)) (ps_peerId s) (ps_identity s) (session_phase s w) (Received msg)
        (session_phase ?s4 w')"
      using hello_initiator [OF from_peer, of "VStr (ps_selfId s)" sid key] init key res True
      by (simp add: session_phase_def the_key_def with_peer_keys_def)
    ultimately show ?thesis by (simp add: good_step_def same_client_def with_peer_keys_def)
  qed
qed

lemma verifyKeyExchange_Inl:
  "verifyKeyExchange C msg s r sigpub encpub encpriv w = (Inl e, w') \<Longrightarrow>
    \<exists>hs. w_heap w' = w_heap w @ hs \<and> (\<forall>h \<in> set hs. \<forall>b \<in> set h. b = 0)"
  by (auto simp: verifyKeyExchange_unwrap split: sum.splits if_splits)

lemma exchange_verified_accepted:
  assumes "exchange_verified C msg s r sigpub encpub encpriv key"
    and "good_key PublicKey sigpub" "good_key PublicKey encpub" "good_key PrivateKey encpriv"
  shows "verifyKeyExchange C msg s r (Some sigpub) (Some encpub) (Some encpriv) w =
    (Inr (field msg ''sessionId'', length (w_heap w)), w\<lparr>w_heap := w_heap w @ [key]\<rparr>)"
proof -
  have "exchange_schema KEY_EXCHANGE msg" using assms(1) by (simp add: exchange_verified_def)
  note sch = schema_valid [OF this, of C] schema_signature [OF this]
  have "unwrap_exchange C msg s r (Some sigpub) (Some encpub) (Some encpriv) = Inr key"
    using assms sch by (auto simp: unwrap_exchange_Inr exchange_verified_def canonicalize_not_Nil)
  then show ?thesis using assms(1) by (simp add: verifyKeyExchange_unwrap exchange_verified_def)
qed

lemma exchange_verified_sid:
  "exchange_verified C msg s r sigpub encpub encpriv key \<Longrightarrow>
    \<exists>sid. field msg ''sessionId'' = VStr sid \<and> matches_session_id sid"
  by (auto simp: exchange_verified_def exchange_schema_def)

lemma onKeyExchange_good:
  assumes inv: "session_inv s w" and C: "module_total C"
  shows "good_step C (Received msg) (s, w) (snd (onKeyExchange C msg s w))"
proof (cases "ps_selfId s \<noteq> INITIATOR_ID \<and> ps_state s = HELLO_EXCHANGED")
  case False
  then show ?thesis using good_ignored [OF inv] by (auto simp: onKeyExchange_def)
next
  case True
  note invD = session_invD [OF inv]
  from invD(2) True obtain enc sig where keys: "ps_peerEncryptionPublicKey s = Some enc"
    "ps_peerSigningPublicKey s = Some sig" "good_key PublicKey enc" "good_key PublicKey sig" "enc \<noteq> sig"
    and none: "ps_sessionKey s = None" and sent: "ps_helloSent s"
    by (auto simp: has_peer_keys_def)
  let ?i = "ps_identity s"
  let ?pub = "kp_public (id_encryption ?i)" and ?priv = "kp_private (id_encryption ?i)"
  have good: "good_key PublicKey ?pub" "good_key PrivateKey ?priv" "good_key PrivateKey (kp_private (id_signing ?i))"
    using invD(1) by (simp_all add: identity_ok_def)
  have phase: "session_phase s w = PeerKnown enc sig" using True keys by (simp add: session_phase_def)
  obtain res w' where ver: "verifyKeyExchange C msg (ps_peerId s) (VStr (ps_selfId s)) (Some sig)
      (Some ?pub) (Some ?priv) w = (res, w')" by fastforce
  show ?thesis
  proof (cases res)
    case (Inl e)
    let ?s' = "s\<lparr>ps_sessionKey := None, ps_state := FAILED\<rparr>"
    have run: "snd (onKeyExchange C msg s w) = (?s', w')"
      using True keys ver Inl none by (simp add: onKeyExchange_def ps_fail_def)
    obtain hs where hs: "w_heap w' = w_heap w @ hs" "\<forall>h \<in> set hs. \<forall>b \<in> set h. b = 0"
      using verifyKeyExchange_Inl [OF ver [unfolded Inl]] by blast
    then have "zeroed w' a" if "a < length (w_heap w')" "a < length (w_heap w) \<longrightarrow> zeroed w a" for a
      using that by (cases "a < length (w_heap w)") (auto simp: zeroed_def nth_append)
    with inv none have "session_inv ?s' w'" using keys sent by (auto simp: session_inv_def has_peer_keys_def)
    moreover have "\<nexists>key. exchange_verified C msg (ps_peerId s) (VStr (ps_selfId s)) sig ?pub ?priv key"
      using exchange_verified_accepted [OF _ keys(4) good(1,2)] ver Inl by fastforce
    ultimately show ?thesis
      by (simp add: run good_step_def same_client_def phase exchange_refused)
        (simp add: session_phase_def exchange_refused)
  next
    case (Inr x)
    then obtain sid a where x: "res = Inr (sid, a)" by (cases x) auto
    note acc = verifyKeyExchange_Inr [OF ver [unfolded x]]
    obtain t where sid: "sid = VStr t" "matches_session_id t"
      using exchange_verified_sid [OF acc(1)] acc(2) by auto
    obtain ack w'' where ack: "createKeyExchangeAck C (VStr (ps_selfId s)) (ps_peerId s) sid
        (Some (kp_private (id_signing ?i))) PROTOCOL_VERSION w' = (Inr ack, w'')" "w_heap w'' = w_heap w'"
      using createKeyExchangeAck_total [OF C invD(3,4) sid(2) good(3), of w'] sid(1) by blast
    let ?s' = "s\<lparr>ps_sessionId := sid, ps_sessionKey := Some a, ps_state := ESTABLISHED\<rparr>"
    have run: "snd (onKeyExchange C msg s w) = (?s', w'')"
      using True keys ver x ack by (simp add: onKeyExchange_def)
    define key where "key = w_heap w' ! a"
    have "w_heap w' = w_heap w @ [key]"
      using acc(4) by (metis key_def world.select_convs(2) world.surjective world.update_convs(2))
    then have heap: "w_heap w'' = w_heap w @ [key]" "a = length (w_heap w)"
      using acc(3) ack(2) by simp_all
    have len: "length key = 32" using acc(1) by (simp add: exchange_verified_def key_def)
    have "session_inv ?s' w''"
      using inv keys sent heap len sid none
      by (auto simp: session_inv_def live_key_def has_peer_keys_def less_Suc_eq zeroed_grow [OF _ heap(1)])
    moreover have "session_phase ?s' w'' = Live (field msg ''sessionId'') (w_heap w' ! a) enc sig"
      using keys acc(2) ack(2) by (simp add: session_phase_def the_key_def)
    ultimately show ?thesis
      using exchange_accepted [OF acc(1)] by (simp add: run good_step_def same_client_def phase)
  qed
qed

lemma fail_good_inv:
  assumes "session_inv s w" "ps_state s = KEY_SENT"
  shows "session_inv (s\<lparr>ps_sessionKey := None, ps_state := FAILED\<rparr>) (fill0 (the (ps_sessionKey s)) w)"
proof -
  from assms obtain a where a: "ps_sessionKey s = Some a" "a < length (w_heap w)"
    by (auto simp: session_inv_def live_key_def)
  have "zeroed (fill0 a w) b" if "b < length (w_heap w)" for b
    using that a assms by (cases "b = a") (auto simp: session_inv_def fill0_zeroed zeroed_fill0)
  with a assms show ?thesis by (auto simp: session_inv_def has_peer_keys_def)
qed

lemma onKeyExchangeAck_good:
  assumes inv: "session_inv s w"
  shows "good_step C (Received msg) (s, w) (snd (onKeyExchangeAck C msg s w))"
proof (cases "ps_selfId s = INITIATOR_ID \<and> ps_state s = KEY_SENT")
  case False
  then show ?thesis using good_ignored [OF inv] by (auto simp: onKeyExchangeAck_def)
next
  case True
  note invD = session_invD [OF inv]
  from invD(2) True obtain enc sig a where keys: "ps_peerEncryptionPublicKey s = Some enc"
    "ps_peerSigningPublicKey s = Some sig" and a: "ps_sessionKey s = Some a"
    by (auto simp: has_peer_keys_def live_key_def)
  have phase: "session_phase s w = Offered (ps_sessionId s) (the_key s w) enc sig"
    using True keys by (simp add: session_phase_def)
  show ?thesis
  proof (cases "verifyKeyExchangeAck C msg (ps_peerId s) (VStr (ps_selfId s)) (ps_sessionId s) (Some sig)")
    case (Inl e)
    then have "snd (onKeyExchangeAck C msg s w) =
      (s\<lparr>ps_sessionKey := None, ps_state := FAILED\<rparr>, fill0 (the (ps_sessionKey s)) w)"
      using True keys a by (simp add: onKeyExchangeAck_def ps_fail_def)
    moreover have "\<not> ack_verified C msg (ps_peerId s) (VStr (ps_selfId s)) (ps_sessionId s) sig"
      using Inl by (simp flip: verifyKeyExchangeAck_Inr)
    ultimately show ?thesis
      using fail_good_inv [OF inv] True ack_refused [of C msg "ps_peerId s" "VStr (ps_selfId s)"]
      by (simp add: good_step_def same_client_def phase)
        (simp add: session_phase_def)
  next
    case (Inr u)
    then have "snd (onKeyExchangeAck C msg s w) = (s\<lparr>ps_state := ESTABLISHED\<rparr>, w)"
      using True keys by (simp add: onKeyExchangeAck_def)
    moreover have "ack_verified C msg (ps_peerId s) (VStr (ps_selfId s)) (ps_sessionId s) sig"
      using Inr by (simp flip: verifyKeyExchangeAck_Inr)
    moreover have "session_inv (s\<lparr>ps_state := ESTABLISHED\<rparr>) w"
      using inv True by (simp add: session_inv_def live_key_def has_peer_keys_def)
    moreover have "session_phase (s\<lparr>ps_state := ESTABLISHED\<rparr>) w = Live (ps_sessionId s) (the_key s w) enc sig"
      using keys by (simp add: session_phase_def the_key_def)
    ultimately show ?thesis by (simp add: good_step_def same_client_def phase ack_accepted)
  qed
qed

lemma handleMessage_good:
  assumes "session_inv s w" "module_total C"
  shows "good_step C (Received msg) (s, w) (snd (handleMessage C msg s w))"
  using good_ignored [OF assms(1)] onHello_good [OF assms] onKeyExchange_good [OF assms]
    onKeyExchangeAck_good [OF assms(1)]
  by (simp add: handleMessage_def Let_def split: sum.split validation.split)

lemma onPeerJoined_eq:
  "identity_ok (ps_identity s) \<Longrightarrow> onPeerJoined C s w =
    (Inr (ps_result (own_hellos C s) None None), s\<lparr>ps_helloSent := True\<rparr>, w)"
  by (simp add: onPeerJoined_def ownHelloOnce_ok own_hellos_def)

lemma session_phase_sent [simp]: "session_phase (s\<lparr>ps_helloSent := b\<rparr>) w = session_phase s w"
  by (cases "ps_state s") (simp_all add: session_phase_def the_key_def)

lemma onPeerJoined_good:
  assumes "session_inv s w"
  shows "good_step C PeerJoined (s, w) (snd (onPeerJoined C s w))"
proof -
  have "phase_ok (ps_state s) (s\<lparr>ps_helloSent := True\<rparr>) w"
    using session_invD(2) [OF assms] by (cases "ps_state s") (simp_all add: live_key_def has_peer_keys_def)
  with assms show ?thesis
    by (simp add: onPeerJoined_eq session_invD(1) [OF assms] good_step_def same_client_def)
      (simp add: session_inv_def)
qed

lemma onPeerLeft_good:
  assumes "session_inv s w"
  shows "good_step C PeerLeft (s, w) (onPeerLeft s w)"
proof (cases "ps_sessionKey s")
  case None
  with assms show ?thesis
    by (simp add: good_step_def onPeerLeft_def ps_reset_def session_inv_def same_client_def session_phase_def)
next
  case (Some a)
  then have "a < length (w_heap w)"
    using session_invD(2) [OF assms] by (cases "ps_state s") (auto simp: live_key_def)
  then have "zeroed (fill0 a w) b" if "b < length (w_heap w)" for b
    using that Some assms by (cases "b = a") (auto simp: session_inv_def fill0_zeroed zeroed_fill0)
  with Some assms show ?thesis
    by (simp add: good_step_def onPeerLeft_def ps_reset_def session_inv_def same_client_def session_phase_def)
qed

lemma session_step_good:
  assumes "module_total C" "session_inv s w"
  shows "good_step C ev (s, w) (session_step C ev (s, w))"
  using assms handleMessage_good onPeerJoined_good onPeerLeft_good by (cases ev) auto

text \<open>The class as a machine: the invariant holds after every history of events.\<close>

interpretation session: machine "session_step C" "\<lambda>(s, w). module_total C \<and> session_inv s w"
  for C :: "'r node_crypto"
proof unfold_locales
  fix sw :: "peer_session \<times> 'r world" and ev
  assume "case sw of (s, w) \<Rightarrow> module_total C \<and> session_inv s w"
  then show "case session_step C ev sw of (s, w) \<Rightarrow> module_total C \<and> session_inv s w"
    using session_step_good [of C "fst sw" "snd sw" ev] by (cases sw) (auto simp: good_step_def split: prod.splits)
qed

section \<open>Histories\<close>

text \<open>What the received messages must contain for a phase to be reached.\<close>

definition authenticated ::
  "'r node_crypto \<Rightarrow> jsval \<Rightarrow> jsval \<Rightarrow> identity \<Rightarrow> session_event set \<Rightarrow> jsval \<Rightarrow> bytes \<Rightarrow> keyobj \<Rightarrow> bool" where
  "authenticated C self peer i evs sid key sig \<longleftrightarrow>
     (\<exists>msg. Received msg \<in> evs
        \<and> (if self = VStr INITIATOR_ID then ack_verified C msg peer self sid sig
           else exchange_verified C msg peer self sig (kp_public (id_encryption i)) (kp_private (id_encryption i)) key
             \<and> sid = field msg ''sessionId''))"

definition greeted :: "'r node_crypto \<Rightarrow> jsval \<Rightarrow> session_event set \<Rightarrow> keyobj \<Rightarrow> keyobj \<Rightarrow> bool" where
  "greeted C peer evs enc sig \<longleftrightarrow> (\<exists>msg. Received msg \<in> evs \<and> hello_from C peer msg enc sig)"

fun justified :: "'r node_crypto \<Rightarrow> jsval \<Rightarrow> jsval \<Rightarrow> identity \<Rightarrow> session_event set \<Rightarrow> phase \<Rightarrow> bool" where
  "justified C self peer i evs (PeerKnown enc sig) \<longleftrightarrow> self \<noteq> VStr INITIATOR_ID \<and> greeted C peer evs enc sig"
| "justified C self peer i evs (Offered sid key enc sig) \<longleftrightarrow> self = VStr INITIATOR_ID \<and> greeted C peer evs enc sig"
| "justified C self peer i evs (Live sid key enc sig) \<longleftrightarrow>
     greeted C peer evs enc sig \<and> authenticated C self peer i evs sid key sig"
| "justified C self peer i evs _ \<longleftrightarrow> True"

lemma justified_mono:
  assumes "justified C self peer i E p" "E \<subseteq> F"
  shows "justified C self peer i F p"
proof -
  have "greeted C peer F enc sig" if "greeted C peer E enc sig" for enc sig
    using that assms(2) by (auto simp: greeted_def)
  moreover have "authenticated C self peer i F sid key sig" if "authenticated C self peer i E sid key sig" for sid key sig
    using that assms(2) by (auto simp: authenticated_def)
  ultimately show ?thesis using assms(1) by (cases p) auto
qed

lemma move_justified:
  assumes "move C self peer i p ev q" "justified C self peer i E p" "ev \<in> F" "E \<subseteq> F"
  shows "justified C self peer i F q"
  using assms(1) justified_mono [OF assms(2,4)] assms(3)
  by (cases rule: move.cases) (auto simp: greeted_def authenticated_def)

definition run_session :: "'r node_crypto \<Rightarrow> session_event list \<Rightarrow> peer_session \<times> 'r world \<Rightarrow> peer_session \<times> 'r world" where
  "run_session C evs = fold (session_step C) evs"

definition fresh_session :: "peer_session \<Rightarrow> 'r world \<Rightarrow> bool" where
  "fresh_session s w \<longleftrightarrow>
     (\<exists>selfId i. new_PeerSession selfId i = Inr s \<and> VStr selfId \<in> {client_A, client_B} \<and> identity_ok i)
     \<and> w_heap w = []"

lemma fresh_inv: "fresh_session s w \<Longrightarrow> session_inv s w \<and> session_phase s w = Idle"
  by (auto simp: fresh_session_def new_PeerSession_def session_inv_def session_phase_def PEER_OF_def
      table_lookup_def client_A_def client_B_def js_def unit_of_def split: if_splits)

lemma run_session_justified:
  assumes "module_total C" "fresh_session s w" "run_session C evs (s, w) = (s', w')"
  shows "session_inv s' w' \<and> same_client s s'
    \<and> justified C (VStr (ps_selfId s)) (ps_peerId s) (ps_identity s) (set evs) (session_phase s' w')"
  using assms(3)
proof (induction evs arbitrary: s' w' rule: rev_induct)
  case Nil
  with fresh_inv [OF assms(2)] show ?case by (simp add: run_session_def same_client_def)
next
  case (snoc ev evs)
  obtain s1 w1 where s1: "run_session C evs (s, w) = (s1, w1)" by fastforce
  with snoc.prems have st: "session_step C ev (s1, w1) = (s', w')" by (simp add: run_session_def)
  note IH = snoc.IH [OF s1]
  with session_step_good [OF assms(1), of s1 w1 ev] st
  have good: "session_inv s' w'" "same_client s1 s'"
    "move C (VStr (ps_selfId s)) (ps_peerId s) (ps_identity s) (session_phase s1 w1) ev (session_phase s' w')"
    by (auto simp: good_step_def same_client_def)
  from move_justified [OF good(3), of "set evs" "set (evs @ [ev])"] IH good(1,2) show ?case
    by (auto simp: same_client_def)
qed

end
