(* ===== verification/TwoParty.thy ===== *)
theory TwoParty
  imports SessionLaws
begin

text \<open>
  The two sessions together: client A, client B and the two ordered channels the server
  keeps between them. A step is the arrival of a presence notice or of the next message,
  in any order. Since a session's reaction depends only on what it has received, every
  reachable configuration is determined by how far each side has come.
\<close>

section \<open>Clients that can run the handshake\<close>

definition client_ok :: "'r node_crypto \<Rightarrow> identity \<Rightarrow> bool" where
  "client_ok C i \<longleftrightarrow>
     (let enc = id_encryption i; sig = id_signing i in
      oaep_pair C (kp_public enc) (kp_private enc) \<and> pss_pair C (kp_public sig) (kp_private sig)
      \<and> pem_key C (kp_public enc) \<and> pem_key C (kp_public sig) \<and> kp_public enc \<noteq> kp_public sig
      \<and> modulusLength (kp_public enc) \<le> 8192 \<and> modulusLength (kp_public sig) \<le> 8192)"

lemma client_okD:
  assumes "client_ok C i"
  shows "identity_ok i" "good_key PublicKey (kp_public (id_encryption i))"
    "oaep_pair C (kp_public (id_encryption i)) (kp_private (id_encryption i))"
    "pss_pair C (kp_public (id_signing i)) (kp_private (id_signing i))"
    "modulusLength (kp_public (id_encryption i)) \<le> 8192" "modulusLength (kp_public (id_signing i)) \<le> 8192"
  using assms by (simp_all add: client_ok_def Let_def identity_ok_def oaep_pair_def pss_pair_def)

lemma own_hello_valid:
  assumes "client_ok C i" "isIdentityString self" "no_pem_text self"
  shows "validateMessage C (own_hello C self i) = Inr Valid"
  using hello_valid [OF assms(2,3), of C "kp_public (id_encryption i)" "kp_public (id_signing i)"] assms(1)
  by (simp add: own_hello_def client_ok_def Let_def)

lemma own_hello_fields [simp]:
  "field (own_hello C self i) ''type'' = VStr HELLO"
  "field (own_hello C self i) ''sender'' = self"
  "field (own_hello C self i) ''encryptionPublicKey'' = VStr (nc_export_spki_pem C (kp_public (id_encryption i)))"
  "field (own_hello C self i) ''signingPublicKey'' = VStr (nc_export_spki_pem C (kp_public (id_signing i)))"
  by (simp_all add: own_hello_def createHelloMessage_def)

lemma hello_from_own:
  assumes "client_ok C i" "isIdentityString self" "no_pem_text self"
  shows "hello_from C self (own_hello C self i) (kp_public (id_encryption i)) (kp_public (id_signing i))"
proof -
  have v: "validateMessage C (own_hello C self i) = Inr Valid" by (rule own_hello_valid [OF assms])
  have "hello_schema C (own_hello C self i)"
    using validate_hello_iff [OF valid_not_not_object [OF v], of C] v by simp
  with assms(1) show ?thesis
    by (simp add: hello_from_def client_ok_def Let_def importPublicKey_export)
qed

section \<open>The system\<close>

record 'r net =
  net_A :: "peer_session \<times> 'r world"
  net_B :: "peer_session \<times> 'r world"
  net_toA :: "jsval list"
  net_toB :: "jsval list"
  net_joinedA :: bool
  net_joinedB :: bool

text \<open>What a session sends as the result of an event.\<close>

fun sent_messages :: "js_error + outcome \<Rightarrow> jsval list" where
  "sent_messages (Inr oc) = oc_outgoing oc"
| "sent_messages (Inl e) = []"

inductive net_step :: "'r node_crypto \<Rightarrow> 'r net \<Rightarrow> 'r net \<Rightarrow> bool" for C :: "'r node_crypto" where
  joinA: "\<not> net_joinedA n \<Longrightarrow> onPeerJoined C (fst (net_A n)) (snd (net_A n)) = (r, sw) \<Longrightarrow>
    net_step C n (n\<lparr>net_A := sw, net_toB := net_toB n @ sent_messages r, net_joinedA := True\<rparr>)"
| joinB: "\<not> net_joinedB n \<Longrightarrow> onPeerJoined C (fst (net_B n)) (snd (net_B n)) = (r, sw) \<Longrightarrow>
    net_step C n (n\<lparr>net_B := sw, net_toA := net_toA n @ sent_messages r, net_joinedB := True\<rparr>)"
| deliverA: "net_toA n = msg # rest \<Longrightarrow> handleMessage C msg (fst (net_A n)) (snd (net_A n)) = (r, sw) \<Longrightarrow>
    net_step C n (n\<lparr>net_A := sw, net_toA := rest, net_toB := net_toB n @ sent_messages r\<rparr>)"
| deliverB: "net_toB n = msg # rest \<Longrightarrow> handleMessage C msg (fst (net_B n)) (snd (net_B n)) = (r, sw) \<Longrightarrow>
    net_step C n (n\<lparr>net_B := sw, net_toB := rest, net_toA := net_toA n @ sent_messages r\<rparr>)"

inductive_cases net_stepE: "net_step C n n'"

section \<open>The handshake, step by step\<close>

definition fresh :: "jsstring \<Rightarrow> jsval \<Rightarrow> identity \<Rightarrow> peer_session" where
  "fresh self peer i = \<lparr>ps_selfId = self, ps_peerId = peer, ps_identity = i, ps_state = NO_SESSION,
     ps_helloSent = False, ps_sessionId = VNull, ps_sessionKey = None,
     ps_peerEncryptionPublicKey = None, ps_peerSigningPublicKey = None\<rparr>"

definition nameA :: jsstring where "nameA = js ''Client A''"
definition nameB :: jsstring where "nameB = js ''Client B''"

lemma names: "VStr nameA = client_A" "VStr nameB = client_B" "nameA = INITIATOR_ID" "nameB \<noteq> INITIATOR_ID"
  by (simp_all add: nameA_def nameB_def client_A_def client_B_def INITIATOR_ID_def)

text \<open>
  The script of a handshake between identities \<open>iA\<close> and \<open>iB\<close> in the worlds \<open>wA\<close> and \<open>wB\<close>: the
  exchange message \<open>kx\<close> with its session ID and key, and the acknowledgement.
\<close>

record 'r script =
  sc_iA :: identity
  sc_iB :: identity
  sc_wA :: "'r world"
  sc_wB :: "'r world"
  sc_kx :: jsval
  sc_ack :: jsval
  sc_sid :: jsstring
  sc_key :: bytes
  sc_wA' :: "'r world"
  sc_wB' :: "'r world"

definition scripted :: "'r node_crypto \<Rightarrow> 'r script \<Rightarrow> bool" where
  "scripted C S \<longleftrightarrow>
     client_ok C (sc_iA S) \<and> client_ok C (sc_iB S) \<and> matches_session_id (sc_sid S) \<and> length (sc_key S) = 32
     \<and> createKeyExchange C client_A client_B (Some (kp_private (id_signing (sc_iA S))))
         (Some (kp_public (id_encryption (sc_iB S)))) PROTOCOL_VERSION (sc_wA S)
         = (Inr (sc_kx S, sc_sid S, length (w_heap (sc_wA S))), sc_wA' S)
     \<and> w_heap (sc_wA' S) = w_heap (sc_wA S) @ [sc_key S]
     \<and> exchange_schema KEY_EXCHANGE (sc_kx S)
     \<and> verifyKeyExchange C (sc_kx S) client_A client_B (Some (kp_public (id_signing (sc_iA S))))
         (Some (kp_public (id_encryption (sc_iB S)))) (Some (kp_private (id_encryption (sc_iB S)))) (sc_wB S)
         = (Inr (VStr (sc_sid S), length (w_heap (sc_wB S))), (sc_wB S)\<lparr>w_heap := w_heap (sc_wB S) @ [sc_key S]\<rparr>)
     \<and> createKeyExchangeAck C client_B client_A (VStr (sc_sid S)) (Some (kp_private (id_signing (sc_iB S))))
         PROTOCOL_VERSION ((sc_wB S)\<lparr>w_heap := w_heap (sc_wB S) @ [sc_key S]\<rparr>) = (Inr (sc_ack S), sc_wB' S)
     \<and> w_heap (sc_wB' S) = w_heap (sc_wB S) @ [sc_key S]
     \<and> exchange_schema KEY_EXCHANGE_ACK (sc_ack S)
     \<and> verifyKeyExchangeAck C (sc_ack S) client_B client_A (VStr (sc_sid S))
         (Some (kp_public (id_signing (sc_iB S)))) = Inr ()"

lemma script_exists:
  assumes "module_ok C" "client_ok C iA" "client_ok C iB"
  obtains S where "scripted C S" "sc_iA S = iA" "sc_iB S = iB" "sc_wA S = wA" "sc_wB S = wB"
proof (rule createKeyExchange_accepted [OF assms(1) client_names(1) client_okD(3,5) [OF assms(3)]
      client_okD(4,6) [OF assms(2)], where w = wA])
  fix kx sid key r
  assume kx: "createKeyExchange C client_A client_B (Some (kp_private (id_signing iA)))
      (Some (kp_public (id_encryption iB))) PROTOCOL_VERSION wA =
      (Inr (kx, sid, length (w_heap wA)), wA\<lparr>w_entropy := r, w_heap := w_heap wA @ [key]\<rparr>)"
    "matches_session_id sid" "length key = 32" "exchange_schema KEY_EXCHANGE kx"
    "\<And>v. verifyKeyExchange C kx client_A client_B (Some (kp_public (id_signing iA)))
       (Some (kp_public (id_encryption iB))) (Some (kp_private (id_encryption iB))) v =
       (Inr (VStr sid, length (w_heap v)), v\<lparr>w_heap := w_heap v @ [key]\<rparr>)"
  show thesis
  proof (rule createKeyExchangeAck_accepted [OF client_names(2) kx(2) client_okD(4,6) [OF assms(3)],
        where w = "wB\<lparr>w_heap := w_heap wB @ [key]\<rparr>"])
    fix ack r'
    assume ack: "createKeyExchangeAck C client_B client_A (VStr sid) (Some (kp_private (id_signing iB)))
        PROTOCOL_VERSION (wB\<lparr>w_heap := w_heap wB @ [key]\<rparr>) =
        (Inr ack, wB\<lparr>w_heap := w_heap wB @ [key]\<rparr>\<lparr>w_entropy := r'\<rparr>)"
      "exchange_schema KEY_EXCHANGE_ACK ack"
      "verifyKeyExchangeAck C ack client_B client_A (VStr sid) (Some (kp_public (id_signing iB))) = Inr ()"
    let ?S = "\<lparr>sc_iA = iA, sc_iB = iB, sc_wA = wA, sc_wB = wB, sc_kx = kx, sc_ack = ack, sc_sid = sid,
      sc_key = key, sc_wA' = wA\<lparr>w_entropy := r, w_heap := w_heap wA @ [key]\<rparr>,
      sc_wB' = wB\<lparr>w_heap := w_heap wB @ [key]\<rparr>\<lparr>w_entropy := r'\<rparr>\<rparr>"
    have "scripted C ?S" using assms kx ack by (simp add: scripted_def)
    with that show thesis by simp
  qed
qed

text \<open>
  How far a side has come: 0 nothing sent, 1 HELLO sent, 2 HELLO received, 3 established.
\<close>

definition sessA :: "'r script \<Rightarrow> nat \<Rightarrow> peer_session" where
  "sessA S a =
     (let f = fresh nameA client_B (sc_iA S);
          k = with_peer_keys (kp_public (id_encryption (sc_iB S))) (kp_public (id_signing (sc_iB S))) f
      in if a = 0 then f else if a = 1 then f\<lparr>ps_helloSent := True\<rparr>
         else k\<lparr>ps_sessionId := VStr (sc_sid S), ps_sessionKey := Some (length (w_heap (sc_wA S))),
                ps_state := (if a = 2 then KEY_SENT else ESTABLISHED)\<rparr>)"

definition sessB :: "'r script \<Rightarrow> nat \<Rightarrow> peer_session" where
  "sessB S b =
     (let f = fresh nameB client_A (sc_iB S);
          k = with_peer_keys (kp_public (id_encryption (sc_iA S))) (kp_public (id_signing (sc_iA S))) f
      in if b = 0 then f else if b = 1 then f\<lparr>ps_helloSent := True\<rparr> else if b = 2 then k
         else k\<lparr>ps_sessionId := VStr (sc_sid S), ps_sessionKey := Some (length (w_heap (sc_wB S))),
                ps_state := ESTABLISHED\<rparr>)"

definition helloA :: "'r node_crypto \<Rightarrow> 'r script \<Rightarrow> jsval" where
  "helloA C S = own_hello C client_A (sc_iA S)"

definition helloB :: "'r node_crypto \<Rightarrow> 'r script \<Rightarrow> jsval" where
  "helloB C S = own_hello C client_B (sc_iB S)"

definition config :: "'r node_crypto \<Rightarrow> 'r script \<Rightarrow> nat \<Rightarrow> nat \<Rightarrow> bool \<Rightarrow> bool \<Rightarrow> 'r net" where
  "config C S a b ja jb =
     \<lparr>net_A = (sessA S a, if a < 2 then sc_wA S else sc_wA' S),
      net_B = (sessB S b, if b < 3 then sc_wB S else sc_wB' S),
      net_toA = (if 1 \<le> b \<and> a < 2 then [helloB C S] else []) @ (if b = 3 \<and> a < 3 then [sc_ack S] else []),
      net_toB = (if 1 \<le> a \<and> b < 2 then [helloA C S] else []) @ (if 2 \<le> a \<and> b < 3 then [sc_kx S] else []),
      net_joinedA = ja, net_joinedB = jb\<rparr>"

definition config_ok :: "nat \<Rightarrow> nat \<Rightarrow> bool \<Rightarrow> bool \<Rightarrow> bool" where
  "config_ok a b ja jb \<longleftrightarrow> a \<le> 3 \<and> b \<le> 3 \<and> (a = 3 \<longrightarrow> b = 3) \<and> (b = 3 \<longrightarrow> 2 \<le> a)
     \<and> (2 \<le> b \<longrightarrow> 1 \<le> a) \<and> (2 \<le> a \<longrightarrow> 1 \<le> b) \<and> (ja \<longrightarrow> 1 \<le> a) \<and> (jb \<longrightarrow> 1 \<le> b)
     \<and> (a = 1 \<longrightarrow> ja) \<and> (b = 1 \<longrightarrow> jb)"

section \<open>Reactions\<close>

lemma or_null_js [simp]: "s \<noteq> [] \<Longrightarrow> or_null (Some (js s)) = Some (js s)"
  by (cases s) (simp_all add: js_def)

lemma sent_result [simp]: "oc_outgoing (ps_result ms e r) = ms"
  by (simp add: ps_result_def)

lemma scriptedD:
  assumes "scripted C S"
  shows "client_ok C (sc_iA S)" "client_ok C (sc_iB S)" "identity_ok (sc_iA S)" "identity_ok (sc_iB S)"
    "exchange_schema KEY_EXCHANGE (sc_kx S)" "exchange_schema KEY_EXCHANGE_ACK (sc_ack S)"
  using assms client_okD(1) by (auto simp: scripted_def)

lemma schema_handled:
  assumes "exchange_schema ty msg"
  shows "ty = KEY_EXCHANGE \<Longrightarrow> handleMessage C msg s w = onKeyExchange C msg s w"
    and "ty = KEY_EXCHANGE_ACK \<Longrightarrow> handleMessage C msg s w = onKeyExchangeAck C msg s w"
  using schema_valid [OF assms, of C] by (simp_all add: handleMessage_def)

lemma hello_handled:
  assumes "client_ok C i" "isIdentityString self" "no_pem_text self"
  shows "handleMessage C (own_hello C self i) s w = onHello C (own_hello C self i) s w"
  using own_hello_valid [OF assms] by (simp add: handleMessage_def)

lemma joins:
  assumes "scripted C S" "a \<le> 3" "b \<le> 3"
  shows "onPeerJoined C (sessA S a) w = (Inr (ps_result (if a = 0 then [helloA C S] else []) None None),
      sessA S (if a = 0 then 1 else a), w)"
    and "onPeerJoined C (sessB S b) w = (Inr (ps_result (if b = 0 then [helloB C S] else []) None None),
      sessB S (if b = 0 then 1 else b), w)"
proof -
  have "ps_identity (sessA S a) = sc_iA S" "ps_identity (sessB S b) = sc_iB S"
    by (simp_all add: sessA_def sessB_def fresh_def with_peer_keys_def Let_def)
  then show "onPeerJoined C (sessA S a) w = (Inr (ps_result (if a = 0 then [helloA C S] else []) None None),
      sessA S (if a = 0 then 1 else a), w)"
    and "onPeerJoined C (sessB S b) w = (Inr (ps_result (if b = 0 then [helloB C S] else []) None None),
      sessB S (if b = 0 then 1 else b), w)"
    using scriptedD(3,4) [OF assms(1)]
    by (simp_all add: onPeerJoined_eq own_hellos_def sessA_def sessB_def fresh_def with_peer_keys_def
        Let_def helloA_def helloB_def names INITIATOR_client_A)
qed

lemma client_texts:
  "isIdentityString client_A" "isIdentityString client_B" "no_pem_text client_A" "no_pem_text client_B"
  using client_names(1) by (simp_all add: parties_ok_def)

lemma hello_reaches_B:
  assumes "scripted C S" "b < 2"
  shows "handleMessage C (helloA C S) (sessB S b) w =
    (Inr (ps_result (if b = 0 then [helloB C S] else []) (Some (js ''PEER_KEYS_RECEIVED'')) None), sessB S 2, w)"
proof -
  note D = scriptedD [OF assms(1)]
  have "handleMessage C (helloA C S) (sessB S b) w = onHello C (helloA C S) (sessB S b) w"
    unfolding helloA_def by (rule hello_handled [OF D(1) client_texts(1,3)])
  moreover have "hello_from C (ps_peerId (sessB S b)) (helloA C S) (kp_public (id_encryption (sc_iA S)))
      (kp_public (id_signing (sc_iA S)))"
    using hello_from_own [OF D(1) client_texts(1,3)] by (simp add: helloA_def sessB_def fresh_def with_peer_keys_def Let_def)
  moreover have "ps_state (sessB S b) = NO_SESSION" "ps_identity (sessB S b) = sc_iB S" "ps_selfId (sessB S b) = nameB"
    using assms(2) by (simp_all add: sessB_def fresh_def with_peer_keys_def Let_def)
  ultimately have "handleMessage C (helloA C S) (sessB S b) w =
    (Inr (ps_result (own_hellos C (sessB S b)) (Some (js ''PEER_KEYS_RECEIVED'')) None),
     with_peer_keys (kp_public (id_encryption (sc_iA S))) (kp_public (id_signing (sc_iA S))) (sessB S b), w)"
    using onHello_idle(1) [of C "sessB S b"] D(4) names(4) by simp
  moreover have "own_hellos C (sessB S b) = (if b = 0 then [helloB C S] else [])"
    using assms(2) by (simp add: own_hellos_def sessB_def fresh_def helloB_def names Let_def)
  moreover have "with_peer_keys enc sig (sessB S b) = with_peer_keys enc sig (sessB S 0)" for enc sig
    using assms(2) by (simp add: sessB_def fresh_def with_peer_keys_def Let_def)
  ultimately show ?thesis by (simp add: sessB_def Let_def)
qed

lemma hello_reaches_A:
  assumes "scripted C S" "a < 2"
  shows "handleMessage C (helloB C S) (sessA S a) (sc_wA S) =
    (Inr (ps_result ((if a = 0 then [helloA C S] else []) @ [sc_kx S]) (Some (js ''KEY_EXCHANGE_SENT'')) None),
     sessA S 2, sc_wA' S)"
proof -
  note D = scriptedD [OF assms(1)]
  let ?enc = "kp_public (id_encryption (sc_iB S))" and ?sig = "kp_public (id_signing (sc_iB S))"
  have "handleMessage C (helloB C S) (sessA S a) (sc_wA S) = onHello C (helloB C S) (sessA S a) (sc_wA S)"
    unfolding helloB_def by (rule hello_handled [OF D(2) client_texts(2,4)])
  moreover have "hello_from C (ps_peerId (sessA S a)) (helloB C S) ?enc ?sig"
    using hello_from_own [OF D(2) client_texts(2,4)] by (simp add: helloB_def sessA_def fresh_def with_peer_keys_def Let_def)
  moreover have st: "ps_state (sessA S a) = NO_SESSION" "ps_identity (sessA S a) = sc_iA S"
    "ps_selfId (sessA S a) = INITIATOR_ID" "ps_peerId (sessA S a) = client_B"
    using assms(2) names(3) by (simp_all add: sessA_def fresh_def with_peer_keys_def Let_def)
  moreover have "createKeyExchange C client_A client_B (Some (kp_private (id_signing (sc_iA S)))) (Some ?enc)
      PROTOCOL_VERSION (sc_wA S) = (Inr (sc_kx S, sc_sid S, length (w_heap (sc_wA S))), sc_wA' S)"
    using assms(1) by (simp add: scripted_def)
  ultimately have "handleMessage C (helloB C S) (sessA S a) (sc_wA S) =
    (Inr (ps_result (own_hellos C (sessA S a) @ [sc_kx S]) (Some (js ''KEY_EXCHANGE_SENT'')) None),
     (with_peer_keys ?enc ?sig (sessA S a))\<lparr>ps_sessionId := VStr (sc_sid S),
       ps_sessionKey := Some (length (w_heap (sc_wA S))), ps_state := KEY_SENT\<rparr>, sc_wA' S)"
    using onHello_idle(2) [of C "sessA S a"] D(3) by simp
  moreover have "own_hellos C (sessA S a) = (if a = 0 then [helloA C S] else [])"
    using assms(2) by (simp add: own_hellos_def sessA_def fresh_def helloA_def names(1) Let_def)
  moreover have "with_peer_keys enc sig (sessA S a) = with_peer_keys enc sig (sessA S 0)" for enc sig
    using assms(2) by (simp add: sessA_def fresh_def with_peer_keys_def Let_def)
  ultimately show ?thesis by (simp add: sessA_def Let_def)
qed

lemma exchange_reaches_B:
  assumes "scripted C S"
  shows "handleMessage C (sc_kx S) (sessB S 2) (sc_wB S) =
    (Inr (ps_result [sc_ack S] (Some (js ''ESTABLISHED'')) None), sessB S 3, sc_wB' S)"
proof -
  have "handleMessage C (sc_kx S) (sessB S 2) (sc_wB S) = onKeyExchange C (sc_kx S) (sessB S 2) (sc_wB S)"
    by (rule schema_handled(1) [OF scriptedD(5) [OF assms] refl])
  also have "\<dots> = (Inr (ps_result [sc_ack S] (Some (js ''ESTABLISHED'')) None), sessB S 3, sc_wB' S)"
    using assms
    by (simp add: onKeyExchange_def sessB_def fresh_def with_peer_keys_def Let_def names(2,4) scripted_def)
  finally show ?thesis .
qed

lemma ack_reaches_A:
  assumes "scripted C S"
  shows "handleMessage C (sc_ack S) (sessA S 2) w =
    (Inr (ps_result [] (Some (js ''ESTABLISHED'')) None), sessA S 3, w)"
proof -
  have "handleMessage C (sc_ack S) (sessA S 2) w = onKeyExchangeAck C (sc_ack S) (sessA S 2) w"
    by (rule schema_handled(2) [OF scriptedD(6) [OF assms] refl])
  also have "\<dots> = (Inr (ps_result [] (Some (js ''ESTABLISHED'')) None), sessA S 3, w)"
    using assms
    by (simp add: onKeyExchangeAck_def sessA_def fresh_def with_peer_keys_def Let_def names(3)
        INITIATOR_client_A scripted_def)
  finally show ?thesis .
qed

section \<open>Every order of events\<close>

lemma config_sel [simp]:
  "net_A (config C S a b ja jb) = (sessA S a, if a < 2 then sc_wA S else sc_wA' S)"
  "net_B (config C S a b ja jb) = (sessB S b, if b < 3 then sc_wB S else sc_wB' S)"
  "net_joinedA (config C S a b ja jb) = ja" "net_joinedB (config C S a b ja jb) = jb"
  by (simp_all add: config_def)

text \<open>The channels, in the configurations that are possible.\<close>

lemma config_toA:
  "config_ok a b ja jb \<Longrightarrow> net_toA (config C S a b ja jb) =
    (if a < 2 then if 1 \<le> b then [helloB C S] else [] else if b = 3 \<and> a = 2 then [sc_ack S] else [])"
  by (auto simp: config_def config_ok_def)

lemma config_toB:
  "config_ok a b ja jb \<Longrightarrow> net_toB (config C S a b ja jb) =
    (if b < 2 then (if 1 \<le> a then [helloA C S] else []) @ (if a = 2 then [sc_kx S] else [])
     else if b = 2 \<and> a = 2 then [sc_kx S] else [])"
  by (auto simp: config_def config_ok_def)

lemma after_joinA:
  assumes "config_ok a b ja jb" "net_joinedA n = False" "n = config C S a b ja jb"
  shows "n\<lparr>net_A := (sessA S (if a = 0 then 1 else a), snd (net_A n)),
      net_toB := net_toB n @ (if a = 0 then [helloA C S] else []), net_joinedA := True\<rparr>
    = config C S (if a = 0 then 1 else a) b True jb"
proof (cases "a = 0")
  case True
  with assms(1) have "b < 2" by (auto simp: config_ok_def)
  with True assms(3) show ?thesis by (simp add: config_def)
next
  case False
  with assms(3) show ?thesis by (simp add: config_def)
qed

lemma after_joinB:
  assumes "config_ok a b ja jb" "net_joinedB n = False" "n = config C S a b ja jb"
  shows "n\<lparr>net_B := (sessB S (if b = 0 then 1 else b), snd (net_B n)),
      net_toA := net_toA n @ (if b = 0 then [helloB C S] else []), net_joinedB := True\<rparr>
    = config C S a (if b = 0 then 1 else b) ja True"
proof (cases "b = 0")
  case True
  with assms(1) have "a < 2" by (auto simp: config_ok_def)
  with True assms(3) show ?thesis by (simp add: config_def)
next
  case False
  with assms(3) show ?thesis by (simp add: config_def)
qed

lemma after_helloA:
  assumes "config_ok a b ja jb" "a < 2" "1 \<le> b" "n = config C S a b ja jb"
  shows "n\<lparr>net_A := (sessA S 2, sc_wA' S), net_toA := [],
      net_toB := net_toB n @ (if a = 0 then [helloA C S] else []) @ [sc_kx S]\<rparr> = config C S 2 b ja jb"
proof -
  have "b < 3" using assms(1,2) by (auto simp: config_ok_def)
  moreover have "a = 0 \<Longrightarrow> b < 2" using assms(1) by (auto simp: config_ok_def)
  ultimately show ?thesis using assms(2-4) by (cases "a = 0") (simp_all add: config_def)
qed

lemma after_helloB:
  assumes "config_ok a b ja jb" "b < 2" "1 \<le> a" "n = config C S a b ja jb"
  shows "n\<lparr>net_B := (sessB S 2, snd (net_B n)), net_toB := (if a = 2 then [sc_kx S] else []),
      net_toA := net_toA n @ (if b = 0 then [helloB C S] else [])\<rparr> = config C S a 2 ja jb"
proof -
  have "a < 3" using assms(1,2) by (auto simp: config_ok_def)
  moreover have "b = 0 \<Longrightarrow> a < 2" using assms(1) by (auto simp: config_ok_def)
  ultimately show ?thesis using assms(2-4) by (cases "b = 0"; cases "a = 2") (simp_all add: config_def)
qed

lemma net_step_config:
  assumes S: "scripted C S" and ok: "config_ok a b ja jb" and step: "net_step C (config C S a b ja jb) n"
  shows "\<exists>a' b' ja' jb'. config_ok a' b' ja' jb' \<and> n = config C S a' b' ja' jb'
    \<and> a + b + of_bool ja + of_bool jb < a' + b' + of_bool ja' + of_bool jb'"
proof -
  have le: "a \<le> 3" "b \<le> 3" using ok by (simp_all add: config_ok_def)
  from step show ?thesis
  proof (cases rule: net_step.cases)
    case (joinA r sw)
    then have "n = config C S (if a = 0 then 1 else a) b True jb" "\<not> ja"
      using after_joinA [OF ok _ refl, of C S] by (auto simp: joins(1) [OF S le])
    moreover have "config_ok (if a = 0 then 1 else a) b True jb" using ok by (auto simp: config_ok_def)
    ultimately show ?thesis
      by (intro exI [of _ "if a = 0 then 1 else a"] exI [of _ b] exI [of _ True] exI [of _ jb]) simp
  next
    case (joinB r sw)
    then have "n = config C S a (if b = 0 then 1 else b) ja True" "\<not> jb"
      using after_joinB [OF ok _ refl, of C S] by (auto simp: joins(2) [OF S le])
    moreover have "config_ok a (if b = 0 then 1 else b) ja True" using ok by (auto simp: config_ok_def)
    ultimately show ?thesis
      by (intro exI [of _ a] exI [of _ "if b = 0 then 1 else b"] exI [of _ ja] exI [of _ True]) simp
  next
    case (deliverA msg rest r sw)
    show ?thesis
    proof (cases "a < 2")
      case True
      with deliverA have *: "msg = helloB C S" "rest = []" "1 \<le> b"
        by (simp_all add: config_toA [OF ok] split: if_splits)
      with deliverA True have "n = config C S 2 b ja jb"
        using after_helloA [OF ok True _ refl, of C S] by (auto simp: hello_reaches_A [OF S])
      moreover have "config_ok 2 b ja jb" using ok True *(3) by (auto simp: config_ok_def)
      ultimately show ?thesis
        using True by (intro exI [of _ 2] exI [of _ b] exI [of _ ja] exI [of _ jb]) simp
    next
      case False
      with deliverA have *: "msg = sc_ack S" "rest = []" "b = 3" "a = 2"
        by (simp_all add: config_toA [OF ok] split: if_splits)
      with deliverA have "n = config C S 3 3 ja jb" by (auto simp: ack_reaches_A [OF S] config_def)
      moreover have "config_ok 3 3 ja jb" using ok * by (simp add: config_ok_def)
      ultimately show ?thesis
        using * by (intro exI [of _ 3] exI [of _ ja] exI [of _ jb]) simp
    qed
  next
    case (deliverB msg rest r sw)
    show ?thesis
    proof (cases "b < 2")
      case True
      have "1 \<le> a" using deliverB True config_toB [OF ok, of C S] by (auto split: if_splits)
      with deliverB True have *: "msg = helloA C S" "rest = (if a = 2 then [sc_kx S] else [])"
        by (simp_all add: config_toB [OF ok])
      with deliverB True have "n = config C S a 2 ja jb"
        using after_helloB [OF ok True \<open>1 \<le> a\<close> refl, of C S] by (auto simp: hello_reaches_B [OF S])
      moreover have "config_ok a 2 ja jb" using ok True \<open>1 \<le> a\<close> by (auto simp: config_ok_def)
      ultimately show ?thesis
        using True by (intro exI [of _ a] exI [of _ 2] exI [of _ ja] exI [of _ jb]) simp
    next
      case False
      with deliverB have *: "msg = sc_kx S" "rest = []" "b = 2" "a = 2"
        by (simp_all add: config_toB [OF ok] split: if_splits)
      with deliverB have "n = config C S 2 3 ja jb" by (auto simp: exchange_reaches_B [OF S] config_def)
      moreover have "config_ok 2 3 ja jb" using ok * by (simp add: config_ok_def)
      ultimately show ?thesis
        using * by (intro exI [of _ 2] exI [of _ 3] exI [of _ ja] exI [of _ jb]) simp
    qed
  qed
qed

lemma net_steps_config:
  assumes "scripted C S" "(net_step C ^^ k) (config C S 0 0 False False) n"
  shows "\<exists>a b ja jb. config_ok a b ja jb \<and> n = config C S a b ja jb \<and> k \<le> a + b + of_bool ja + of_bool jb"
  using assms(2)
proof (induction k arbitrary: n)
  case 0
  have "config_ok 0 0 False False" by (simp add: config_ok_def)
  with 0 show ?case
    by (intro exI [of _ 0] exI [of _ False]) simp
next
  case (Suc k)
  then obtain m where m: "(net_step C ^^ k) (config C S 0 0 False False) m" "net_step C m n" by auto
  from Suc.IH [OF m(1)] obtain a b ja jb where
    ok: "config_ok a b ja jb" "m = config C S a b ja jb" "k \<le> a + b + of_bool ja + of_bool jb" by blast
  with net_step_config [OF assms(1) ok(1)] m(2) show ?case
    by (metis (no_types, lifting) Suc_leI le_less_trans)
qed

lemma stuck_config:
  assumes ok: "config_ok a b ja jb" and stuck: "\<nexists>m. net_step C (config C S a b ja jb) m"
  shows "a = 3 \<and> b = 3"
proof -
  let ?n = "config C S a b ja jb"
  have "ja"
    using stuck net_step.joinA [of ?n C] by (metis config_sel(3) surj_pair)
  moreover have "jb"
    using stuck net_step.joinB [of ?n C] by (metis config_sel(4) surj_pair)
  moreover have "net_toA ?n = []"
    using stuck net_step.deliverA [of ?n _ _ C] by (metis neq_Nil_conv surj_pair)
  moreover have "net_toB ?n = []"
    using stuck net_step.deliverB [of ?n _ _ C] by (metis neq_Nil_conv surj_pair)
  ultimately show ?thesis
    using ok unfolding config_toA [OF ok] config_toB [OF ok]
    by (simp add: config_ok_def split: if_splits) linarith+
qed

section \<open>Properties\<close>

text \<open>Both sessions are live, with the same ID and the same 32-byte key.\<close>

definition established_together :: "'r net \<Rightarrow> bool" where
  "established_together n \<longleftrightarrow>
     (case net_A n of (sA, vA) \<Rightarrow> case net_B n of (sB, vB) \<Rightarrow>
        ps_state sA = ESTABLISHED \<and> ps_state sB = ESTABLISHED \<and> ps_sessionId sA = ps_sessionId sB
        \<and> the_key sA vA = the_key sB vB \<and> length (the_key sA vA) = 32)"

definition net_start :: "peer_session \<Rightarrow> peer_session \<Rightarrow> 'r world \<Rightarrow> 'r world \<Rightarrow> 'r net" where
  "net_start sA sB wA wB = \<lparr>net_A = (sA, wA), net_B = (sB, wB), net_toA = [], net_toB = [],
     net_joinedA = False, net_joinedB = False\<rparr>"

lemma new_sessions:
  "new_PeerSession nameA i = Inr (fresh nameA client_B i)" "new_PeerSession nameB i = Inr (fresh nameB client_A i)"
  by (simp_all add: new_PeerSession_def fresh_def PEER_OF_def table_lookup_def nameA_def nameB_def
      client_A_def client_B_def js_def unit_of_def)

lemma config_start: "config C S 0 0 False False =
    net_start (fresh nameA client_B (sc_iA S)) (fresh nameB client_A (sc_iB S)) (sc_wA S) (sc_wB S)"
  by (simp add: config_def net_start_def sessA_def sessB_def Let_def)

lemma established_config: "scripted C S \<Longrightarrow> established_together (config C S 3 3 ja jb)"
  by (simp add: established_together_def sessA_def sessB_def with_peer_keys_def Let_def the_key_def
      scripted_def)

lemma config_not_failed:
  "ps_state (sessA S a) \<noteq> FAILED" "ps_state (sessB S b) \<noteq> FAILED"
  by (simp_all add: sessA_def sessB_def fresh_def with_peer_keys_def Let_def)

text \<open>
  Two new sessions whose clients have matching keys, connected by ordered channels, take at
  most eight steps, whatever the order in which the presence notices and messages arrive; no
  session ever fails on the way; and when nothing is left to happen, both are established.
\<close>

lemma handshake_runs:
  assumes "module_ok C" "client_ok C iA" "client_ok C iB"
    and "new_PeerSession nameA iA = Inr sA" "new_PeerSession nameB iB = Inr sB"
    and "(net_step C ^^ k) (net_start sA sB wA wB) n"
  shows "k \<le> 8 \<and> ps_state (fst (net_A n)) \<noteq> FAILED \<and> ps_state (fst (net_B n)) \<noteq> FAILED
    \<and> ((\<nexists>m. net_step C n m) \<longrightarrow> established_together n)"
proof -
  obtain S where S: "scripted C S" "sc_iA S = iA" "sc_iB S = iB" "sc_wA S = wA" "sc_wB S = wB"
    by (rule script_exists [OF assms(1-3)])
  have "net_start sA sB wA wB = config C S 0 0 False False"
    using assms(4,5) S(2-5) by (simp add: config_start new_sessions)
  with net_steps_config [OF S(1)] assms(6) obtain a b ja jb where
    n: "config_ok a b ja jb" "n = config C S a b ja jb" "k \<le> a + b + of_bool ja + of_bool jb" by metis
  have "k \<le> 3 + 3 + 1 + 1"
    using n(1) by (intro order_trans [OF n(3)] add_mono) (simp_all add: config_ok_def)
  then have "k \<le> 8" by simp
  moreover have "(\<nexists>m. net_step C n m) \<longrightarrow> established_together n"
    using stuck_config [OF n(1), of C S] established_config [OF S(1)] n(2) by auto
  ultimately show ?thesis using n(2) by (simp add: config_not_failed)
qed

definition sample_identity :: "8 word \<Rightarrow> 8 word \<Rightarrow> identity" where
  "sample_identity e s =
     \<lparr>id_encryption = \<lparr>kp_public = sample_key PublicKey e, kp_private = sample_key PrivateKey e\<rparr>,
      id_signing = \<lparr>kp_public = sample_key PublicKey s, kp_private = sample_key PrivateKey s\<rparr>\<rparr>"

lemma sample_client:
  assumes "e \<noteq> s"
  shows "client_ok sample_crypto (sample_identity e s)"
proof -
  have "sample_key PublicKey e \<noteq> sample_key PublicKey s" using assms by (simp add: sample_key_def)
  then show ?thesis by (simp add: client_ok_def sample_identity_def Let_def)
qed

definition sample_start :: "nat net" where
  "sample_start = net_start (fresh nameA client_B (sample_identity 1 2)) (fresh nameB client_A (sample_identity 3 4))
     \<lparr>w_entropy = 5, w_heap = []\<rparr> \<lparr>w_entropy = 6, w_heap = []\<rparr>"

text \<open>Where runs are bounded, some run cannot go on.\<close>

lemma bounded_run_ends:
  assumes bound: "\<And>k n. (R ^^ k) x n \<Longrightarrow> k \<le> (b::nat)"
  obtains k n where "(R ^^ k) x n" "\<nexists>m. R n m"
proof -
  let ?runs = "\<lambda>k. \<exists>n. (R ^^ k) x n"
  define k where "k = (GREATEST k. ?runs k)"
  have le: "\<And>j. ?runs j \<Longrightarrow> j \<le> b" using bound by blast
  have "?runs 0" by simp
  then have "?runs k" unfolding k_def by (rule GreatestI_nat) (use le in blast)
  then obtain n where n: "(R ^^ k) x n" by blast
  have "\<nexists>m. R n m"
  proof
    assume "\<exists>m. R n m"
    then have "?runs (Suc k)" using n by auto
    then have "Suc k \<le> k" unfolding k_def by (rule Greatest_le_nat) (use le in blast)
    then show False by simp
  qed
  with n that show thesis by blast
qed

end
