(* ===== verification/SessionProperties.thy ===== *)
theory SessionProperties
  imports TwoParty
begin

text \<open>
  The properties of \<open>PeerSession\<close>, over single steps and over whole histories of events
  with arbitrary, possibly hostile, messages.
\<close>

section \<open>A concrete history\<close>

lemma sample_total: "module_total sample_crypto"
proof -
  have "no_long_keys sample_crypto"
    by (auto simp: no_long_keys_def sample_crypto_def sample_parse_def OPENSSL_MAX_BITS_def split: list.splits)
  moreover have "length (take 1 m) + 383 < 4294967296" for m :: bytes by (simp add: min_def)
  ultimately show ?thesis
    by (simp add: module_total_def) (simp add: sample_crypto_def sample_encrypt_def add.assoc)
qed

definition sample_B :: peer_session where "sample_B = fresh nameB client_A (sample_identity 3 4)"

definition empty_world :: "nat world" where "empty_world = \<lparr>w_entropy = 5, w_heap = []\<rparr>"

lemma sample_B_fresh: "fresh_session sample_B empty_world"
proof -
  have "identity_ok (sample_identity 3 4)" by (rule client_okD(1)) (rule sample_client, simp)
  then have "new_PeerSession nameB (sample_identity 3 4) = Inr sample_B \<and> VStr nameB \<in> {client_A, client_B}
      \<and> identity_ok (sample_identity 3 4)"
    by (simp add: sample_B_def new_sessions names)
  then show ?thesis unfolding fresh_session_def by (auto simp: empty_world_def)
qed

text \<open>B receives the HELLO and the exchange of a client A, and is established.\<close>

lemma sample_history:
  obtains hello kx s w where
    "run_session sample_crypto [Received hello, Received kx] (sample_B, empty_world) = (s, w)"
    "ps_state s = ESTABLISHED"
proof -
  have ok: "client_ok sample_crypto (sample_identity 1 2)" "client_ok sample_crypto (sample_identity 3 4)"
    by (rule sample_client, simp)+
  obtain S where S: "scripted sample_crypto S" "sc_iB S = sample_identity 3 4" "sc_wB S = empty_world"
    by (rule script_exists [OF sample_pairs(1) ok])
  have "sample_B = sessB S 0" by (simp add: sample_B_def sessB_def S(2) Let_def)
  then have "run_session sample_crypto [Received (helloA sample_crypto S), Received (sc_kx S)]
      (sample_B, empty_world) = (sessB S 3, sc_wB' S)"
    using hello_reaches_B [OF S(1), of 0] exchange_reaches_B [OF S(1)] S(3)
    by (simp add: run_session_def)
  moreover have "ps_state (sessB S 3) = ESTABLISHED" by (simp add: sessB_def Let_def)
  ultimately show thesis by (rule that)
qed

section \<open>Properties\<close>





text \<open>
  An established session is never overwritten. Whatever value arrives, in
  state ESTABLISHED \<open>handleMessage\<close> changes neither the session nor the world, sends
  nothing and reports no event: a repeated handshake cannot replace a live key.
\<close>

theorem established_stable:
  assumes "ps_state s = ESTABLISHED" "handleMessage C msg s w = (r, s', w')"
  shows "s' = s \<and> w' = w \<and> (\<forall>oc. r = Inr oc \<longrightarrow> oc_outgoing oc = [] \<and> oc_event oc = None)"
  using assms
  by (auto simp: handleMessage_def onHello_def onKeyExchange_def onKeyExchangeAck_def Let_def
      ps_reject_def ps_result_def split: sum.splits validation.splits if_splits)

theorem established_stable_witness:
  "snd (handleMessage sample_crypto VNull (sample_B\<lparr>ps_state := ESTABLISHED\<rparr>) empty_world)
    = (sample_B\<lparr>ps_state := ESTABLISHED\<rparr>, empty_world)"
proof -
  obtain r s' w' where "handleMessage sample_crypto VNull (sample_B\<lparr>ps_state := ESTABLISHED\<rparr>) empty_world = (r, s', w')"
    by (metis surj_pair)
  with established_stable [OF _ this] show ?thesis by simp
qed

text \<open>
  Property C11: an established session is authenticated. If a history leads a new session
  to ESTABLISHED, then among the received messages there are a HELLO of the peer, whose
  signing key is \<open>sig\<close>, and a message that verifies under \<open>sig\<close>: for the initiator an
  acknowledgement of exactly this session ID, for the responder a KEY_EXCHANGE with this
  session ID whose ciphertext decrypts, with the client's own key, to exactly the session
  key in use.
\<close>

theorem established_authenticated:
  assumes "module_total C" "fresh_session s w" "run_session C evs (s, w) = (s', w')"
    and "ps_state s' = ESTABLISHED"
  shows "\<exists>enc sig. greeted C (ps_peerId s) (set evs) enc sig
    \<and> authenticated C (VStr (ps_selfId s)) (ps_peerId s) (ps_identity s) (set evs)
        (ps_sessionId s') (the_key s' w') sig"
  using run_session_justified [OF assms(1-3)] assms(4)
  by (auto simp: session_phase_def Let_def)

theorem established_authenticated_witness:
  "\<exists>hello kx enc sig key. greeted sample_crypto client_A {Received hello, Received kx} enc sig
    \<and> (exchange_verified sample_crypto hello client_A client_B sig (sample_key PublicKey 3) (sample_key PrivateKey 3) key
       \<or> exchange_verified sample_crypto kx client_A client_B sig (sample_key PublicKey 3) (sample_key PrivateKey 3) key)"
proof -
  obtain hello kx s w where run: "run_session sample_crypto [Received hello, Received kx] (sample_B, empty_world) = (s, w)"
    and est: "ps_state s = ESTABLISHED" by (rule sample_history)
  obtain enc sig where "greeted sample_crypto client_A {Received hello, Received kx} enc sig"
    and auth: "authenticated sample_crypto client_B client_A (sample_identity 3 4)
      {Received hello, Received kx} (ps_sessionId s) (the_key s w) sig"
    using established_authenticated [OF sample_total sample_B_fresh run est]
    by (auto simp: sample_B_def fresh_def names)
  have "client_B \<noteq> VStr INITIATOR_ID" by (simp add: INITIATOR_client_A client_names(3) [symmetric])
  with auth have "exchange_verified sample_crypto hello client_A client_B sig (sample_key PublicKey 3) (sample_key PrivateKey 3) (the_key s w)
    \<or> exchange_verified sample_crypto kx client_A client_B sig (sample_key PublicKey 3) (sample_key PrivateKey 3) (the_key s w)"
    by (auto simp: authenticated_def sample_identity_def)
  with \<open>greeted _ _ _ _ _\<close> show ?thesis by blast
qed

text \<open>
  Which identities the constructor accepts: besides \<open>Client A\<close> and
  \<open>Client B\<close>, it accepts every name \<open>Object.prototype\<close> has, such as \<open>constructor\<close>: the
  table is an object literal, and the error is thrown for all other names only.
\<close>

theorem constructor_accepts_iff:
  "(\<exists>s. new_PeerSession selfId i = Inr s) \<longleftrightarrow>
    selfId \<in> {js ''Client A'', js ''Client B''} \<union> set OBJECT_PROTOTYPE_NAMES"
  by (auto simp: new_PeerSession_def PEER_OF_def table_lookup_def js_def split: if_splits)

end
