(* ===== verification/SessionBounds.thy ===== *)
theory SessionBounds
  imports SessionProperties
begin

text \<open>
  How far a session can be driven. The states of \<open>PeerSession\<close> are ordered as a handshake
  passes through them; no event but the departure of the peer leads back, and every message
  sent and every key made uses up one of the steps ahead. So whatever arrives, however
  often, and whatever the crypto module does, the traffic and the memory a peer can cause
  are bounded.
\<close>

section \<open>The order of the states\<close>

fun state_rank :: "session_state \<Rightarrow> nat" where
  "state_rank NO_SESSION = 0"
| "state_rank HELLO_EXCHANGED = 1"
| "state_rank KEY_SENT = 2"
| "state_rank KEY_RECEIVED = 3"
| "state_rank ESTABLISHED = 4"
| "state_rank FAILED = 5"

lemma state_rank_inj: "state_rank p = state_rank q \<Longrightarrow> p = q"
  by (cases p; cases q) simp_all

instantiation session_state :: linorder
begin

definition less_eq_session_state :: "session_state \<Rightarrow> session_state \<Rightarrow> bool" where
  "p \<le> q \<longleftrightarrow> state_rank p \<le> state_rank q"

definition less_session_state :: "session_state \<Rightarrow> session_state \<Rightarrow> bool" where
  "p < q \<longleftrightarrow> state_rank p < state_rank q"

instance
  by standard (auto simp: less_eq_session_state_def less_session_state_def intro: state_rank_inj)

end

lemmas state_order = less_eq_session_state_def less_session_state_def

lemma NO_SESSION_least [simp]: "NO_SESSION \<le> p"
  by (simp add: state_order)

lemma FAILED_greatest [simp]: "p \<le> FAILED"
  by (cases p) (simp_all add: state_order)

lemma before_KEY_SENT: "p < KEY_SENT \<longleftrightarrow> p = NO_SESSION \<or> p = HELLO_EXCHANGED"
  by (cases p) (simp_all add: state_order)

section \<open>What is sent\<close>

fun session_sends :: "'r node_crypto \<Rightarrow> session_event \<Rightarrow> peer_session \<times> 'r world \<Rightarrow> jsval list" where
  "session_sends C PeerJoined (s, w) = sent_messages (fst (onPeerJoined C s w))"
| "session_sends C PeerLeft (s, w) = []"
| "session_sends C (Received m) (s, w) = sent_messages (fst (handleMessage C m s w))"

fun all_sends :: "'r node_crypto \<Rightarrow> session_event list \<Rightarrow> peer_session \<times> 'r world \<Rightarrow> jsval list" where
  "all_sends C [] sw = []"
| "all_sends C (ev # evs) sw = session_sends C ev sw @ all_sends C evs (session_step C ev sw)"

text \<open>What a session can still send, and how many keys it can still make.\<close>

definition keys_ahead :: "peer_session \<Rightarrow> nat" where
  "keys_ahead s = (if ps_state s < KEY_SENT then 1 else 0)"

definition sends_ahead :: "peer_session \<Rightarrow> nat" where
  "sends_ahead s = (if ps_helloSent s then 0 else 1) + keys_ahead s"

definition advances :: "peer_session \<Rightarrow> 'r world \<Rightarrow> jsval list \<Rightarrow> peer_session \<Rightarrow> 'r world \<Rightarrow> bool" where
  "advances s w ms s' w' \<longleftrightarrow> ps_state s \<le> ps_state s'
     \<and> length ms + sends_ahead s' \<le> sends_ahead s
     \<and> length (w_heap w') + keys_ahead s' \<le> length (w_heap w) + keys_ahead s"

lemmas ahead_simps = advances_def sends_ahead_def keys_ahead_def before_KEY_SENT

lemma advances_same [simp]: "advances s w [] s w"
  by (simp add: advances_def)

text \<open>A failed handshake: the work that preceded it made at most the key that was ahead.\<close>

lemma ps_fail_advances:
  assumes "ps_fail e s1 w1 = (r, s', w')" "ps_helloSent s \<longrightarrow> ps_helloSent s1"
    and "length (w_heap w1) \<le> length (w_heap w) + keys_ahead s"
  shows "advances s w (sent_messages r) s' w'"
  using assms
  by (auto simp: ps_fail_def ps_reject_def ps_result_def ahead_simps split: option.splits)

section \<open>The handlers\<close>

lemma ownHelloOnce_sends:
  assumes "ownHelloOnce C s = (r, s')"
  shows "s' = s\<lparr>ps_helloSent := True\<rparr>" and "r = Inr ms \<Longrightarrow> length ms \<le> (if ps_helloSent s then 0 else 1)"
  using assms by (auto simp: ownHelloOnce_def split: if_splits)

lemma createKeyExchange_length:
  "createKeyExchange C a b sk pk v w = (x, w') \<Longrightarrow> length (w_heap w') = Suc (length (w_heap w))"
  by (auto simp: createKeyExchange_def alloc_def Let_def split: prod.splits sum.splits)

lemma verifyKeyExchange_length:
  "verifyKeyExchange C m a b pk ek dk w = (x, w') \<Longrightarrow> length (w_heap w') \<le> Suc (length (w_heap w))"
  by (auto simp: verifyKeyExchange_def alloc_def Let_def split: prod.splits sum.splits if_splits)

lemma createKeyExchangeAck_length:
  "createKeyExchangeAck C a b sid sk v w = (x, w') \<Longrightarrow> length (w_heap w') = length (w_heap w)"
  by (auto simp: createKeyExchangeAck_def split: prod.splits sum.splits)

lemma onPeerJoined_advances:
  assumes "onPeerJoined C s w = (r, s', w')"
  shows "advances s w (sent_messages r) s' w'"
proof -
  obtain hello s1 where h: "ownHelloOnce C s = (hello, s1)" by fastforce
  with assms ownHelloOnce_sends [OF h] show ?thesis
    by (cases hello) (auto simp: onPeerJoined_def ps_result_def ahead_simps)
qed

text \<open>A HELLO with keys that can be imported.\<close>

lemma onHello_keys_advances:
  assumes "onHello C msg s w = (r, s', w')" "field msg ''sender'' = ps_peerId s" "ps_state s = NO_SESSION"
    and "importPublicKey C (field msg ''encryptionPublicKey'') = Inr enc"
    and "importPublicKey C (field msg ''signingPublicKey'') = Inr sig"
  shows "advances s w (sent_messages r) s' w'"
proof -
  let ?s2 = "s\<lparr>ps_peerEncryptionPublicKey := Some enc, ps_peerSigningPublicKey := Some sig, ps_state := HELLO_EXCHANGED\<rparr>"
  obtain hello s3 where h: "ownHelloOnce C ?s2 = (hello, s3)" by fastforce
  note s3 = ownHelloOnce_sends [OF h]
  obtain x w1 where x: "createKeyExchange C (VStr (ps_selfId s3)) (ps_peerId s3)
      (Some (kp_private (id_signing (ps_identity s3)))) (ps_peerEncryptionPublicKey s3)
      PROTOCOL_VERSION w = (x, w1)" by fastforce
  note step = assms h s3 x
  consider (stuck) e where "hello = Inl e" | (answer) ms where "hello = Inr ms" "ps_selfId s \<noteq> INITIATOR_ID"
    | (failed) ms e where "hello = Inr ms" "ps_selfId s = INITIATOR_ID" "x = Inl e"
    | (offer) ms m sid a where "hello = Inr ms" "ps_selfId s = INITIATOR_ID" "x = Inr (m, sid, a)"
    by (metis sum.exhaust prod_cases3)
  then show ?thesis
  proof cases
    case failed
    with step have "ps_fail e s3 w1 = (r, s', w')" by (simp add: onHello_def)
    then show ?thesis
      by (rule ps_fail_advances)
        (simp_all add: s3(1) createKeyExchange_length [OF x] keys_ahead_def assms(3) state_order)
  qed (use step createKeyExchange_length [OF x] in \<open>auto simp: onHello_def ps_result_def ahead_simps\<close>)
qed

lemma onHello_advances:
  assumes "onHello C msg s w = (r, s', w')"
  shows "advances s w (sent_messages r) s' w'"
proof (cases "field msg ''sender'' = ps_peerId s \<and> ps_state s = NO_SESSION")
  case False
  with assms show ?thesis
    by (cases "field msg ''sender'' = ps_peerId s") (auto simp: onHello_def ps_reject_def ps_result_def)
next
  case True
  then have ns: "field msg ''sender'' = ps_peerId s" "ps_state s = NO_SESSION" by auto
  show ?thesis
  proof (cases "importPublicKey C (field msg ''encryptionPublicKey'')")
    case (Inl e)
    with assms ns show ?thesis by (auto simp: onHello_def)
  next
    case enc: (Inr enc)
    show ?thesis
    proof (cases "importPublicKey C (field msg ''signingPublicKey'')")
      case (Inl e)
      with assms ns enc show ?thesis by (auto simp: onHello_def ahead_simps)
    next
      case (Inr sig)
      show ?thesis by (rule onHello_keys_advances [OF assms ns enc Inr])
    qed
  qed
qed

lemma onKeyExchange_advances:
  assumes "onKeyExchange C msg s w = (r, s', w')"
  shows "advances s w (sent_messages r) s' w'"
proof (cases "ps_selfId s = INITIATOR_ID \<or> ps_state s \<noteq> HELLO_EXCHANGED")
  case True
  with assms show ?thesis by (auto simp: onKeyExchange_def ps_reject_def ps_result_def split: if_splits)
next
  case False
  then have st: "ps_selfId s \<noteq> INITIATOR_ID" "ps_state s = HELLO_EXCHANGED" by auto
  obtain x w1 where x: "verifyKeyExchange C msg (ps_peerId s) (VStr (ps_selfId s)) (ps_peerSigningPublicKey s)
      (Some (kp_public (id_encryption (ps_identity s)))) (Some (kp_private (id_encryption (ps_identity s)))) w = (x, w1)"
    by fastforce
  note len = verifyKeyExchange_length [OF x]
  show ?thesis
  proof (cases x)
    case (Inl e)
    with assms st x have "ps_fail e (s\<lparr>ps_state := KEY_RECEIVED\<rparr>) w1 = (r, s', w')" by (simp add: onKeyExchange_def)
    then show ?thesis by (rule ps_fail_advances) (use len st in \<open>simp_all add: keys_ahead_def state_order\<close>)
  next
    case (Inr y)
    then obtain sid a where y: "x = Inr (sid, a)" by (cases y) auto
    obtain z w2 where z: "createKeyExchangeAck C (VStr (ps_selfId s)) (ps_peerId s) sid
        (Some (kp_private (id_signing (ps_identity s)))) PROTOCOL_VERSION w1 = (z, w2)" by fastforce
    note len2 = createKeyExchangeAck_length [OF z]
    show ?thesis
    proof (cases z)
      case (Inl e)
      with assms st x y z have "ps_fail e (s\<lparr>ps_state := KEY_RECEIVED\<rparr>) w2 = (r, s', w')" by (simp add: onKeyExchange_def)
      then show ?thesis by (rule ps_fail_advances) (use len len2 st in \<open>simp_all add: keys_ahead_def state_order\<close>)
    next
      case (Inr ack)
      with assms st x y z len len2 show ?thesis
        by (auto simp: onKeyExchange_def ps_result_def ahead_simps state_order)
    qed
  qed
qed

lemma onKeyExchangeAck_advances:
  assumes "onKeyExchangeAck C msg s w = (r, s', w')"
  shows "advances s w (sent_messages r) s' w'"
proof (cases "ps_selfId s \<noteq> INITIATOR_ID \<or> ps_state s \<noteq> KEY_SENT")
  case True
  with assms show ?thesis by (auto simp: onKeyExchangeAck_def ps_reject_def ps_result_def split: if_splits)
next
  case False
  then have st: "ps_selfId s = INITIATOR_ID" "ps_state s = KEY_SENT" by auto
  show ?thesis
  proof (cases "verifyKeyExchangeAck C msg (ps_peerId s) (VStr (ps_selfId s)) (ps_sessionId s) (ps_peerSigningPublicKey s)")
    case (Inl e)
    with assms st have "ps_fail e s w = (r, s', w')" by (simp add: onKeyExchangeAck_def)
    then show ?thesis by (rule ps_fail_advances) simp_all
  next
    case (Inr u)
    with assms st show ?thesis
      by (auto simp: onKeyExchangeAck_def ps_result_def ahead_simps state_order)
  qed
qed

lemmas handler_advances = onHello_advances onKeyExchange_advances onKeyExchangeAck_advances

lemma handleMessage_advances:
  assumes "handleMessage C msg s w = (r, s', w')"
  shows "advances s w (sent_messages r) s' w'"
  using assms
  by (auto simp: handleMessage_def Let_def ps_reject_def ps_result_def intro: handler_advances
      split: sum.splits validation.splits if_splits)

section \<open>Histories\<close>

text \<open>The departure of the peer gives the session its two messages and its key back.\<close>

lemma session_step_advances:
  assumes "session_step C ev (s, w) = (s', w')"
  shows "ev \<noteq> PeerLeft \<Longrightarrow> advances s w (session_sends C ev (s, w)) s' w'"
    and "ev = PeerLeft \<Longrightarrow> sends_ahead s' = 2 \<and> keys_ahead s' = 1 \<and> length (w_heap w') = length (w_heap w)"
proof -
  show "advances s w (session_sends C ev (s, w)) s' w'" if "ev \<noteq> PeerLeft"
  proof (cases ev)
    case PeerJoined
    obtain r s1 w1 where "onPeerJoined C s w = (r, s1, w1)" using prod_cases3 by blast
    with onPeerJoined_advances [OF this] PeerJoined assms show ?thesis by simp
  next
    case (Received m)
    obtain r s1 w1 where "handleMessage C m s w = (r, s1, w1)" using prod_cases3 by blast
    with handleMessage_advances [OF this] Received assms show ?thesis by simp
  qed (use that in simp)
  show "sends_ahead s' = 2 \<and> keys_ahead s' = 1 \<and> length (w_heap w') = length (w_heap w)" if "ev = PeerLeft"
    using assms that by (auto simp: onPeerLeft_def ps_reset_def ahead_simps split: option.splits)
qed

definition departures :: "session_event list \<Rightarrow> nat" where
  "departures evs = count_list evs PeerLeft"

lemma run_session_bounds:
  assumes "run_session C evs (s, w) = (s', w')"
  shows "length (all_sends C evs (s, w)) + sends_ahead s' \<le> sends_ahead s + 2 * departures evs
    \<and> length (w_heap w') + keys_ahead s' \<le> length (w_heap w) + keys_ahead s + departures evs
    \<and> (departures evs = 0 \<longrightarrow> ps_state s \<le> ps_state s')"
  using assms
proof (induction evs arbitrary: s w)
  case Nil
  then show ?case by (simp add: run_session_def departures_def)
next
  case (Cons ev evs)
  obtain s1 w1 where st: "session_step C ev (s, w) = (s1, w1)" by fastforce
  with Cons.prems have "run_session C evs (s1, w1) = (s', w')" by (simp add: run_session_def)
  note rest = Cons.IH [OF this]
  show ?case
  proof (cases "ev = PeerLeft")
    case True
    with rest session_step_advances(2) [OF st] st show ?thesis by (simp add: departures_def)
  next
    case False
    with rest session_step_advances(1) [OF st] st show ?thesis
      by (auto simp: departures_def advances_def)
  qed
qed

text \<open>
  Property C32: what a peer can make a session do is bounded. Over any history of events,
  hostile or not, with any behaviour of the crypto module, a session sends at most two
  messages and makes at most one key, and as many again for each departure of the peer; and
  between two departures its state only moves forward in the order of the handshake.
\<close>

theorem session_bounded:
  assumes "run_session C evs (s, w) = (s', w')"
  shows "length (all_sends C evs (s, w)) \<le> 2 * (departures evs + 1)
    \<and> length (w_heap w') \<le> length (w_heap w) + departures evs + 1
    \<and> (departures evs = 0 \<longrightarrow> ps_state s \<le> ps_state s')"
proof -
  have "sends_ahead s \<le> 2" "keys_ahead s \<le> 1" by (simp_all add: sends_ahead_def keys_ahead_def)
  with run_session_bounds [OF assms] show ?thesis by auto
qed

theorem session_bounded_witness:
  "\<exists>hello kx s w. run_session sample_crypto [Received hello, Received kx] (sample_B, empty_world) = (s, w)
    \<and> ps_state s = ESTABLISHED \<and> ps_state sample_B \<le> ESTABLISHED
    \<and> length (all_sends sample_crypto [Received hello, Received kx] (sample_B, empty_world)) \<le> 2
    \<and> length (w_heap w) \<le> 1"
proof -
  obtain hello kx s w where run: "run_session sample_crypto [Received hello, Received kx] (sample_B, empty_world) = (s, w)"
    "ps_state s = ESTABLISHED" by (rule sample_history)
  from session_bounded [OF run(1)] run show ?thesis by (auto simp: departures_def empty_world_def)
qed

end
