(* ===== verification/Agreement.thy ===== *)
theory Agreement
  imports SessionBounds
begin

text \<open>
  Agreement of the two clients over a network that is not trusted: each session receives any
  sequence of messages, and the only assumption on them is that nobody forged a signature.
  What a session has signed is read off from the messages it sent. The guarantees are those
  the protocol gives once the signing keys are trusted, and the last theorem shows that
  trusting only one of them is not enough.
\<close>

section \<open>What a session signs\<close>

text \<open>
  The arguments of \<open>canonicalizeHandshake\<close> behind the signature of a message. The sender puts
  in the peer's key, its session being \<open>s\<close> after sending, and the receiver its own.
\<close>

definition handshake_fields :: "'r node_crypto \<Rightarrow> keyobj \<Rightarrow> jsval \<Rightarrow> canonical_fields" where
  "handshake_fields C recipientKey m =
     (if field m ''type'' = VStr KEY_EXCHANGE
      then exchange_fields (field m ''version'') (field m ''type'') (field m ''sender'') (field m ''recipient'')
             (field m ''sessionId'') (base64_decode (text_of (field m ''encryptedSessionKey'')))
             (nc_sha256 C (nc_export_spki_der C recipientKey))
      else ack_fields (field m ''version'') (field m ''type'') (field m ''sender'') (field m ''recipient'')
             (field m ''sessionId''))"

definition is_signed :: "jsval \<Rightarrow> bool" where
  "is_signed m \<longleftrightarrow> field m ''type'' \<in> {VStr KEY_EXCHANGE, VStr KEY_EXCHANGE_ACK}"

definition signed_by :: "'r node_crypto \<Rightarrow> peer_session \<Rightarrow> jsval \<Rightarrow> canonical_fields list" where
  "signed_by C s m = (if is_signed m then [handshake_fields C (the (ps_peerEncryptionPublicKey s)) m] else [])"

definition session_signs :: "'r node_crypto \<Rightarrow> session_event \<Rightarrow> peer_session \<times> 'r world \<Rightarrow> canonical_fields list" where
  "session_signs C ev sw = concat (map (signed_by C (fst (session_step C ev sw))) (session_sends C ev sw))"

fun signings :: "'r node_crypto \<Rightarrow> session_event list \<Rightarrow> peer_session \<times> 'r world \<Rightarrow> canonical_fields list" where
  "signings C [] sw = []"
| "signings C (ev # evs) sw = session_signs C ev sw @ signings C evs (session_step C ev sw)"

lemma run_session_snoc: "run_session C (evs @ [ev]) sw = session_step C ev (run_session C evs sw)"
  by (simp add: run_session_def)

lemma signings_snoc: "signings C (evs @ [ev]) sw = signings C evs sw @ session_signs C ev (run_session C evs sw)"
  by (induction evs arbitrary: sw) (simp_all add: run_session_def)

lemma session_signs_none: "session_sends C ev sw = [] \<Longrightarrow> session_signs C ev sw = []"
  by (simp add: session_signs_def)

lemma types_differ [simp]: "HELLO \<noteq> KEY_EXCHANGE" "HELLO \<noteq> KEY_EXCHANGE_ACK" "KEY_EXCHANGE_ACK \<noteq> KEY_EXCHANGE"
  by (simp_all add: js_def)

lemma signed_by_hello [simp]: "signed_by C s (own_hello C' self i) = []"
  by (simp add: signed_by_def is_signed_def)

lemma signed_by_hellos [simp]: "concat (map (signed_by C s) (own_hellos C' s')) = []"
  by (simp add: own_hellos_def)

section \<open>One step\<close>

text \<open>The fields of an exchange that offers \<open>key\<close> under the session ID \<open>sid\<close> to the holder of \<open>enc\<close>.\<close>

definition offers :: "'r node_crypto \<Rightarrow> canonical_fields \<Rightarrow> jsval \<Rightarrow> bytes \<Rightarrow> keyobj \<Rightarrow> bool" where
  "offers C f sid key enc \<longleftrightarrow> cf_type f = VStr KEY_EXCHANGE \<and> cf_sessionId f = sid
     \<and> cf_recipientEncryptionKeyFingerprint f = VBytes (nc_sha256 C (nc_export_spki_der C enc))
     \<and> (\<exists>ek r. cf_encryptedSessionKey f = VBytes ek \<and> fst (nc_publicEncrypt C enc key r) = Some ek)"

text \<open>What \<open>createKeyExchange\<close> puts into its message, and that the signature is for these fields.\<close>

lemma createKeyExchange_parts:
  assumes "createKeyExchange C s r (Some k) (Some enc) v w = (Inr (m, sid, a), w')"
  shows "\<exists>ek sg r' d r''. m = createKeyExchangeMessage s r (VStr sid) (VStr (base64_encode ek)) (VStr (base64_encode sg)) v
    \<and> fst (nc_publicEncrypt C enc (w_heap w' ! a) r') = Some ek
    \<and> canonicalizeHandshake (exchange_fields v (VStr KEY_EXCHANGE) s r (VStr sid) ek (nc_sha256 C (nc_export_spki_der C enc))) = Inr d
    \<and> fst (nc_sign C k d r'') = Some sg"
    and "sid = hex_encode (fst (nc_randomBytes C 16 (snd (nc_randomBytes C 32 (w_entropy w)))))"
    and "w_heap w' = w_heap w @ [fst (nc_randomBytes C 32 (w_entropy w))]"
proof -
  obtain key r1 where key: "nc_randomBytes C 32 (w_entropy w) = (key, r1)" by fastforce
  obtain ib r2 where ib: "nc_randomBytes C 16 r1 = (ib, r2)" by fastforce
  obtain x r3 where x: "rsaEncrypt C (Some enc) (VBytes key) r2 = (x, r3)" by fastforce
  note run = assms [unfolded createKeyExchange_def generateSessionKey_def generateSessionId_def
      SESSION_KEY_BYTES_def SESSION_ID_BYTES_def alloc_def, simplified key ib Let_def split_conv, simplified, simplified x split_conv]
  from run obtain ek where ek: "x = Inr ek" by (cases x) auto
  let ?bytes = "try_bind (publicKeyFingerprint C (Some enc)) (\<lambda>fp. canonicalizeHandshake
      (exchange_fields v (VStr KEY_EXCHANGE) s r (VStr (hex_encode ib)) ek fp))"
  from run obtain d where d: "?bytes = Inr d" unfolding ek by (cases ?bytes) simp_all
  then obtain fp where fp: "publicKeyFingerprint C (Some enc) = Inr fp"
    "canonicalizeHandshake (exchange_fields v (VStr KEY_EXCHANGE) s r (VStr (hex_encode ib)) ek fp) = Inr d" by auto
  obtain y r4 where y: "sign C (Some k) (VBytes d) r3 = (y, r4)" by fastforce
  from run d y obtain sg where sg: "y = Inr sg" unfolding ek by (cases y) simp_all
  from run d y have m: "m = createKeyExchangeMessage s r (VStr sid) (VStr (base64_encode ek)) (VStr (base64_encode sg)) v"
    and ids: "sid = hex_encode ib" "w_heap w' ! a = key" "w_heap w' = w_heap w @ [key]"
    unfolding ek sg by auto
  have "fst (nc_publicEncrypt C enc key r2) = Some ek" using rsaEncrypt_Inr [OF x [unfolded ek]] by simp
  moreover have "fst (nc_sign C k d r3) = Some sg"
    using y unfolding sg by (auto simp: sign_def assertRsaPrivateKey_def assertRsaKey_iff split: sum.splits if_splits option.splits prod.splits)
  moreover have "fp = nc_sha256 C (nc_export_spki_der C enc)" using fp(1) by (simp add: publicKeyFingerprint_Inr)
  ultimately show "\<exists>ek sg r' d r''. m = createKeyExchangeMessage s r (VStr sid) (VStr (base64_encode ek)) (VStr (base64_encode sg)) v
    \<and> fst (nc_publicEncrypt C enc (w_heap w' ! a) r') = Some ek
    \<and> canonicalizeHandshake (exchange_fields v (VStr KEY_EXCHANGE) s r (VStr sid) ek (nc_sha256 C (nc_export_spki_der C enc))) = Inr d
    \<and> fst (nc_sign C k d r'') = Some sg"
    using fp(2) m ids by blast
  show "sid = hex_encode (fst (nc_randomBytes C 16 (snd (nc_randomBytes C 32 (w_entropy w)))))"
    "w_heap w' = w_heap w @ [fst (nc_randomBytes C 32 (w_entropy w))]"
    using ids key ib by simp_all
qed

lemma createKeyExchangeAck_message:
  assumes "createKeyExchangeAck C s r sid sk v w = (Inr m, w')"
  shows "\<exists>sg. m = createKeyExchangeAckMessage s r sid (VStr (base64_encode sg)) v"
  using assms by (auto simp: createKeyExchangeAck_def split: prod.splits sum.splits)

lemma signed_exchange:
  assumes "createKeyExchange C s r (Some k) (Some enc) v w = (Inr (m, sid, a), w')"
    and "ps_peerEncryptionPublicKey s' = Some enc"
  shows "\<exists>f. signed_by C s' m = [f] \<and> offers C f (VStr sid) (w_heap w' ! a) enc"
  using createKeyExchange_parts(1) [OF assms(1)] assms(2)
  by (auto simp: createKeyExchangeMessage_def signed_by_def is_signed_def handshake_fields_def offers_def exchange_fields_def base64_decode_encode)

text \<open>An event that is ignored, and one that only makes the session send its HELLO.\<close>

definition quiet :: "'r node_crypto \<Rightarrow> session_event \<Rightarrow> peer_session \<times> 'r world \<Rightarrow> bool" where
  "quiet C ev sw \<longleftrightarrow> session_signs C ev sw = []
     \<and> (\<forall>sid key enc sig. case_prod session_phase (session_step C ev sw) = Offered sid key enc sig \<longrightarrow>
          case_prod session_phase sw = Offered sid key enc sig)"

lemma quiet_ignored:
  "handleMessage C m s w = (r, s, w) \<Longrightarrow> sent_messages r = [] \<Longrightarrow> quiet C (Received m) (s, w)"
  by (simp add: quiet_def session_signs_def)

lemma sent_reject [simp]: "oc_outgoing (ps_reject t) = []"
  by (simp add: ps_reject_def)

lemma quiet_presence:
  assumes "session_inv s w"
  shows "quiet C PeerJoined (s, w)" "quiet C PeerLeft (s, w)"
  using session_invD(1) [OF assms]
  by (simp_all add: quiet_def session_signs_def onPeerJoined_eq)
    (simp add: onPeerLeft_def ps_reset_def session_phase_def)

lemma quiet_invalid: "validateMessage C m \<noteq> Inr Valid \<Longrightarrow> quiet C (Received m) (s, w)"
  by (rule quiet_ignored [where r = "fst (handleMessage C m s w)"])
    (auto simp: handleMessage_def split: sum.splits validation.splits)

lemma initiator_hello:
  assumes C: "module_total C" and inv: "session_inv s w" and ini: "ps_selfId s = INITIATOR_ID"
    and v: "validateMessage C m = Inr Valid" "text_of (field m ''type'') = HELLO"
    and act: "field m ''sender'' = ps_peerId s" "ps_state s = NO_SESSION"
  shows "\<exists>f sid key enc sig. session_signs C (Received m) (s, w) = [f] \<and> offers C f sid key enc \<and> well_formed_texts f
    \<and> case_prod session_phase (session_step C (Received m) (s, w)) = Offered sid key enc sig"
proof -
  obtain enc sig where keys: "importPublicKey C (field m ''encryptionPublicKey'') = Inr enc"
    "importPublicKey C (field m ''signingPublicKey'') = Inr sig" "good_key PublicKey enc" "hello_schema C m"
    using hello_keys [OF v] by metis
  then have from_peer: "hello_from C (ps_peerId s) m enc sig" by (simp add: hello_from_def act(1))
  note invD = session_invD [OF inv]
  have short: "modulusLength enc \<le> OPENSSL_MAX_BITS"
    using C importPublicKey_parsed [OF keys(1)] by (auto simp: module_total_def no_long_keys_def)
  obtain kx sid a w' where ex: "createKeyExchange C client_A (ps_peerId s)
      (Some (kp_private (id_signing (ps_identity s)))) (Some enc) PROTOCOL_VERSION w = (Inr (kx, sid, a), w')"
    using createKeyExchange_total [OF C invD(3,4), of "kp_private (id_signing (ps_identity s))" enc w]
      invD(1) keys ini short by (auto simp: identity_ok_def INITIATOR_client_A)
  let ?s' = "(with_peer_keys enc sig s)\<lparr>ps_sessionId := VStr sid, ps_sessionKey := Some a, ps_state := KEY_SENT\<rparr>"
  have run: "handleMessage C m s w = (Inr (ps_result (own_hellos C s @ [kx]) (Some (js ''KEY_EXCHANGE_SENT'')) None), ?s', w')"
    using onHello_idle(2) [OF from_peer act(2) invD(1) ini ex] v by (simp add: handleMessage_def)
  have peer: "ps_peerEncryptionPublicKey ?s' = Some enc" by (simp add: with_peer_keys_def)
  obtain f where f: "signed_by C ?s' kx = [f]" "offers C f (VStr sid) (w_heap w' ! a) enc"
    using signed_exchange [OF ex peer] by blast
  have "matches_session_id sid"
    using createKeyExchange_result(2) [OF _ ex] C by (simp add: module_total_def)
  then have "well_formed sid" by (simp add: ascii_well_formed session_id_ascii)
  moreover have "cf_sender f = client_A" "cf_recipient f = ps_peerId s" "cf_sessionId f = VStr sid"
    using f(1) createKeyExchange_parts(1) [OF ex]
    by (auto simp: signed_by_def is_signed_def handshake_fields_def createKeyExchangeMessage_def exchange_fields_def)
  moreover have "well_formed (text_of (ps_peerId s))" using inv client_names(4,5) by (auto simp: session_inv_def)
  ultimately have "well_formed_texts f" by (simp add: well_formed_texts_def client_names(4))
  moreover have "session_signs C (Received m) (s, w) = [f]" by (simp add: session_signs_def run f(1))
  moreover have "case_prod session_phase (session_step C (Received m) (s, w)) = Offered (VStr sid) (w_heap w' ! a) enc sig"
    by (simp add: run session_phase_def with_peer_keys_def the_key_def)
  ultimately show ?thesis using f(2) by blast
qed

lemma quiet_ack:
  assumes "handleMessage C m s w = onKeyExchangeAck C m s w"
  shows "quiet C (Received m) (s, w)"
proof (cases "ps_selfId s = INITIATOR_ID \<and> ps_state s = KEY_SENT")
  case False
  then show ?thesis
    by (intro quiet_ignored [where r = "fst (handleMessage C m s w)"]) (auto simp: assms onKeyExchangeAck_def)
next
  case True
  then have "sent_messages (fst (onKeyExchangeAck C m s w)) = [] \<and>
    (\<forall>sid key enc sig. case_prod session_phase (snd (onKeyExchangeAck C m s w)) \<noteq> Offered sid key enc sig)"
    by (cases "verifyKeyExchangeAck C m (ps_peerId s) (VStr (ps_selfId s)) (ps_sessionId s) (ps_peerSigningPublicKey s)")
      (simp_all add: onKeyExchangeAck_def ps_fail_def session_phase_def Let_def)
  then show ?thesis by (simp add: quiet_def session_signs_def assms)
qed

lemma initiator_step:
  assumes C: "module_total C" and inv: "session_inv s w" and ini: "ps_selfId s = INITIATOR_ID"
  shows "quiet C ev (s, w) \<or>
    (\<exists>f sid key enc sig. session_signs C ev (s, w) = [f] \<and> offers C f sid key enc \<and> well_formed_texts f
      \<and> case_prod session_phase (session_step C ev (s, w)) = Offered sid key enc sig)"
proof (cases ev)
  case (Received m)
  let ?ty = "text_of (field m ''type'')"
  consider (invalid) "validateMessage C m \<noteq> Inr Valid"
    | (act) "validateMessage C m = Inr Valid" "?ty = HELLO" "field m ''sender'' = ps_peerId s" "ps_state s = NO_SESSION"
    | (ack) "handleMessage C m s w = onKeyExchangeAck C m s w"
    | (other) "validateMessage C m = Inr Valid" "?ty = HELLO \<longrightarrow> field m ''sender'' \<noteq> ps_peerId s \<or> ps_state s \<noteq> NO_SESSION"
        "?ty \<noteq> KEY_EXCHANGE_ACK"
    by (cases "validateMessage C m = Inr Valid"; cases "?ty = KEY_EXCHANGE_ACK") (auto simp: handleMessage_def)
  then show ?thesis
  proof cases
    case other
    with ini have "handleMessage C m s w = (fst (handleMessage C m s w), s, w) \<and> sent_messages (fst (handleMessage C m s w)) = []"
      by (cases "?ty = HELLO") (auto simp: handleMessage_def onHello_def onKeyExchange_def Let_def)
    then show ?thesis using quiet_ignored Received by blast
  qed (use initiator_hello [OF assms] quiet_invalid quiet_ack Received in blast)+
qed (use quiet_presence [OF inv] in simp_all)

lemma inv_parties:
  assumes "session_inv s w"
  shows "well_formed (ps_selfId s)" "well_formed (text_of (ps_peerId s))"
proof -
  have "well_formed (text_of (VStr (ps_selfId s)))"
    using assms client_names(4,5) unfolding session_inv_def by (metis empty_iff insert_iff prod.inject)
  then show "well_formed (ps_selfId s)" by simp
  show "well_formed (text_of (ps_peerId s))" using assms client_names(4,5) by (auto simp: session_inv_def)
qed

lemma responder_hello:
  assumes inv: "session_inv s w" and resp: "ps_selfId s \<noteq> INITIATOR_ID"
    and v: "validateMessage C m = Inr Valid" "text_of (field m ''type'') = HELLO"
  shows "session_signs C (Received m) (s, w) = []"
proof (cases "field m ''sender'' = ps_peerId s \<and> ps_state s = NO_SESSION")
  case False
  with v have "session_sends C (Received m) (s, w) = []" by (auto simp: handleMessage_def onHello_def)
  then show ?thesis by (rule session_signs_none)
next
  case True
  obtain enc sig where "importPublicKey C (field m ''encryptionPublicKey'') = Inr enc"
    "importPublicKey C (field m ''signingPublicKey'') = Inr sig" "hello_schema C m"
    using hello_keys [OF v] by metis
  with True have from_peer: "hello_from C (ps_peerId s) m enc sig" by (simp add: hello_from_def)
  have "handleMessage C m s w = onHello C m s w" using v by (simp add: handleMessage_def)
  with onHello_idle(1) [OF from_peer _ session_invD(1) [OF inv] resp] True show ?thesis
    by (simp add: session_signs_def)
qed

lemma responder_exchange:
  assumes inv: "session_inv s w" and C: "module_total C"
    and h: "handleMessage C m s w = onKeyExchange C m s w"
  shows "session_signs C (Received m) (s, w) = [] \<or>
    (\<exists>f key enc sig. session_signs C (Received m) (s, w) = [f] \<and> cf_type f = VStr KEY_EXCHANGE_ACK \<and> well_formed_texts f
      \<and> case_prod session_phase (session_step C (Received m) (s, w)) = Live (cf_sessionId f) key enc sig)"
proof (cases "ps_selfId s \<noteq> INITIATOR_ID \<and> ps_state s = HELLO_EXCHANGED")
  case False
  then have "session_sends C (Received m) (s, w) = []" by (auto simp: h onKeyExchange_def)
  then show ?thesis by (simp add: session_signs_none)
next
  case st: True
  note invD = session_invD [OF inv]
  let ?i = "ps_identity s"
  obtain enc sig where keys: "ps_peerEncryptionPublicKey s = Some enc" "ps_peerSigningPublicKey s = Some sig"
    using invD(2) st by (auto simp: has_peer_keys_def)
  obtain x w1 where x: "verifyKeyExchange C m (ps_peerId s) (VStr (ps_selfId s)) (Some sig)
      (Some (kp_public (id_encryption ?i))) (Some (kp_private (id_encryption ?i))) w = (x, w1)" by fastforce
  show ?thesis
  proof (cases x)
    case (Inl e)
    with st keys x have "session_sends C (Received m) (s, w) = []"
      by (simp add: h onKeyExchange_def ps_fail_def)
    then show ?thesis by (simp add: session_signs_none)
  next
    case (Inr y)
    then obtain v a where y: "x = Inr (v, a)" by (cases y) auto
    note acc = verifyKeyExchange_Inr [OF x [unfolded y]]
    obtain sid where sid: "v = VStr sid" "matches_session_id sid"
      using exchange_verified_sid [OF acc(1)] acc(2) by auto
    have priv: "good_key PrivateKey (kp_private (id_signing ?i))" using invD(1) by (simp add: identity_ok_def)
    obtain ack w2 where ack: "createKeyExchangeAck C (VStr (ps_selfId s)) (ps_peerId s) v
        (Some (kp_private (id_signing ?i))) PROTOCOL_VERSION w1 = (Inr ack, w2)"
      using createKeyExchangeAck_total [OF C invD(3,4) sid(2) priv, of w1] sid(1) by blast
    let ?s' = "s\<lparr>ps_sessionId := v, ps_sessionKey := Some a, ps_state := ESTABLISHED\<rparr>"
    let ?f = "ack_fields PROTOCOL_VERSION (VStr KEY_EXCHANGE_ACK) (VStr (ps_selfId s)) (ps_peerId s) v"
    have run: "handleMessage C m s w = (Inr (ps_result [ack] (Some (js ''ESTABLISHED'')) None), ?s', w2)"
      using st keys x y ack by (simp add: h onKeyExchange_def)
    have "signed_by C ?s' ack = [?f]"
      using createKeyExchangeAck_message [OF ack] by (auto simp: signed_by_def is_signed_def handshake_fields_def createKeyExchangeAckMessage_def)
    then have "session_signs C (Received m) (s, w) = [?f]" by (simp add: session_signs_def run)
    moreover note inv_parties [OF inv]
    then have "well_formed_texts ?f"
      using sid session_id_ascii [of sid] by (simp add: well_formed_texts_def ack_fields_def ascii_well_formed)
    moreover have "case_prod session_phase (session_step C (Received m) (s, w)) = Live v (the_key ?s' w2) enc sig"
      using keys by (simp add: run session_phase_def the_key_def)
    ultimately show ?thesis by (auto simp: ack_fields_def)
  qed
qed

lemma responder_step:
  assumes C: "module_total C" and inv: "session_inv s w" and resp: "ps_selfId s \<noteq> INITIATOR_ID"
  shows "session_signs C ev (s, w) = [] \<or>
    (\<exists>f key enc sig. session_signs C ev (s, w) = [f] \<and> cf_type f = VStr KEY_EXCHANGE_ACK \<and> well_formed_texts f
      \<and> case_prod session_phase (session_step C ev (s, w)) = Live (cf_sessionId f) key enc sig)"
proof (cases ev)
  case (Received m)
  let ?ty = "text_of (field m ''type'')"
  consider (invalid) "validateMessage C m \<noteq> Inr Valid" | (ack) "handleMessage C m s w = onKeyExchangeAck C m s w"
    | (hello) "validateMessage C m = Inr Valid" "?ty = HELLO" | (exchange) "handleMessage C m s w = onKeyExchange C m s w"
    | (other) "session_sends C ev (s, w) = []"
    by (cases "validateMessage C m = Inr Valid"; cases "?ty = HELLO"; cases "?ty = KEY_EXCHANGE"; cases "?ty = KEY_EXCHANGE_ACK")
      (simp_all add: handleMessage_def Received)
  then show ?thesis
  proof cases
    case exchange
    then show ?thesis using responder_exchange [OF inv C] Received by blast
  qed (use responder_hello [OF inv resp] quiet_invalid [of C m s w] quiet_ack [of C m s w] session_signs_none [of C ev "(s, w)"] Received in
      \<open>auto simp: quiet_def\<close>)
qed (use quiet_presence [OF inv] in \<open>simp_all add: quiet_def\<close>)

section \<open>Histories\<close>

text \<open>The phase a session is in after the first \<open>n\<close> events.\<close>

definition phase_after :: "'r node_crypto \<Rightarrow> session_event list \<Rightarrow> peer_session \<times> 'r world \<Rightarrow> nat \<Rightarrow> phase" where
  "phase_after C evs sw n = case_prod session_phase (run_session C (take n evs) sw)"

lemma phase_after_append: "n \<le> length evs \<Longrightarrow> phase_after C (evs @ evs') sw n = phase_after C evs sw n"
  by (simp add: phase_after_def)

text \<open>Whatever holds of a signature and the phase right after it holds at some time of the history.\<close>

lemma signings_history:
  assumes C: "module_total C" and fresh: "fresh_session s w"
    and step: "\<And>s1 w1 ev. session_inv s1 w1 \<Longrightarrow> same_client s s1 \<Longrightarrow> f \<in> set (session_signs C ev (s1, w1)) \<Longrightarrow>
      P (case_prod session_phase (session_step C ev (s1, w1)))"
    and f: "f \<in> set (signings C evs (s, w))"
  shows "\<exists>n \<le> length evs. P (phase_after C evs (s, w) n)"
  using f
proof (induction evs rule: rev_induct)
  case (snoc ev evs)
  obtain s1 w1 where s1: "run_session C evs (s, w) = (s1, w1)" by fastforce
  note inv = run_session_justified [OF C fresh s1]
  consider "f \<in> set (signings C evs (s, w))" | "f \<in> set (session_signs C ev (s1, w1))"
    using snoc.prems s1 by (auto simp: signings_snoc)
  then show ?case
  proof cases
    case 1
    from snoc.IH [OF this] obtain n where "n \<le> length evs" "P (phase_after C evs (s, w) n)" by blast
    then show ?thesis by (intro exI [of _ n]) (simp add: phase_after_append)
  next
    case 2
    with step inv have "P (case_prod session_phase (session_step C ev (s1, w1)))" by blast
    then show ?thesis
      by (intro exI [of _ "length (evs @ [ev])"]) (simp add: phase_after_def run_session_snoc s1)
  qed
qed simp

lemma initiator_signings:
  assumes "module_total C" "fresh_session s w" "ps_selfId s = INITIATOR_ID" "f \<in> set (signings C evs (s, w))"
  shows "\<exists>n \<le> length evs. well_formed_texts f
    \<and> (\<exists>sid key enc sig. offers C f sid key enc \<and> phase_after C evs (s, w) n = Offered sid key enc sig)"
proof (rule signings_history [OF assms(1,2) _ assms(4)])
  fix s1 ev and w1 :: "'a world"
  assume "session_inv s1 w1" "same_client s s1" "f \<in> set (session_signs C ev (s1, w1))"
  with initiator_step [OF assms(1), of s1 w1 ev] assms(3)
  show "well_formed_texts f \<and> (\<exists>sid key enc sig. offers C f sid key enc
      \<and> case_prod session_phase (session_step C ev (s1, w1)) = Offered sid key enc sig)"
    by (auto simp: quiet_def same_client_def)
qed

lemma responder_signings:
  assumes "module_total C" "fresh_session s w" "ps_selfId s \<noteq> INITIATOR_ID" "f \<in> set (signings C evs (s, w))"
  shows "\<exists>n \<le> length evs. well_formed_texts f \<and> cf_type f = VStr KEY_EXCHANGE_ACK
    \<and> (\<exists>key enc sig. phase_after C evs (s, w) n = Live (cf_sessionId f) key enc sig)"
proof (rule signings_history [OF assms(1,2) _ assms(4)])
  fix s1 ev and w1 :: "'a world"
  assume "session_inv s1 w1" "same_client s s1" "f \<in> set (session_signs C ev (s1, w1))"
  with responder_step [OF assms(1), of s1 w1 ev] assms(3)
  show "well_formed_texts f \<and> cf_type f = VStr KEY_EXCHANGE_ACK
      \<and> (\<exists>key enc sig. case_prod session_phase (session_step C ev (s1, w1)) = Live (cf_sessionId f) key enc sig)"
    by (auto simp: same_client_def)
qed

text \<open>A key that is offered or live at the initiator is the one of an exchange it has signed.\<close>

lemma initiator_offered:
  assumes C: "module_total C" and fresh: "fresh_session s w" and ini: "ps_selfId s = INITIATOR_ID"
    and phase: "phase_after C evs (s, w) (length evs) \<in> {Offered sid key enc sig, Live sid key enc sig}"
  shows "\<exists>f \<in> set (signings C evs (s, w)). offers C f sid key enc"
  using phase
proof (induction evs rule: rev_induct)
  case Nil
  with fresh_inv [OF fresh] show ?case by (simp add: phase_after_def run_session_def)
next
  case (snoc ev evs)
  obtain s1 w1 where s1: "run_session C evs (s, w) = (s1, w1)" by fastforce
  obtain s2 w2 where s2: "session_step C ev (s1, w1) = (s2, w2)" by fastforce
  note inv = run_session_justified [OF C fresh s1]
  have ini1: "ps_selfId s1 = INITIATOR_ID" using inv ini by (simp add: same_client_def)
  have q: "session_phase s2 w2 \<in> {Offered sid key enc sig, Live sid key enc sig}"
    using snoc.prems by (simp add: phase_after_def run_session_snoc s1 s2)
  have p: "phase_after C evs (s, w) (length evs) = session_phase s1 w1" by (simp add: phase_after_def s1)
  have mv: "move C (VStr (ps_selfId s1)) (ps_peerId s1) (ps_identity s1) (session_phase s1 w1) ev (session_phase s2 w2)"
    using session_step_good [OF C, of s1 w1 ev] inv s2 by (simp add: good_step_def)
  have just: "justified C (VStr (ps_selfId s1)) (ps_peerId s1) (ps_identity s1) (set evs) (session_phase s1 w1)"
    using inv by (simp add: same_client_def)
  have new: "session_phase s2 w2 = Offered sid key enc sig \<Longrightarrow>
      session_phase s1 w1 = Offered sid key enc sig \<or> (\<exists>f \<in> set (session_signs C ev (s1, w1)). offers C f sid key enc)"
    using initiator_step [OF C _ ini1, of w1 ev] inv s2 by (auto simp: quiet_def)
  have "session_phase s1 w1 \<in> {Offered sid key enc sig, Live sid key enc sig}
      \<or> (\<exists>f \<in> set (session_signs C ev (s1, w1)). offers C f sid key enc)"
    using mv q new just ini1 by (cases rule: move.cases) auto
  with snoc.IH p s1 show ?case by (auto simp: signings_snoc)
qed

section \<open>Agreement\<close>

text \<open>
  Nobody forged a signature: what verifies, at a client with identity \<open>i\<close>, under the key
  \<open>sigpub\<close> is one of the things that were signed.
\<close>

definition unforged ::
  "'r node_crypto \<Rightarrow> identity \<Rightarrow> keyobj \<Rightarrow> canonical_fields list \<Rightarrow> session_event list \<Rightarrow> bool" where
  "unforged C i sigpub fs evs \<longleftrightarrow>
     (\<forall>m d. Received m \<in> set evs \<longrightarrow> is_signed m \<longrightarrow>
        canonicalizeHandshake (handshake_fields C (kp_public (id_encryption i)) m) = Inr d \<longrightarrow>
        nc_verify C sigpub d (base64_decode (text_of (field m ''signature''))) = Some True \<longrightarrow>
        (\<exists>f \<in> set fs. canonicalizeHandshake f = Inr d))"

lemma unforged_mono: "unforged C i sigpub fs evs \<Longrightarrow> set evs' \<subseteq> set evs \<Longrightarrow> unforged C i sigpub fs evs'"
  unfolding unforged_def by blast

text \<open>The fingerprint tells the key \<open>k\<close> apart from the other encryption keys that were received.\<close>

definition told_apart :: "'r node_crypto \<Rightarrow> keyobj \<Rightarrow> jsval \<Rightarrow> session_event list \<Rightarrow> bool" where
  "told_apart C k peer evs \<longleftrightarrow>
     (\<forall>enc sig. greeted C peer (set evs) enc sig \<longrightarrow>
        nc_sha256 C (nc_export_spki_der C enc) = nc_sha256 C (nc_export_spki_der C k) \<longrightarrow> enc = k)"

lemma oaep_decrypts:
  assumes "oaep_pair C pub priv" "length key = 32" "fst (nc_publicEncrypt C pub key r) = Some ek"
  shows "nc_privateDecrypt C priv ek = Some key"
proof -
  have "3072 \<le> modulusLength pub" using assms(1) by (simp add: oaep_pair_def good_key_def MIN_MODULUS_LENGTH_def)
  then have "length key + 66 \<le> modulusLength pub div 8" using assms(2) by linarith
  then obtain c r' where "nc_publicEncrypt C pub key r = (Some c, r')" "nc_privateDecrypt C priv c = Some key"
    using assms(1) unfolding oaep_pair_def by blast
  with assms(3) show ?thesis by simp
qed

text \<open>The invariant and its consequences at every time of a history.\<close>

lemma phase_after_known:
  assumes C: "module_total C" and fresh: "fresh_session s w"
  shows "phase_after C evs (s, w) n = Offered sid key enc sig \<Longrightarrow>
      length key = 32 \<and> greeted C (ps_peerId s) (set evs) enc sig"
    and "phase_after C evs (s, w) n = Live sid key enc sig \<Longrightarrow>
      length key = 32 \<and> greeted C (ps_peerId s) (set evs) enc sig
      \<and> authenticated C (VStr (ps_selfId s)) (ps_peerId s) (ps_identity s) (set evs) sid key sig"
proof -
  obtain s1 w1 where s1: "run_session C (take n evs) (s, w) = (s1, w1)" by fastforce
  have inv: "session_inv s1 w1" and just: "justified C (VStr (ps_selfId s)) (ps_peerId s) (ps_identity s)
      (set evs) (session_phase s1 w1)"
    using run_session_justified [OF C fresh s1]
    by (blast, blast intro: justified_mono [OF _ set_take_subset])
  have key: "length (the_key s1 w1) = 32" if "ps_state s1 \<in> {KEY_SENT, ESTABLISHED}"
    using session_invD(2) [OF inv] that by (auto simp: live_key_def the_key_def)
  show "length key = 32 \<and> greeted C (ps_peerId s) (set evs) enc sig"
    if "phase_after C evs (s, w) n = Offered sid key enc sig"
    using just key that by (cases "ps_state s1") (auto simp: phase_after_def s1 session_phase_def Let_def)
  show "length key = 32 \<and> greeted C (ps_peerId s) (set evs) enc sig
      \<and> authenticated C (VStr (ps_selfId s)) (ps_peerId s) (ps_identity s) (set evs) sid key sig"
    if "phase_after C evs (s, w) n = Live sid key enc sig"
    using just key that by (cases "ps_state s1") (auto simp: phase_after_def s1 session_phase_def Let_def)
qed

text \<open>The two clients, from their start, with what their messages have in common with each other.\<close>

definition two_clients :: "'r node_crypto \<Rightarrow> peer_session \<Rightarrow> 'r world \<Rightarrow> peer_session \<Rightarrow> 'r world \<Rightarrow> bool" where
  "two_clients C sA wA sB wB \<longleftrightarrow> module_total C \<and> fresh_session sA wA \<and> fresh_session sB wB
     \<and> ps_selfId sA = INITIATOR_ID \<and> ps_selfId sB \<noteq> INITIATOR_ID"

lemma fresh_ends:
  assumes "fresh_session s w"
  shows "ps_selfId s = nameA \<and> ps_peerId s = client_B \<or> ps_selfId s = nameB \<and> ps_peerId s = client_A"
proof -
  obtain selfId i where s: "new_PeerSession selfId i = Inr s" "VStr selfId \<in> {client_A, client_B}"
    using assms by (auto simp: fresh_session_def)
  then have "selfId = nameA \<or> selfId = nameB" using names(1,2) by (metis insert_iff empty_iff jsval.inject(3))
  then show ?thesis using s(1) by (auto simp: new_sessions fresh_def)
qed

lemma two_clientsD:
  assumes "two_clients C sA wA sB wB"
  shows "module_total C" "fresh_session sA wA" "fresh_session sB wB" "ps_selfId sA = INITIATOR_ID"
    "ps_selfId sB \<noteq> INITIATOR_ID" "VStr (ps_selfId sA) = client_A" "ps_peerId sA = client_B"
    "VStr (ps_selfId sB) = client_B" "ps_peerId sB = client_A"
proof -
  show b: "module_total C" "fresh_session sA wA" "fresh_session sB wB" "ps_selfId sA = INITIATOR_ID"
    "ps_selfId sB \<noteq> INITIATOR_ID" using assms by (simp_all add: two_clients_def)
  show "VStr (ps_selfId sA) = client_A" "ps_peerId sA = client_B"
    using fresh_ends [OF b(2)] b(4) names by auto
  show "VStr (ps_selfId sB) = client_B" "ps_peerId sB = client_A"
    using fresh_ends [OF b(3)] b(5) names by auto
qed

text \<open>
  A key that is live at B under A's signing key was offered by A, under the same ID, and it
  is the one that the exchange A signed contains.
\<close>

lemma live_was_offered:
  assumes two: "two_clients C sA wA sB wB"
    and live: "phase_after C evB (sB, wB) n = Live sid key enc (kp_public (id_signing (ps_identity sA)))"
    and honest: "unforged C (ps_identity sB) (kp_public (id_signing (ps_identity sA))) (signings C evA (sA, wA)) evB"
    and pair: "oaep_pair C (kp_public (id_encryption (ps_identity sB))) (kp_private (id_encryption (ps_identity sB)))"
    and apart: "told_apart C (kp_public (id_encryption (ps_identity sB))) (ps_peerId sA) evA"
  shows "\<exists>f \<in> set (signings C evA (sA, wA)). offers C f sid key (kp_public (id_encryption (ps_identity sB)))
    \<and> (\<exists>k \<le> length evA. \<exists>sig. phase_after C evA (sA, wA) k
          = Offered sid key (kp_public (id_encryption (ps_identity sB))) sig)"
proof -
  note D = two_clientsD [OF two]
  let ?encB = "kp_public (id_encryption (ps_identity sB))" and ?sigA = "kp_public (id_signing (ps_identity sA))"
  have "client_B \<noteq> VStr INITIATOR_ID" using INITIATOR_client_A client_names(3) by simp
  then obtain m where m: "Received m \<in> set evB" "sid = field m ''sessionId''"
    and ver: "exchange_verified C m client_A client_B ?sigA ?encB (kp_private (id_encryption (ps_identity sB))) key"
    using phase_after_known(2) [OF D(1,3) live] D(8,9) by (auto simp: authenticated_def)
  let ?ek = "base64_decode (text_of (field m ''encryptedSessionKey''))"
  have schema: "exchange_schema KEY_EXCHANGE m" using ver by (simp add: exchange_verified_def)
  then have ty: "field m ''type'' = VStr KEY_EXCHANGE" by (simp add: exchange_schema_def handshake_envelope_def)
  let ?g = "handshake_fields C ?encB m"
  from ver ty obtain d where d: "canonicalizeHandshake ?g = Inr d"
    "nc_verify C ?sigA d (base64_decode (text_of (field m ''signature''))) = Some True"
    and dec: "nc_privateDecrypt C (kp_private (id_encryption (ps_identity sB))) ?ek = Some key"
    by (auto simp: exchange_verified_def handshake_fields_def)
  have wf: "well_formed_texts ?g"
    using ver ty session_id_field_ok [OF schema] client_names(4,5)
    by (auto simp: exchange_verified_def handshake_fields_def well_formed_texts_def exchange_fields_def)
  have "is_signed m" by (simp add: is_signed_def ty)
  with honest m(1) d obtain f where f: "f \<in> set (signings C evA (sA, wA))" "canonicalizeHandshake f = Inr d"
    unfolding unforged_def by blast
  obtain k sid' key' enc' sig' where k: "k \<le> length evA" "well_formed_texts f" "offers C f sid' key' enc'"
    "phase_after C evA (sA, wA) k = Offered sid' key' enc' sig'"
    using initiator_signings [OF D(1,2,4) f(1)] by blast
  note eq = same_bytes_fields [OF f(2) d(1) k(2) wf]
  have sid: "sid' = sid" using eq(4) k(3) ty m(2) by (simp add: offers_def handshake_fields_def exchange_fields_def)
  note known = phase_after_known(1) [OF D(1,2) k(4)]
  have "nc_sha256 C (nc_export_spki_der C enc') = nc_sha256 C (nc_export_spki_der C ?encB)"
    using eq(6) k(3) ty by (simp add: offers_def handshake_fields_def exchange_fields_def)
  with apart known have enc: "enc' = ?encB" unfolding told_apart_def by blast
  obtain r where "fst (nc_publicEncrypt C enc' key' r) = Some ?ek"
    using eq(5) k(3) ty by (auto simp: offers_def handshake_fields_def exchange_fields_def)
  with oaep_decrypts [OF pair, of key' r] known enc dec have "key' = key" by simp
  with k f(1) sid enc show ?thesis by blast
qed

text \<open>
  Property C15: the responder's guarantee. If client B is established under the signing key
  of client A, whatever the network did short of forging signatures, then client A offered
  exactly this key under exactly this session ID, and to B's encryption key.
\<close>

theorem responder_agreement:
  assumes "two_clients C sA wA sB wB"
    and "run_session C evB (sB, wB) = (sB', wB')" "ps_state sB' = ESTABLISHED"
    and "ps_peerSigningPublicKey sB' = Some (kp_public (id_signing (ps_identity sA)))"
    and "unforged C (ps_identity sB) (kp_public (id_signing (ps_identity sA))) (signings C evA (sA, wA)) evB"
    and "oaep_pair C (kp_public (id_encryption (ps_identity sB))) (kp_private (id_encryption (ps_identity sB)))"
    and "told_apart C (kp_public (id_encryption (ps_identity sB))) (ps_peerId sA) evA"
  shows "\<exists>k \<le> length evA. \<exists>sig. phase_after C evA (sA, wA) k
    = Offered (ps_sessionId sB') (the_key sB' wB') (kp_public (id_encryption (ps_identity sB))) sig"
proof -
  have "phase_after C evB (sB, wB) (length evB) = Live (ps_sessionId sB') (the_key sB' wB')
      (the (ps_peerEncryptionPublicKey sB')) (kp_public (id_signing (ps_identity sA)))"
    using assms(2-4) by (simp add: phase_after_def session_phase_def)
  from live_was_offered [OF assms(1) this assms(5-7)] show ?thesis by blast
qed

text \<open>
  Property C14: the initiator's guarantee. If client A is established under the signing key
  of client B, then B was established under the same session ID; and if B, for its part,
  had the signing key of A, the two have the same session key. Session IDs are assumed not
  to repeat in what A signs.
\<close>

theorem initiator_agreement:
  assumes two: "two_clients C sA wA sB wB"
    and run: "run_session C evA (sA, wA) = (sA', wA')" "ps_state sA' = ESTABLISHED"
    and trust: "ps_peerSigningPublicKey sA' = Some (kp_public (id_signing (ps_identity sB)))"
    and honestA: "unforged C (ps_identity sA) (kp_public (id_signing (ps_identity sB))) (signings C evB (sB, wB)) evA"
    and honestB: "unforged C (ps_identity sB) (kp_public (id_signing (ps_identity sA))) (signings C evA (sA, wA)) evB"
    and pair: "oaep_pair C (kp_public (id_encryption (ps_identity sB))) (kp_private (id_encryption (ps_identity sB)))"
    and apart: "told_apart C (kp_public (id_encryption (ps_identity sB))) (ps_peerId sA) evA"
    and ids: "inj_on cf_sessionId (set (signings C evA (sA, wA)))"
  shows "\<exists>k \<le> length evB. \<exists>key enc sig. phase_after C evB (sB, wB) k = Live (ps_sessionId sA') key enc sig
    \<and> (sig = kp_public (id_signing (ps_identity sA)) \<longrightarrow> key = the_key sA' wA')"
proof -
  note D = two_clientsD [OF two]
  let ?sigB = "kp_public (id_signing (ps_identity sB))" and ?sid = "ps_sessionId sA'"
  let ?encB = "kp_public (id_encryption (ps_identity sB))"
  obtain encA where phase: "phase_after C evA (sA, wA) (length evA) = Live ?sid (the_key sA' wA') encA ?sigB"
    using run trust by (simp add: phase_after_def session_phase_def)
  note live = phase_after_known(2) [OF D(1,2) phase]
  then obtain m where m: "Received m \<in> set evA" and ack: "ack_verified C m client_B client_A ?sid ?sigB"
    using D(4,6,7) by (auto simp: authenticated_def INITIATOR_client_A)
  from ack obtain d where schema: "exchange_schema KEY_EXCHANGE_ACK m" and sid: "field m ''sessionId'' = ?sid"
    and parties: "field m ''sender'' = client_B" "field m ''recipient'' = client_A"
    and d: "canonicalizeHandshake (ack_fields (field m ''version'') (VStr KEY_EXCHANGE_ACK) client_B client_A ?sid) = Inr d"
      "nc_verify C ?sigB d (base64_decode (text_of (field m ''signature''))) = Some True"
    by (auto simp: ack_verified_def)
  have ty: "field m ''type'' = VStr KEY_EXCHANGE_ACK" using schema by (simp add: exchange_schema_def handshake_envelope_def)
  let ?g = "handshake_fields C (kp_public (id_encryption (ps_identity sA))) m"
  have g: "?g = ack_fields (field m ''version'') (VStr KEY_EXCHANGE_ACK) client_B client_A ?sid"
    by (simp add: handshake_fields_def ty parties sid)
  have "is_signed m" by (simp add: is_signed_def ty)
  with honestA m d g obtain f where f: "f \<in> set (signings C evB (sB, wB))" "canonicalizeHandshake f = Inr d"
    unfolding unforged_def by metis
  obtain k key enc sig where k: "k \<le> length evB" "well_formed_texts f"
    "phase_after C evB (sB, wB) k = Live (cf_sessionId f) key enc sig"
    using responder_signings [OF D(1,3,5) f(1)] by blast
  have "well_formed_texts ?g"
    using session_id_field_ok [OF schema] client_names(4,5) by (simp add: g well_formed_texts_def ack_fields_def flip: sid)
  with same_bytes_fields(4) [OF f(2) d(1) k(2)] have id: "cf_sessionId f = ?sid" by (simp add: g) (simp add: ack_fields_def)
  have "key = the_key sA' wA'" if trusted: "sig = kp_public (id_signing (ps_identity sA))"
  proof -
    from live_was_offered [OF two k(3) [unfolded trusted id] honestB pair apart]
    obtain f1 where f1: "f1 \<in> set (signings C evA (sA, wA))" "offers C f1 ?sid key ?encB" by blast
    obtain f2 where f2: "f2 \<in> set (signings C evA (sA, wA))" "offers C f2 ?sid (the_key sA' wA') encA"
      using initiator_offered [OF D(1,2,4)] phase by blast
    have "f1 = f2" using ids f1 f2 by (auto simp: offers_def inj_on_def)
    with f1(2) f2(2) live apart have "encA = ?encB" unfolding told_apart_def offers_def by auto
    with f1(2) f2(2) \<open>f1 = f2\<close> live oaep_decrypts [OF pair] show ?thesis
      using phase_after_known(2) [OF D(1,3) k(3)] unfolding offers_def by (metis option.inject jsval.inject(6))
  qed
  then show ?thesis using k(1,3) id by (intro exI [of _ k]) auto
qed

section \<open>An honest history and one with an attacker\<close>

text \<open>The two histories of a scripted handshake, and what each side signs.\<close>

lemma scripted_A:
  assumes S: "scripted C S" and ack: "handleMessage C ack (sessA S 2) (sc_wA' S) = (r, sessA S 3, sc_wA' S)" "sent_messages r = []"
  shows "run_session C [Received (helloB C S), Received ack] (sessA S 0, sc_wA S) = (sessA S 3, sc_wA' S)"
    and "signings C [Received (helloB C S), Received ack] (sessA S 0, sc_wA S)
      = [handshake_fields C (kp_public (id_encryption (sc_iB S))) (sc_kx S)]"
proof -
  note hello = hello_reaches_A [OF S, of 0]
  show "run_session C [Received (helloB C S), Received ack] (sessA S 0, sc_wA S) = (sessA S 3, sc_wA' S)"
    by (simp add: run_session_def hello ack)
  have "is_signed (sc_kx S)"
    using scriptedD(5) [OF S] by (simp add: is_signed_def exchange_schema_def handshake_envelope_def)
  moreover have "ps_peerEncryptionPublicKey (sessA S 2) = Some (kp_public (id_encryption (sc_iB S)))"
    by (simp add: sessA_def with_peer_keys_def Let_def)
  ultimately show "signings C [Received (helloB C S), Received ack] (sessA S 0, sc_wA S)
      = [handshake_fields C (kp_public (id_encryption (sc_iB S))) (sc_kx S)]"
    using ack(2) by (simp add: session_signs_def hello ack(1) helloA_def signed_by_def [of _ _ "sc_kx S"])
qed

lemma scripted_B:
  assumes S: "scripted C S"
  shows "run_session C [Received (helloA C S), Received (sc_kx S)] (sessB S 0, sc_wB S) = (sessB S 3, sc_wB' S)"
    and "signings C [Received (helloA C S), Received (sc_kx S)] (sessB S 0, sc_wB S)
      = [handshake_fields C (kp_public (id_encryption (sc_iA S))) (sc_ack S)]"
proof -
  note steps = hello_reaches_B [OF S, of 0] exchange_reaches_B [OF S]
  show "run_session C [Received (helloA C S), Received (sc_kx S)] (sessB S 0, sc_wB S) = (sessB S 3, sc_wB' S)"
    by (simp add: run_session_def steps)
  have "is_signed (sc_ack S)"
    using scriptedD(6) [OF S] by (simp add: is_signed_def exchange_schema_def handshake_envelope_def)
  moreover have "ps_peerEncryptionPublicKey (sessB S 3) = Some (kp_public (id_encryption (sc_iA S)))"
    by (simp add: sessB_def with_peer_keys_def Let_def)
  ultimately show "signings C [Received (helloA C S), Received (sc_kx S)] (sessB S 0, sc_wB S)
      = [handshake_fields C (kp_public (id_encryption (sc_iA S))) (sc_ack S)]"
    by (simp add: session_signs_def steps helloB_def signed_by_def [of _ _ "sc_ack S"])
qed

lemma hello_not_signed: "\<not> is_signed (own_hello C self i)"
  by (simp add: is_signed_def)

lemma ack_fields_any_key:
  "exchange_schema KEY_EXCHANGE_ACK m \<Longrightarrow> handshake_fields C k m = handshake_fields C k' m"
  by (simp add: handshake_fields_def exchange_schema_def handshake_envelope_def)

lemma told_apart_script:
  assumes S: "scripted C S" and ack: "exchange_schema KEY_EXCHANGE_ACK ack"
    and sha: "nc_sha256 C (nc_export_spki_der C (kp_public (id_encryption (sc_iB S)))) = nc_sha256 C (nc_export_spki_der C k) \<longrightarrow>
      kp_public (id_encryption (sc_iB S)) = k"
  shows "told_apart C k client_B [Received (helloB C S), Received ack]"
proof -
  have "enc = kp_public (id_encryption (sc_iB S))" if "hello_from C client_B (helloB C S) enc sig" for enc sig
    using hello_from_own [OF scriptedD(2) [OF S] client_texts(2,4)] that by (simp add: hello_from_def helloB_def)
  moreover have "\<not> hello_from C client_B ack enc sig" for enc sig
    using ack by (auto simp: hello_from_def hello_schema_def exchange_schema_def handshake_envelope_def)
  ultimately show ?thesis using sha by (auto simp: told_apart_def greeted_def)
qed

lemma fresh_sessionI:
  assumes "identity_ok i" "w_heap w = []"
  shows "fresh_session (fresh nameA client_B i) w" "fresh_session (fresh nameB client_A i) w"
  using assms new_sessions names unfolding fresh_session_def by blast+

lemma two_clientsI:
  assumes "module_total C" "identity_ok iA" "identity_ok iB" "w_heap wA = []" "w_heap wB = []"
  shows "two_clients C (fresh nameA client_B iA) wA (fresh nameB client_A iB) wB"
  unfolding two_clients_def
  using assms(1) fresh_sessionI(1) [OF assms(2,4)] fresh_sessionI(2) [OF assms(3,5)] names(3,4) by (simp add: fresh_def)

lemma sess_start: "sessA S 0 = fresh nameA client_B (sc_iA S)" "sessB S 0 = fresh nameB client_A (sc_iB S)"
  by (simp_all add: sessA_def sessB_def Let_def)

lemma sent_ack: "sent_messages (Inr (ps_result [] e err)) = []"
  by simp

lemma honest_unforged:
  assumes "scripted C S"
  shows "unforged C (sc_iB S) sig (signings C [Received (helloB C S), Received (sc_ack S)] (sessA S 0, sc_wA S))
      [Received (helloA C S), Received (sc_kx S)]"
    and "unforged C (sc_iA S) sig (signings C [Received (helloA C S), Received (sc_kx S)] (sessB S 0, sc_wB S))
      [Received (helloB C S), Received (sc_ack S)]"
proof -
  show "unforged C (sc_iB S) sig (signings C [Received (helloB C S), Received (sc_ack S)] (sessA S 0, sc_wA S))
      [Received (helloA C S), Received (sc_kx S)]"
    unfolding scripted_A(2) [OF assms ack_reaches_A [OF assms] sent_ack]
    by (auto simp: unforged_def hello_not_signed helloA_def)
  show "unforged C (sc_iA S) sig (signings C [Received (helloA C S), Received (sc_kx S)] (sessB S 0, sc_wB S))
      [Received (helloB C S), Received (sc_ack S)]"
    unfolding scripted_B(2) [OF assms] by (auto simp: unforged_def hello_not_signed helloB_def)
qed

definition sample_A :: peer_session where "sample_A = fresh nameA client_B (sample_identity 1 2)"

lemma sample_honest:
  obtains S where "scripted sample_crypto S" "sessA S 0 = sample_A" "sessB S 0 = sample_B"
    "sc_wA S = empty_world" "sc_wB S = empty_world"
    "sc_iA S = sample_identity 1 2" "sc_iB S = sample_identity 3 4"
proof -
  have ok: "client_ok sample_crypto (sample_identity 1 2)" "client_ok sample_crypto (sample_identity 3 4)"
    by (rule sample_client, simp)+
  obtain S where S: "scripted sample_crypto S" "sc_iA S = sample_identity 1 2" "sc_iB S = sample_identity 3 4"
    "sc_wA S = empty_world" "sc_wB S = empty_world"
    by (rule script_exists [OF sample_pairs(1) ok])
  then show thesis using that by (simp add: sess_start sample_A_def sample_B_def)
qed

lemma sample_two: "two_clients sample_crypto sample_A empty_world sample_B empty_world"
  unfolding sample_A_def sample_B_def
  by (rule two_clientsI [OF sample_total]) (auto simp: empty_world_def intro!: client_okD(1) sample_client)

lemma sessA_established: "ps_state (sessA S 3) = ESTABLISHED" "ps_sessionId (sessA S 3) = VStr (sc_sid S)"
  "ps_peerSigningPublicKey (sessA S 3) = Some (kp_public (id_signing (sc_iB S)))"
  "ps_identity (sessA S a) = sc_iA S"
  by (simp_all add: sessA_def with_peer_keys_def fresh_def Let_def)

lemma sessB_established: "ps_state (sessB S 3) = ESTABLISHED" "ps_sessionId (sessB S 3) = VStr (sc_sid S)"
  "ps_peerSigningPublicKey (sessB S 3) = Some (kp_public (id_signing (sc_iA S)))"
  "ps_identity (sessB S b) = sc_iB S"
  by (simp_all add: sessB_def with_peer_keys_def fresh_def Let_def)

lemma script_keys: "scripted C S \<Longrightarrow> the_key (sessA S 3) (sc_wA' S) = sc_key S \<and> the_key (sessB S 3) (sc_wB' S) = sc_key S"
  by (simp add: the_key_def sessA_def sessB_def with_peer_keys_def Let_def scripted_def)

theorem responder_agreement_witness:
  "\<exists>evA evB sB wB k sig. run_session sample_crypto evB (sample_B, empty_world) = (sB, wB) \<and> ps_state sB = ESTABLISHED
    \<and> phase_after sample_crypto evA (sample_A, empty_world) k
        = Offered (ps_sessionId sB) (the_key sB wB) (sample_key PublicKey 3) sig"
proof -
  obtain S where S: "scripted sample_crypto S" "sessA S 0 = sample_A" "sessB S 0 = sample_B"
    "sc_wA S = empty_world" "sc_wB S = empty_world" "sc_iA S = sample_identity 1 2" "sc_iB S = sample_identity 3 4"
    by (rule sample_honest)
  note run = scripted_B(1) [OF S(1), unfolded S(3,5)] and honest = honest_unforged(1) [OF S(1), unfolded S(2,4)]
  have ids: "ps_identity sample_A = sample_identity 1 2" "ps_identity sample_B = sample_identity 3 4" "ps_peerId sample_A = client_B"
    by (simp_all add: sample_A_def sample_B_def fresh_def)
  have "told_apart sample_crypto (kp_public (id_encryption (sc_iB S))) client_B [Received (helloB sample_crypto S), Received (sc_ack S)]"
    by (rule told_apart_script [OF S(1) scriptedD(6) [OF S(1)]]) simp
  note agree = responder_agreement [OF sample_two run sessB_established(1) _ _ _ this [unfolded S(7), folded ids]]
  have "\<exists>k \<le> length [Received (helloB sample_crypto S), Received (sc_ack S)]. \<exists>sig.
      phase_after sample_crypto [Received (helloB sample_crypto S), Received (sc_ack S)] (sample_A, empty_world) k
        = Offered (ps_sessionId (sessB S 3)) (the_key (sessB S 3) (sc_wB' S))
            (kp_public (id_encryption (ps_identity sample_B))) sig"
    using agree honest sessB_established(3) [of S] by (simp add: ids S(6,7)) (simp add: sample_identity_def)
  then show ?thesis using run sessB_established(1) [of S] by (simp add: ids sample_identity_def) blast
qed

theorem initiator_agreement_witness:
  "\<exists>evA evB sA wA k key enc sig. run_session sample_crypto evA (sample_A, empty_world) = (sA, wA) \<and> ps_state sA = ESTABLISHED
    \<and> phase_after sample_crypto evB (sample_B, empty_world) k = Live (ps_sessionId sA) key enc sig
    \<and> (sig = sample_key PublicKey 2 \<longrightarrow> key = the_key sA wA)"
proof -
  obtain S where S: "scripted sample_crypto S" "sessA S 0 = sample_A" "sessB S 0 = sample_B"
    "sc_wA S = empty_world" "sc_wB S = empty_world" "sc_iA S = sample_identity 1 2" "sc_iB S = sample_identity 3 4"
    by (rule sample_honest)
  let ?evA = "[Received (helloB sample_crypto S), Received (sc_ack S)]"
  let ?evB = "[Received (helloA sample_crypto S), Received (sc_kx S)]"
  note A = scripted_A [OF S(1) ack_reaches_A [OF S(1)] sent_ack, unfolded S(2,4)]
  note honest = honest_unforged [OF S(1), unfolded S(2-7)]
  have ids: "ps_identity sample_A = sample_identity 1 2" "ps_identity sample_B = sample_identity 3 4" "ps_peerId sample_A = client_B"
    by (simp_all add: sample_A_def sample_B_def fresh_def)
  have apart: "told_apart sample_crypto (kp_public (id_encryption (sc_iB S))) client_B ?evA"
    by (rule told_apart_script [OF S(1) scriptedD(6) [OF S(1)]]) simp
  have trust: "ps_peerSigningPublicKey (sessA S 3) = Some (kp_public (id_signing (sample_identity 3 4)))"
    by (simp add: sessA_established(3) S(7))
  have pair: "oaep_pair sample_crypto (kp_public (id_encryption (sample_identity 3 4))) (kp_private (id_encryption (sample_identity 3 4)))"
    by (simp add: sample_identity_def)
  have one: "inj_on cf_sessionId (set (signings sample_crypto ?evA (sample_A, empty_world)))"
    unfolding A(2) by simp
  from initiator_agreement [OF sample_two A(1) sessA_established(1), unfolded ids, OF trust honest(2) honest(1) pair
      apart [unfolded S(7)] one] obtain k key enc sig where
    "phase_after sample_crypto ?evB (sample_B, empty_world) k = Live (ps_sessionId (sessA S 3)) key enc sig"
    "sig = kp_public (id_signing (sample_identity 1 2)) \<longrightarrow> key = the_key (sessA S 3) (sc_wA' S)" by blast
  moreover have "kp_public (id_signing (sample_identity 1 2)) = sample_key PublicKey 2" by (simp add: sample_identity_def)
  ultimately show ?thesis using A(1) sessA_established(1) [of S] by metis
qed

end
