(* ===== verification/AgreementLimits.thy ===== *)
theory AgreementLimits
  imports Agreement
begin

text \<open>
  Trust in the peer's signing key alone does not give the initiator agreement on the key: the
  acknowledgement names the session ID, but neither the key nor the keys of the initiator.
  An attacker who replaces only encryption keys towards A, and the keys of A towards B, ends
  with a key of its own on each side.
\<close>

section \<open>A module for the attack\<close>

text \<open>
  The sample module with session IDs that do not depend on the entropy, so that the attacker
  can use the ID it saw, and with fingerprints that tell the sample keys apart.
\<close>

definition attack_crypto :: "nat node_crypto" where
  "attack_crypto = sample_crypto\<lparr>
     nc_randomBytes := \<lambda>n r. (if n = 16 then replicate 16 0 else replicate n (of_nat r), r + 1),
     nc_sha256 := \<lambda>bs. take 32 (bs @ replicate 32 0)\<rparr>"

lemma attack_same [simp]:
  "oaep_pair attack_crypto = oaep_pair sample_crypto" "pss_pair attack_crypto = pss_pair sample_crypto"
  "pem_key attack_crypto = pem_key sample_crypto"
  by (simp_all add: fun_eq_iff oaep_pair_def pss_pair_def pem_key_def attack_crypto_def)

lemma attack_module: "module_ok attack_crypto"
  by (simp add: module_ok_def random_ok_def sha256_ok_def attack_crypto_def min_def)

lemma attack_total: "module_total attack_crypto"
  using sample_total attack_module
  by (simp add: module_total_def no_long_keys_def) (simp add: attack_crypto_def)

lemma attack_client: "e \<noteq> s \<Longrightarrow> client_ok attack_crypto (sample_identity e s)"
  using sample_client [of e s] by (simp add: client_ok_def Let_def)

lemma attack_fingerprint:
  "nc_sha256 attack_crypto (nc_export_spki_der attack_crypto (sample_key ty n)) = n # replicate 31 0"
  by (simp add: attack_crypto_def sample_crypto_def sample_key_def numeral_eq_Suc)

section \<open>The attack\<close>

text \<open>
  Client A gets a HELLO with the encryption key 8 of the attacker and the signing key 4 of
  client B; client B gets one with the keys 8 and 9 of the attacker in the name of A.
\<close>

lemma attack_scripts:
  obtains S T where
    "scripted attack_crypto S" "sc_iA S = sample_identity 1 2" "sc_iB S = sample_identity 8 4" "sc_wA S = empty_world"
    "scripted attack_crypto T" "sc_iA T = sample_identity 8 9" "sc_iB T = sample_identity 3 4" "sc_wB T = empty_world"
    "sc_wA T = \<lparr>w_entropy = 100, w_heap = []\<rparr>"
proof -
  have ok: "client_ok attack_crypto (sample_identity 1 2)" "client_ok attack_crypto (sample_identity 8 4)"
    "client_ok attack_crypto (sample_identity 8 9)" "client_ok attack_crypto (sample_identity 3 4)"
    by (rule attack_client, simp)+
  obtain S where "scripted attack_crypto S" "sc_iA S = sample_identity 1 2" "sc_iB S = sample_identity 8 4"
    "sc_wA S = empty_world" by (rule script_exists [OF attack_module ok(1,2)])
  moreover obtain T where "scripted attack_crypto T" "sc_iA T = sample_identity 8 9" "sc_iB T = sample_identity 3 4"
    "sc_wA T = \<lparr>w_entropy = 100, w_heap = []\<rparr>" "sc_wB T = empty_world" by (rule script_exists [OF attack_module ok(3,4)])
  ultimately show thesis using that by blast
qed

text \<open>IDs and keys in these scripts.\<close>

lemma attack_parts:
  assumes "scripted attack_crypto S"
  shows "sc_sid S = hex_encode (replicate 16 0)" "sc_key S = replicate 32 (of_nat (w_entropy (sc_wA S)))"
    and "sc_iA S = sample_identity e s \<Longrightarrow> \<exists>sg. field (sc_kx S) ''signature'' = VStr (base64_encode sg) \<and> take 1 sg = [s]"
proof -
  have kx: "createKeyExchange attack_crypto client_A client_B (Some (kp_private (id_signing (sc_iA S))))
      (Some (kp_public (id_encryption (sc_iB S)))) PROTOCOL_VERSION (sc_wA S)
      = (Inr (sc_kx S, sc_sid S, length (w_heap (sc_wA S))), sc_wA' S)"
    and heap: "w_heap (sc_wA' S) = w_heap (sc_wA S) @ [sc_key S]"
    using assms by (simp_all add: scripted_def)
  note parts = createKeyExchange_parts [OF kx]
  show "sc_sid S = hex_encode (replicate 16 0)" "sc_key S = replicate 32 (of_nat (w_entropy (sc_wA S)))"
    using parts(2,3) heap by (simp_all add: attack_crypto_def)
  assume iA: "sc_iA S = sample_identity e s"
  from parts(1) obtain ek sg d r where m: "sc_kx S = createKeyExchangeMessage client_A client_B (VStr (sc_sid S))
      (VStr (base64_encode ek)) (VStr (base64_encode sg)) PROTOCOL_VERSION"
    and sg: "fst (nc_sign attack_crypto (kp_private (id_signing (sc_iA S))) d r) = Some sg" by blast
  have "take 1 sg = [s]" using sg by (auto simp: iA sample_identity_def attack_crypto_def sample_crypto_def sample_key_def)
  moreover have "field (sc_kx S) ''signature'' = VStr (base64_encode sg)" by (simp add: m createKeyExchangeMessage_def)
  ultimately show "\<exists>sg. field (sc_kx S) ''signature'' = VStr (base64_encode sg) \<and> take 1 sg = [s]" by blast
qed

text \<open>A accepts the acknowledgement B made for the attacker: it names the same session ID.\<close>

lemma attack_ack:
  assumes S: "scripted attack_crypto S" "sc_iB S = sample_identity 8 4"
    and T: "scripted attack_crypto T" "sc_iB T = sample_identity 3 4"
  shows "handleMessage attack_crypto (sc_ack T) (sessA S 2) w = (Inr (ps_result [] (Some (js ''ESTABLISHED'')) None), sessA S 3, w)"
proof -
  have "sc_sid S = sc_sid T" using attack_parts(1) [OF S(1)] attack_parts(1) [OF T(1)] by simp
  moreover have "kp_public (id_signing (sc_iB S)) = kp_public (id_signing (sc_iB T))" by (simp add: S(2) T(2) sample_identity_def)
  ultimately have "verifyKeyExchangeAck attack_crypto (sc_ack T) client_B client_A (VStr (sc_sid S))
      (Some (kp_public (id_signing (sc_iB S)))) = Inr ()"
    using T(1) by (simp add: scripted_def)
  moreover have "handleMessage attack_crypto (sc_ack T) (sessA S 2) w = onKeyExchangeAck attack_crypto (sc_ack T) (sessA S 2) w"
    by (rule schema_handled(2) [OF scriptedD(6) [OF T(1)] refl])
  ultimately show ?thesis
    by (simp add: onKeyExchangeAck_def sessA_def fresh_def with_peer_keys_def Let_def names(3) INITIATOR_client_A)
qed

text \<open>
  Property C16: trust in B's signing key is not enough. There is a network without forged
  signatures in which everything \<open>initiator_agreement\<close> asks of A's side holds, both clients are
  established under the same session ID, A under the signing key of B, and the two session
  keys differ.
\<close>

theorem signing_key_not_enough:
  "\<exists>(C :: nat node_crypto) sA wA sB wB evA evB sA' wA' sB' wB'.
     two_clients C sA wA sB wB
   \<and> run_session C evA (sA, wA) = (sA', wA') \<and> ps_state sA' = ESTABLISHED
   \<and> run_session C evB (sB, wB) = (sB', wB') \<and> ps_state sB' = ESTABLISHED
   \<and> ps_peerSigningPublicKey sA' = Some (kp_public (id_signing (ps_identity sB)))
   \<and> unforged C (ps_identity sA) (kp_public (id_signing (ps_identity sB))) (signings C evB (sB, wB)) evA
   \<and> unforged C (ps_identity sB) (kp_public (id_signing (ps_identity sA))) (signings C evA (sA, wA)) evB
   \<and> oaep_pair C (kp_public (id_encryption (ps_identity sB))) (kp_private (id_encryption (ps_identity sB)))
   \<and> told_apart C (kp_public (id_encryption (ps_identity sB))) (ps_peerId sA) evA
   \<and> inj_on cf_sessionId (set (signings C evA (sA, wA)))
   \<and> ps_sessionId sA' = ps_sessionId sB' \<and> the_key sA' wA' \<noteq> the_key sB' wB'"
proof -
  obtain S T where S: "scripted attack_crypto S" "sc_iA S = sample_identity 1 2" "sc_iB S = sample_identity 8 4" "sc_wA S = empty_world"
    and T: "scripted attack_crypto T" "sc_iA T = sample_identity 8 9" "sc_iB T = sample_identity 3 4" "sc_wB T = empty_world"
      "sc_wA T = \<lparr>w_entropy = 100, w_heap = []\<rparr>"
    by (rule attack_scripts)
  let ?C = attack_crypto and ?evA = "[Received (helloB attack_crypto S), Received (sc_ack T)]"
    and ?evB = "[Received (helloA attack_crypto T), Received (sc_kx T)]"
  let ?sA = "sessA S 0" and ?sB = "sessB T 0"
  note A = scripted_A [OF S(1) attack_ack [OF S(1,3) T(1,3)] sent_ack] and B = scripted_B [OF T(1)]
  have ids: "ps_identity ?sA = sample_identity 1 2" "ps_identity ?sB = sample_identity 3 4" "ps_peerId ?sA = client_B"
    by (simp_all add: sessA_established(4) sessB_established(4) S T) (simp add: sess_start fresh_def)
  have "identity_ok (sample_identity 1 2)" "identity_ok (sample_identity 3 4)"
    by (rule client_okD(1) [OF attack_client], simp)+
  then have two: "two_clients ?C ?sA (sc_wA S) ?sB (sc_wB T)"
    unfolding sess_start S(2) T(3) by (rule two_clientsI [OF attack_total]) (simp_all add: S T empty_world_def)
  have keys: "kp_public (id_signing (sample_identity 1 2)) = sample_key PublicKey 2"
    "kp_public (id_encryption (sample_identity 3 4)) = sample_key PublicKey 3" by (simp_all add: sample_identity_def)
  have trust: "ps_peerSigningPublicKey (sessA S 3) = Some (kp_public (id_signing (ps_identity ?sB)))"
    unfolding sessA_established(3) S(3) ids by (simp add: sample_identity_def)
  have honestA: "unforged ?C (ps_identity ?sA) sig (signings ?C ?evB (?sB, sc_wB T)) ?evA" for sig
    using ack_fields_any_key [OF scriptedD(6) [OF T(1)], of ?C "kp_public (id_encryption (sc_iA T))"
        "kp_public (id_encryption (sample_identity 1 2))"]
    unfolding B(2) ids by (auto simp: unforged_def hello_not_signed helloB_def)
  have honestB: "unforged ?C (ps_identity ?sB) (kp_public (id_signing (ps_identity ?sA))) fs ?evB" for fs
    using attack_parts(3) [OF T(1,2)] unfolding ids keys
    by (auto simp: unforged_def hello_not_signed helloA_def base64_decode_encode attack_crypto_def sample_crypto_def sample_key_def)
  have apart: "told_apart ?C (kp_public (id_encryption (ps_identity ?sB))) (ps_peerId ?sA) ?evA"
    unfolding ids keys
    by (rule told_apart_script [OF S(1) scriptedD(6) [OF T(1)]]) (simp add: S(3) attack_fingerprint sample_identity_def)
  have pair: "oaep_pair ?C (kp_public (id_encryption (ps_identity ?sB))) (kp_private (id_encryption (ps_identity ?sB)))"
    unfolding ids by (simp add: sample_identity_def)
  have one: "inj_on cf_sessionId (set (signings ?C ?evA (?sA, sc_wA S)))" unfolding A(2) by simp
  have "sc_sid S = sc_sid T" using attack_parts(1) [OF S(1)] attack_parts(1) [OF T(1)] by simp
  then have sid: "ps_sessionId (sessA S 3) = ps_sessionId (sessB T 3)"
    unfolding sessA_established(2) sessB_established(2) by simp
  have "sc_key S \<noteq> sc_key T"
    unfolding attack_parts(2) [OF S(1)] attack_parts(2) [OF T(1)] S(4) T(5) by (simp add: empty_world_def)
  then have diff: "the_key (sessA S 3) (sc_wA' S) \<noteq> the_key (sessB T 3) (sc_wB' T)"
    using script_keys [OF S(1)] script_keys [OF T(1)] by simp
  from two A(1) sessA_established(1) B(1) sessB_established(1) trust honestA honestB pair apart one sid diff
  show ?thesis by (intro exI conjI)
qed

end
