(* ===== verification/SessionLimits.thy ===== *)
theory SessionLimits
  imports SessionProperties
begin

text \<open>
  Where the session's promises end, without any assumption on the crypto module: a buffer
  that no session refers to is never written again; the key of an exchange whose creation
  fails is such a buffer; and a peer key above 8192 bits, which HELLO accepts, leads to a
  KEY_EXCHANGE that no one accepts. And one more promise: the departure of the peer brings
  back the new session.
\<close>

section \<open>Buffers that are never written again\<close>

definition abandoned :: "nat \<Rightarrow> bytes \<Rightarrow> peer_session \<times> 'r world \<Rightarrow> bool" where
  "abandoned a bs = (\<lambda>(s, w). a < length (w_heap w) \<and> w_heap w ! a = bs \<and> ps_sessionKey s \<noteq> Some a)"

lemma createKeyExchange_heap:
  "createKeyExchange C s r sk pk v w = (x, w') \<Longrightarrow> \<exists>key. w_heap w' = w_heap w @ [key]"
  by (auto simp: createKeyExchange_def alloc_def Let_def split: prod.splits sum.splits)

lemma createKeyExchange_keeps:
  assumes "createKeyExchange C s r sk pk v w = (x, w')" "a < length (w_heap w)"
  shows "a < length (w_heap w') \<and> w_heap w' ! a = w_heap w ! a \<and> (\<forall>m sid b. x = Inr (m, sid, b) \<longrightarrow> b \<noteq> a)"
  using assms
  by (auto simp: createKeyExchange_def alloc_def Let_def nth_append split: prod.splits sum.splits)

lemma createKeyExchangeAck_heap:
  "createKeyExchangeAck C s r sid sk v w = (x, w') \<Longrightarrow> w_heap w' = w_heap w"
  by (auto simp: createKeyExchangeAck_def split: prod.splits sum.splits)

lemma verifyKeyExchange_keeps:
  assumes "verifyKeyExchange C m s r sk pk epk w = (x, w')" "a < length (w_heap w)"
  shows "a < length (w_heap w') \<and> w_heap w' ! a = w_heap w ! a \<and> (\<forall>sid b. x = Inr (sid, b) \<longrightarrow> b \<noteq> a)"
  using assms
  by (auto simp: verifyKeyExchange_def alloc_def fill0_def nth_append nth_list_update Let_def
      split: prod.splits sum.splits if_splits)

lemma abandoned_fill0: "abandoned a bs (s, w) \<Longrightarrow> abandoned a bs
    (s', case ps_sessionKey s of Some b \<Rightarrow> fill0 b w | None \<Rightarrow> w) \<longleftrightarrow> ps_sessionKey s' \<noteq> Some a"
  by (auto simp: abandoned_def fill0_def nth_list_update split: option.splits)

lemma abandoned_fail: "abandoned a bs (s, w) \<Longrightarrow> abandoned a bs (snd (ps_fail e s w))"
  by (simp add: ps_fail_def abandoned_fill0)

lemma ownHelloOnce_key: "ps_sessionKey (snd (ownHelloOnce C s)) = ps_sessionKey s"
  by (simp add: ownHelloOnce_def)

lemma onHello_abandoned:
  assumes "abandoned a bs (s, w)"
  shows "abandoned a bs (snd (onHello C msg s w))"
proof -
  have lt: "a < length (w_heap w)" "w_heap w ! a = bs" "ps_sessionKey s \<noteq> Some a"
    using assms by (simp_all add: abandoned_def)
  have own: "ps_sessionKey s3 = ps_sessionKey s" if "ownHelloOnce C s2 = (r, s3)" "ps_sessionKey s2 = ps_sessionKey s"
    for s2 r s3
    using ownHelloOnce_key [of C s2] that by simp
  show ?thesis
    by (auto simp: onHello_def Let_def assms split: sum.split prod.split
        dest!: own createKeyExchange_keeps [OF _ lt(1)] intro!: abandoned_fail)
      (use lt in \<open>auto simp: abandoned_def\<close>)
qed

lemma onKeyExchange_abandoned:
  assumes "abandoned a bs (s, w)"
  shows "abandoned a bs (snd (onKeyExchange C msg s w))"
proof -
  have lt: "a < length (w_heap w)" "w_heap w ! a = bs" "ps_sessionKey s \<noteq> Some a"
    using assms by (simp_all add: abandoned_def)
  show ?thesis
    by (auto simp: onKeyExchange_def Let_def assms split: sum.split prod.split
        dest!: verifyKeyExchange_keeps [OF _ lt(1)] createKeyExchangeAck_heap intro!: abandoned_fail)
      (use lt in \<open>auto simp: abandoned_def\<close>)
qed

lemma onKeyExchangeAck_abandoned:
  "abandoned a bs (s, w) \<Longrightarrow> abandoned a bs (snd (onKeyExchangeAck C msg s w))"
  by (auto simp: onKeyExchangeAck_def abandoned_fail split: sum.split) (auto simp: abandoned_def)

lemma session_step_abandoned: "abandoned a bs x \<Longrightarrow> abandoned a bs (session_step C ev x)"
proof (cases x)
  case (Pair s w)
  assume "abandoned a bs x"
  then have ab: "abandoned a bs (s, w)" by (simp add: Pair)
  show ?thesis
  proof (cases ev)
    case PeerJoined
    have "ps_sessionKey (snd (ownHelloOnce C s)) = ps_sessionKey s" by (rule ownHelloOnce_key)
    with ab PeerJoined Pair show ?thesis by (simp add: onPeerJoined_def abandoned_def case_prod_beta)
  next
    case PeerLeft
    with ab Pair show ?thesis by (simp add: onPeerLeft_def ps_reset_def abandoned_fill0)
  next
    case (Received msg)
    with ab Pair onHello_abandoned [OF ab] onKeyExchange_abandoned [OF ab] onKeyExchangeAck_abandoned [OF ab]
    show ?thesis by (simp add: handleMessage_def Let_def split: sum.split validation.split)
  qed
qed

interpretation keeper: machine "session_step C" "abandoned a bs" for C :: "'r node_crypto" and a bs
  by unfold_locales (rule session_step_abandoned)

section \<open>An initiator that answers a HELLO\<close>

text \<open>A new initiator, and the HELLO of its peer with the keys \<open>enc\<close> and \<open>sig\<close>.\<close>

definition greeted_initiator ::
  "'r node_crypto \<Rightarrow> peer_session \<Rightarrow> jsval \<Rightarrow> keyobj \<Rightarrow> keyobj \<Rightarrow> bool" where
  "greeted_initiator C s m enc sig \<longleftrightarrow>
     ps_selfId s = INITIATOR_ID \<and> ps_peerId s = client_B \<and> identity_ok (ps_identity s)
     \<and> ps_state s = NO_SESSION \<and> ps_sessionKey s = None \<and> hello_from C client_B m enc sig"

lemma hello_handled_at_idle:
  assumes "greeted_initiator C s m enc sig"
  shows "handleMessage C m s w = onHello C m s w"
proof -
  have schema: "hello_schema C m" using assms by (simp add: greeted_initiator_def hello_from_def)
  then have ty: "field m ''type'' = VStr HELLO" "\<not> not_object m"
    by (auto simp: hello_schema_def handshake_envelope_def)
  then have "validateMessage C m = Inr Valid" using validate_hello_iff [of m C] schema by simp
  with ty show ?thesis by (simp add: handleMessage_def)
qed

lemma onHello_create_fails:
  assumes "greeted_initiator C s m enc sig"
    and "createKeyExchange C client_A client_B (Some (kp_private (id_signing (ps_identity s)))) (Some enc)
        PROTOCOL_VERSION w = (Inl e, w')"
  shows "onHello C m s w = ps_fail e (with_peer_keys enc sig s) w'"
proof -
  have g: "ps_selfId s = INITIATOR_ID" "ps_peerId s = client_B" "identity_ok (ps_identity s)"
    "ps_state s = NO_SESSION" "field m ''sender'' = client_B"
    "importPublicKey C (field m ''encryptionPublicKey'') = Inr enc"
    "importPublicKey C (field m ''signingPublicKey'') = Inr sig"
    using assms(1) by (simp_all add: greeted_initiator_def hello_from_def)
  let ?s2 = "s\<lparr>ps_peerEncryptionPublicKey := Some enc, ps_peerSigningPublicKey := Some sig,
    ps_state := HELLO_EXCHANGED\<rparr>"
  have "ownHelloOnce C ?s2 = (Inr (own_hellos C s), with_peer_keys enc sig s)"
    by (subst ownHelloOnce_ok) (simp_all add: g own_hellos_def with_peer_keys_def)
  moreover have "ps_selfId (with_peer_keys enc sig s) = INITIATOR_ID" "ps_peerId (with_peer_keys enc sig s) = client_B"
    "ps_identity (with_peer_keys enc sig s) = ps_identity s"
    "ps_peerEncryptionPublicKey (with_peer_keys enc sig s) = Some enc"
    by (simp_all add: with_peer_keys_def g)
  ultimately show ?thesis
    using assms(2) by (simp add: onHello_def g Let_def INITIATOR_client_A)
qed

text \<open>
  Property C39: the key of a failed exchange is left in memory. If encryption to the peer's
  key fails, as OpenSSL does beyond 16384 bits, the initiator rejects the HELLO and its session
  fails; the new session key stays in a buffer that the session does not refer to, and no
  later event, not even the departure of the peer, overwrites it.
\<close>

theorem failed_exchange_leaks:
  assumes "greeted_initiator C s m enc sig" "random_ok C" "\<And>p r. fst (nc_publicEncrypt C enc p r) = None"
    and "nc_randomBytes C 32 (w_entropy w) = (key, r1)" "handleMessage C m s w = (r, s', w')"
  shows "r = Inr (ps_reject (js ''Handshake failed.'')) \<and> ps_state s' = FAILED \<and> ps_sessionKey s' = None
    \<and> w_heap w' = w_heap w @ [key]
    \<and> (\<forall>evs. abandoned (length (w_heap w)) key (run_session C evs (s', w')))"
proof -
  have good: "good_key PublicKey enc"
    using assms(1) importPublicKey_good by (auto simp: greeted_initiator_def hello_from_def)
  then have big: "(3072 :: rat) \<le> of_nat (modulusLength enc)"
    by (simp add: good_key_def MIN_MODULUS_LENGTH_def of_nat_le_iff [symmetric])
  have key: "length key = 32" by (rule random_length [OF assms(2,4)])
  obtain ib r2 where ib: "nc_randomBytes C 16 r1 = (ib, r2)" by fastforce
  obtain r3 where "nc_publicEncrypt C enc key r2 = (None, r3)" using assms(3) by (metis prod.collapse)
  then have "rsaEncrypt C (Some enc) (VBytes key) r2 = (Inl NodeError, r3)"
    using good big key
    by (auto simp: rsaEncrypt_def maxPlaintextLength_def assertRsaPublicKey_def OAEP_HASH_BYTES_def)
  then have create: "createKeyExchange C client_A client_B (Some (kp_private (id_signing (ps_identity s)))) (Some enc)
      PROTOCOL_VERSION w = (Inl NodeError, w\<lparr>w_heap := w_heap w @ [key], w_entropy := r3\<rparr>)"
    by (simp add: createKeyExchange_def generateSessionKey_def generateSessionId_def SESSION_KEY_BYTES_def
        SESSION_ID_BYTES_def assms(4) ib alloc_def)
  have none: "ps_sessionKey (with_peer_keys enc sig s) = None"
    using assms(1) by (simp add: greeted_initiator_def with_peer_keys_def)
  have "handleMessage C m s w = ps_fail NodeError (with_peer_keys enc sig s) (w\<lparr>w_heap := w_heap w @ [key], w_entropy := r3\<rparr>)"
    using hello_handled_at_idle [OF assms(1)] onHello_create_fails [OF assms(1) create] by simp
  with assms(5) have res: "r = Inr (ps_reject (js ''Handshake failed.''))"
    "s' = (with_peer_keys enc sig s)\<lparr>ps_sessionKey := None, ps_state := FAILED\<rparr>"
    "w' = w\<lparr>w_heap := w_heap w @ [key], w_entropy := r3\<rparr>"
    by (simp_all add: ps_fail_def none)
  then have "abandoned (length (w_heap w)) key (s', w')" by (simp add: abandoned_def)
  then have "abandoned (length (w_heap w)) key (run_session C evs (s', w'))" for evs
    unfolding run_session_def by (rule keeper.inv_run)
  with res show ?thesis by simp
qed

text \<open>Two keys that survive their PEM form make such a HELLO.\<close>

lemma greeted_by_keys:
  assumes "identity_ok iA" "pem_key C (kp_public (id_encryption iB))" "pem_key C (kp_public (id_signing iB))"
    and "kp_public (id_encryption iB) \<noteq> kp_public (id_signing iB)"
  shows "greeted_initiator C (fresh nameA client_B iA) (own_hello C client_B iB)
    (kp_public (id_encryption iB)) (kp_public (id_signing iB))"
proof -
  have "validateMessage C (own_hello C client_B iB) = Inr Valid"
    using hello_valid [OF client_texts(2,4) assms(2-4)] by (simp add: own_hello_def)
  then have "hello_schema C (own_hello C client_B iB)"
    using validate_hello_iff [OF valid_not_not_object, of C "own_hello C client_B iB" C] by simp
  with assms(1-3) show ?thesis
    by (simp add: greeted_initiator_def fresh_def hello_from_def importPublicKey_export names)
qed

definition deaf_crypto :: "nat node_crypto" where
  "deaf_crypto = sample_crypto\<lparr>nc_publicEncrypt := (\<lambda>k p r. (None, r))\<rparr>"

theorem failed_exchange_leaks_witness:
  "\<exists>s w. run_session deaf_crypto [Received (own_hello deaf_crypto client_B (sample_identity 3 4)), PeerLeft]
      (fresh nameA client_B (sample_identity 1 2), empty_world) = (s, w)
    \<and> w_heap w ! 0 = replicate 32 5"
proof -
  let ?m = "own_hello deaf_crypto client_B (sample_identity 3 4)" and ?s = "fresh nameA client_B (sample_identity 1 2)"
  have "pem_key deaf_crypto k = pem_key sample_crypto k" for k by (simp add: pem_key_def deaf_crypto_def)
  moreover have "identity_ok (sample_identity 1 2)" by (rule client_okD(1)) (rule sample_client, simp)
  moreover have "sample_key PublicKey 3 \<noteq> sample_key PublicKey 4" by (simp add: sample_key_def)
  ultimately have g: "greeted_initiator deaf_crypto ?s ?m (sample_key PublicKey 3) (sample_key PublicKey 4)"
    using greeted_by_keys [of "sample_identity 1 2" deaf_crypto "sample_identity 3 4"] by (simp add: sample_identity_def)
  obtain r s' w' where step: "handleMessage deaf_crypto ?m ?s empty_world = (r, s', w')" by (metis surj_pair)
  have "random_ok deaf_crypto" "nc_randomBytes deaf_crypto 32 (w_entropy empty_world) = (replicate 32 5, 6)"
    by (simp_all add: random_ok_def deaf_crypto_def sample_crypto_def empty_world_def)
  from failed_exchange_leaks [OF g this(1) _ this(2) step] have
    "abandoned 0 (replicate 32 5) (run_session deaf_crypto [PeerLeft] (s', w'))"
    by (simp add: deaf_crypto_def empty_world_def)
  moreover have "run_session deaf_crypto [Received ?m, PeerLeft] (?s, empty_world) = run_session deaf_crypto [PeerLeft] (s', w')"
    by (simp add: run_session_def step)
  ultimately show ?thesis
    by (cases "run_session deaf_crypto [PeerLeft] (s', w')") (auto simp: abandoned_def)
qed

section \<open>Keys above 8192 bits\<close>

lemma createKeyExchange_ciphertext:
  "createKeyExchange C s r sk (Some enc) v w = (Inr (kx, sid, a), w') \<Longrightarrow>
    \<exists>ek sg p e e'. kx = createKeyExchangeMessage s r (VStr sid) (VStr (base64_encode ek)) (VStr sg) v
      \<and> rsaEncrypt C (Some enc) p e = (Inr ek, e')"
  by (auto simp: createKeyExchange_def Let_def split: prod.splits sum.splits)

lemma large_exchange_invalid:
  assumes "createKeyExchange C client_A client_B sk (Some enc) PROTOCOL_VERSION w = (Inr (kx, sid, a), w')"
    and "\<And>p r c r'. nc_publicEncrypt C enc p r = (Some c, r') \<Longrightarrow> 1024 < length c"
  shows "\<exists>reason. validateMessage C kx = Inr (Invalid reason)"
proof -
  obtain ek sg where kx: "kx = createKeyExchangeMessage client_A client_B (VStr sid) (VStr (base64_encode ek)) (VStr sg) PROTOCOL_VERSION"
    and ek: "1024 < length ek"
    using createKeyExchange_ciphertext [OF assms(1)] rsaEncrypt_Inr assms(2) by metis
  have f: "field kx ''type'' = VStr KEY_EXCHANGE" "\<not> not_object kx" "field kx ''version'' = PROTOCOL_VERSION"
    "field kx ''encryptedSessionKey'' = VStr (base64_encode ek)"
    by (simp_all add: kx createKeyExchangeMessage_def)
  have "\<not> isRsaOutputField (field kx ''encryptedSessionKey'')" using ek by (simp add: f(4))
  then have "\<not> exchange_schema KEY_EXCHANGE kx"
    unfolding isRsaOutputField_iff exchange_schema_def by auto
  then have "validateMessage C kx \<noteq> Inr Valid" using validate_exchange_iff [OF f(2,1), of C] by simp
  moreover have "\<not> throws_on kx"
    by (simp add: throws_on_def f unsupported_version_def)
  then have "validateMessage C kx \<noteq> Inl e" for e by (simp add: validate_Inl_iff)
  ultimately show ?thesis
    by (metis sum.exhaust validation.exhaust)
qed

text \<open>
  Property C38: a peer key above 8192 bits is accepted and cannot be used. HELLO validation
  bounds the text of a key and its strength from below; with a longer key of the peer the
  initiator accepts the HELLO, sends a KEY_EXCHANGE and waits in state KEY_SENT, but the
  message it sent is not valid: its ciphertext is longer than validation allows, so no server
  relays it and no peer accepts it.
\<close>

theorem large_key_refused:
  assumes "module_total C" "greeted_initiator C s m enc sig"
    and "\<And>p r c r'. nc_publicEncrypt C enc p r = (Some c, r') \<Longrightarrow> length c = (modulusLength enc + 7) div 8"
    and "8192 < modulusLength enc"
  shows "\<exists>oc s' w' kx reason. handleMessage C m s w = (Inr oc, s', w') \<and> ps_state s' = KEY_SENT \<and> oc_error oc = None
    \<and> last (oc_outgoing oc) = kx \<and> validateMessage C kx = Inr (Invalid reason)"
proof -
  have g: "ps_selfId s = INITIATOR_ID" "ps_peerId s = client_B" "identity_ok (ps_identity s)"
    "ps_state s = NO_SESSION" "hello_from C (ps_peerId s) m enc sig" "good_key PublicKey enc"
    using assms(2) importPublicKey_good by (auto simp: greeted_initiator_def hello_from_def)
  have "modulusLength enc \<le> OPENSSL_MAX_BITS"
    using assms(1) g(5) importPublicKey_parsed [of C "field m ''encryptionPublicKey''" enc]
    by (auto simp: module_total_def no_long_keys_def hello_from_def)
  from createKeyExchange_total [OF assms(1) client_texts(1,2) _ g(6) this, of "kp_private (id_signing (ps_identity s))" w]
  obtain kx sid a w' where ex: "createKeyExchange C client_A client_B (Some (kp_private (id_signing (ps_identity s))))
      (Some enc) PROTOCOL_VERSION w = (Inr (kx, sid, a), w')"
    using g(3) by (auto simp: identity_ok_def)
  have "1024 < length c" if "nc_publicEncrypt C enc p r = (Some c, r')" for p r c r'
    using assms(3) [OF that] div_le_mono [of "8200" "modulusLength enc + 7" 8] assms(4) by simp
  then have "\<exists>reason. validateMessage C kx = Inr (Invalid reason)" by (rule large_exchange_invalid [OF ex])
  then obtain reason where "validateMessage C kx = Inr (Invalid reason)" by blast
  moreover have "handleMessage C m s w =
      (Inr (ps_result (own_hellos C s @ [kx]) (Some (js ''KEY_EXCHANGE_SENT'')) None),
       (with_peer_keys enc sig s)\<lparr>ps_sessionId := VStr sid, ps_sessionKey := Some a, ps_state := KEY_SENT\<rparr>, w')"
    using onHello_idle(2) [OF g(5,4,3,1)] ex hello_handled_at_idle [OF assms(2)] by (simp add: g(2))
  moreover have "oc_error (ps_result (own_hellos C s @ [kx]) (Some (js ''KEY_EXCHANGE_SENT'')) None) = None"
    by (simp add: ps_result_def)
  ultimately show ?thesis by fastforce
qed

definition big_key :: "8 word \<Rightarrow> keyobj" where
  "big_key n = (sample_key PublicKey n)\<lparr>modulusLength := 16384\<rparr>"

definition big_crypto :: "nat node_crypto" where
  "big_crypto = sample_crypto\<lparr>nc_publicEncrypt := (\<lambda>k p r. (Some (replicate (modulusLength k div 8) 0), r)),
     nc_createPublicKey := (\<lambda>t. map_option (\<lambda>k. k\<lparr>modulusLength := 16384\<rparr>) (sample_parse t))\<rparr>"

lemma big_module: "module_total big_crypto" "pem_key big_crypto (big_key n)"
proof -
  have "module_ok big_crypto" using sample_pairs(1) by (simp add: module_ok_def random_ok_def sha256_ok_def big_crypto_def)
  moreover have "no_long_keys big_crypto"
    by (auto simp: no_long_keys_def big_crypto_def OPENSSL_MAX_BITS_def)
  moreover have "\<exists>s r'. nc_sign big_crypto k d r = (Some s, r')" for k d r by (simp add: big_crypto_def sample_crypto_def)
  moreover have "k div 8 < (2 :: nat) ^ 32" if "k \<le> 16384" for k :: nat
    using div_le_mono [OF that, of 8] by simp
  ultimately show "module_total big_crypto"
    by (simp add: module_total_def OPENSSL_MAX_BITS_def) (simp add: big_crypto_def)
  show "pem_key big_crypto (big_key n)"
    using sample_pem_key [of n]
    by (simp add: pem_key_def big_crypto_def big_key_def sample_crypto_def sample_pem_def)
      (simp add: good_key_def sample_key_def MIN_MODULUS_LENGTH_def)
qed

theorem large_key_refused_witness:
  "\<exists>m oc s w. handleMessage big_crypto m (fresh nameA client_B (sample_identity 1 2)) empty_world = (Inr oc, s, w)
    \<and> ps_state s = KEY_SENT \<and> validateMessage big_crypto (last (oc_outgoing oc)) \<noteq> Inr Valid"
proof -
  let ?iB = "\<lparr>id_encryption = \<lparr>kp_public = big_key 3, kp_private = sample_key PrivateKey 3\<rparr>,
    id_signing = \<lparr>kp_public = big_key 4, kp_private = sample_key PrivateKey 4\<rparr>\<rparr>"
  have "identity_ok (sample_identity 1 2)" by (rule client_okD(1)) (rule sample_client, simp)
  moreover have "big_key 3 \<noteq> big_key 4" by (simp add: big_key_def sample_key_def)
  ultimately have g: "greeted_initiator big_crypto (fresh nameA client_B (sample_identity 1 2))
      (own_hello big_crypto client_B ?iB) (big_key 3) (big_key 4)"
    using greeted_by_keys [of "sample_identity 1 2" big_crypto ?iB] big_module(2) by simp
  have "nc_publicEncrypt big_crypto (big_key 3) p r = (Some c, r') \<Longrightarrow> length c = (modulusLength (big_key 3) + 7) div 8" for p r c r'
    by (auto simp: big_crypto_def big_key_def)
  from large_key_refused [OF big_module(1) g this, where w = empty_world] show ?thesis
    by (fastforce simp: big_key_def)
qed

section \<open>The departure of the peer\<close>

text \<open>
  The departure of the peer brings back the new session. After any history of a session, \<open>onPeerLeft\<close> returns exactly the session the constructor made, and every buffer
  that ever held a key is filled with zeros; what follows is a first handshake again.
\<close>

lemma departure_renews:
  assumes "module_total C" "fresh_session s w" "run_session C (evs @ [PeerLeft]) (s, w) = (s', w')"
  shows "s' = s \<and> (\<forall>a < length (w_heap w'). zeroed w' a)"
proof -
  obtain s1 w1 where mid: "run_session C evs (s, w) = (s1, w1)" by fastforce
  have end_run: "onPeerLeft s1 w1 = (s', w')" using assms(3) mid by (simp add: run_session_def)
  have same: "same_client s s1" using run_session_justified [OF assms(1,2) mid] by blast
  have "session_inv s' w'" using run_session_justified [OF assms(1-3)] by blast
  moreover have "ps_state s' = NO_SESSION" using end_run by (auto simp: onPeerLeft_def ps_reset_def)
  ultimately have "\<forall>a < length (w_heap w'). zeroed w' a" by (auto simp: session_inv_def)
  moreover have "s' = s"
    using end_run same assms(2)
    by (cases s) (auto simp: onPeerLeft_def ps_reset_def same_client_def fresh_session_def new_PeerSession_def
        split: if_splits)
  ultimately show ?thesis by blast
qed

end
