(* ===== verification/Reconnection.thy ===== *)
theory Reconnection
  imports SessionLimits Agreement
begin

text \<open>
  A client leaves and another one takes its slot. If no message of the old session is still
  on its way, the handshake of the new pair succeeds in every order of events, whatever
  happened before. If the two messages of the initiator are still on their way, relayed by
  slot as they are, the new pair never gets a session, in any order of events.
\<close>

section \<open>After a departure\<close>

text \<open>A session that is new, or whose peer has just left.\<close>

definition renewed :: "'r node_crypto \<Rightarrow> peer_session \<Rightarrow> 'r world \<Rightarrow> peer_session \<Rightarrow> 'r world \<Rightarrow> bool" where
  "renewed C s w s' w' \<longleftrightarrow> (\<exists>evs. (evs = [] \<or> last evs = PeerLeft) \<and> run_session C evs (s, w) = (s', w'))"

lemma renewed_new:
  assumes "module_total C" "fresh_session s w" "renewed C s w s' w'"
  shows "s' = s \<and> (\<forall>a < length (w_heap w'). zeroed w' a)"
proof -
  obtain evs where evs: "evs = [] \<or> last evs = PeerLeft" "run_session C evs (s, w) = (s', w')"
    using assms(3) by (auto simp: renewed_def)
  show ?thesis
  proof (cases "evs = []")
    case True
    with evs(2) assms(2) show ?thesis by (simp add: run_session_def fresh_session_def)
  next
    case False
    with evs(1) have "evs = butlast evs @ [PeerLeft]" by (metis append_butlast_last_id)
    with evs(2) have "run_session C (butlast evs @ [PeerLeft]) (s, w) = (s', w')" by simp
    from departure_renews [OF assms(1,2) this] show ?thesis .
  qed
qed

lemma new_session_fresh:
  assumes "client_ok C i" "new_PeerSession self i = Inr s" "self = nameA \<or> self = nameB" "w_heap w = []"
  shows "fresh_session s w"
  using assms client_okD(1) names(1,2) unfolding fresh_session_def by blast



section \<open>Stale messages\<close>

text \<open>
  The new client B with messages for the old one: after \<open>p\<close> messages from A, the first two of
  which were meant for the old B, and with \<open>a\<close> messages sent by A since.
\<close>

definition stalled_B :: "'r script \<Rightarrow> nat \<Rightarrow> bool \<Rightarrow> peer_session" where
  "stalled_B S p joined =
     (if p = 0 then sessB S (of_bool joined) else if p = 1 then sessB S 2 else (sessB S 2)\<lparr>ps_state := FAILED\<rparr>)"

definition meant_for_B :: "'r node_crypto \<Rightarrow> 'r script \<Rightarrow> jsval \<Rightarrow> nat \<Rightarrow> jsval list" where
  "meant_for_B C S kx a = [helloA C S, kx] @ take a [helloA C S, sc_kx S]"

definition stalled :: "'r node_crypto \<Rightarrow> 'r script \<Rightarrow> jsval \<Rightarrow> nat \<Rightarrow> nat \<Rightarrow> bool \<Rightarrow> bool \<Rightarrow> 'r world \<Rightarrow> 'r net" where
  "stalled C S kx p a ja jb wB =
     \<lparr>net_A = (sessA S a, if a < 2 then sc_wA S else sc_wA' S), net_B = (stalled_B S p jb, wB),
      net_toA = (if (jb \<or> 1 \<le> p) \<and> a < 2 then [helloB C S] else []),
      net_toB = drop p (meant_for_B C S kx a),
      net_joinedA = ja, net_joinedB = jb\<rparr>"

definition stalled_ok :: "nat \<Rightarrow> nat \<Rightarrow> bool \<Rightarrow> bool \<Rightarrow> bool" where
  "stalled_ok p a ja jb \<longleftrightarrow> a \<le> 2 \<and> p \<le> 2 + a \<and> (a = 2 \<longrightarrow> jb \<or> 1 \<le> p) \<and> (ja \<longrightarrow> 1 \<le> a) \<and> (a = 1 \<longrightarrow> ja)"

definition steps_made :: "nat \<Rightarrow> nat \<Rightarrow> bool \<Rightarrow> bool \<Rightarrow> nat" where
  "steps_made p a ja jb = p + of_bool ja + of_bool jb + of_bool (a = 2)"

lemma stalled_sel [simp]:
  "net_A (stalled C S kx p a ja jb wB) = (sessA S a, if a < 2 then sc_wA S else sc_wA' S)"
  "net_B (stalled C S kx p a ja jb wB) = (stalled_B S p jb, wB)"
  "net_joinedA (stalled C S kx p a ja jb wB) = ja" "net_joinedB (stalled C S kx p a ja jb wB) = jb"
  by (simp_all add: stalled_def)

text \<open>What A sends goes to the end of the line.\<close>

lemma meant_for_B_length [simp]: "length (meant_for_B C S kx a) = 2 + min a 2"
  by (simp add: meant_for_B_def)

lemma meant_for_B_more:
  assumes "p \<le> 2 + a" "a \<le> b" "b \<le> 2"
  shows "drop p (meant_for_B C S kx a) @ drop a (take b [helloA C S, sc_kx S]) = drop p (meant_for_B C S kx b)"
proof -
  let ?sent = "[helloA C S, sc_kx S]"
  have "take a ?sent @ drop a (take b ?sent) = take b ?sent"
    using assms(2) append_take_drop_id [of a "take b ?sent"] by (simp add: min_def)
  then have "meant_for_B C S kx b = meant_for_B C S kx a @ drop a (take b ?sent)"
    unfolding meant_for_B_def by (metis append_assoc)
  moreover have "p \<le> length (meant_for_B C S kx a)" using assms by simp
  ultimately show ?thesis by simp
qed

text \<open>A failed session ignores everything.\<close>

lemma sessB_fields:
  "ps_identity (sessB S b) = sc_iB S" "ps_selfId (sessB S b) = nameB" "ps_peerId (sessB S b) = client_A"
  "ps_state (sessB S 2) = HELLO_EXCHANGED" "ps_helloSent (sessB S 2)" "ps_sessionKey (sessB S 2) = None"
  "ps_peerSigningPublicKey (sessB S 2) = Some (kp_public (id_signing (sc_iA S)))"
  by (simp_all add: sessB_def fresh_def with_peer_keys_def Let_def)

lemma unheard_hello:
  assumes "scripted C S" "ps_state s \<noteq> NO_SESSION"
  shows "\<exists>t. handleMessage C (helloA C S) s w = (Inr (ps_reject t), s, w)"
proof -
  have "handleMessage C (helloA C S) s w = onHello C (helloA C S) s w"
    unfolding helloA_def by (rule hello_handled [OF scriptedD(1) [OF assms(1)] client_texts(1,3)])
  then show ?thesis using assms(2) by (auto simp: onHello_def)
qed

lemma unheard_exchange:
  assumes "exchange_schema KEY_EXCHANGE m" "ps_state s \<noteq> HELLO_EXCHANGED"
  shows "\<exists>t. handleMessage C m s w = (Inr (ps_reject t), s, w)"
  using schema_handled(1) [OF assms(1) refl, of C s w] assms(2) by (auto simp: onKeyExchange_def)

text \<open>An exchange for another key fails the session.\<close>

lemma stale_exchange:
  assumes "exchange_schema KEY_EXCHANGE kx"
    and "\<exists>e v. verifyKeyExchange C kx client_A client_B (Some (kp_public (id_signing (sc_iA S))))
      (Some (kp_public (id_encryption (sc_iB S)))) (Some (kp_private (id_encryption (sc_iB S)))) w = (Inl e, v)"
  shows "\<exists>t v. handleMessage C kx (sessB S 2) w = (Inr (ps_reject t), (sessB S 2)\<lparr>ps_state := FAILED\<rparr>, v)"
proof -
  have key: "(sessB S 2)\<lparr>ps_state := FAILED, ps_sessionKey := None\<rparr> = (sessB S 2)\<lparr>ps_state := FAILED\<rparr>"
    using sessB_fields(6) [of S] by (cases "sessB S 2") simp
  from assms(2) key schema_handled(1) [OF assms(1) refl, of C "sessB S 2" w] show ?thesis
    by (auto simp: onKeyExchange_def sessB_fields names(2,4) ps_fail_def Let_def)
qed

text \<open>What B makes of the next message from A.\<close>

lemma stalled_hears:
  assumes S: "scripted C S" and kx: "exchange_schema KEY_EXCHANGE kx"
    and wrong: "\<And>w. \<exists>e v. verifyKeyExchange C kx client_A client_B (Some (kp_public (id_signing (sc_iA S))))
      (Some (kp_public (id_encryption (sc_iB S)))) (Some (kp_private (id_encryption (sc_iB S)))) w = (Inl e, v)"
    and m: "p < 2 + a" "a \<le> 2" "m = meant_for_B C S kx a ! p"
  shows "\<exists>oc v. handleMessage C m (stalled_B S p jb) w = (Inr oc, stalled_B S (Suc p) jb, v)
    \<and> oc_outgoing oc = (if p = 0 \<and> \<not> jb then [helloB C S] else [])"
proof -
  consider (first) "p = 0" | (second) "p = 1" | (later) "2 \<le> p" by linarith
  then show ?thesis
  proof cases
    case first
    then have "m = helloA C S" using m(3) by (simp add: meant_for_B_def)
    with hello_reaches_B [OF S, of "of_bool jb" w] first show ?thesis by (cases jb) (simp_all add: stalled_B_def)
  next
    case second
    then have "m = kx" using m(3) by (simp add: meant_for_B_def)
    with stale_exchange [OF kx wrong] second show ?thesis by (fastforce simp: stalled_B_def ps_reject_def)
  next
    case later
    have st: "stalled_B S p jb = (sessB S 2)\<lparr>ps_state := FAILED\<rparr>" "stalled_B S (Suc p) jb = (sessB S 2)\<lparr>ps_state := FAILED\<rparr>"
      using later by (simp_all add: stalled_B_def)
    have "m = helloA C S \<or> m = sc_kx S"
      using m later by (cases "p = 2"; cases "a = 1"; auto simp: meant_for_B_def nth_append take_Cons' less_Suc_eq numeral_eq_Suc split: if_splits)
    then have "\<exists>t. handleMessage C m ((sessB S 2)\<lparr>ps_state := FAILED\<rparr>) w = (Inr (ps_reject t), (sessB S 2)\<lparr>ps_state := FAILED\<rparr>, w)"
      using unheard_hello [OF S, of "(sessB S 2)\<lparr>ps_state := FAILED\<rparr>" w]
        unheard_exchange [OF scriptedD(5) [OF S], of "(sessB S 2)\<lparr>ps_state := FAILED\<rparr>" C w] by auto
    with later show ?thesis unfolding st by (auto simp: ps_reject_def)
  qed
qed

lemma stalled_step:
  assumes S: "scripted C S" and kx: "exchange_schema KEY_EXCHANGE kx"
    and wrong: "\<And>w. \<exists>e v. verifyKeyExchange C kx client_A client_B (Some (kp_public (id_signing (sc_iA S))))
      (Some (kp_public (id_encryption (sc_iB S)))) (Some (kp_private (id_encryption (sc_iB S)))) w = (Inl e, v)"
    and ok: "stalled_ok p a ja jb" and step: "net_step C (stalled C S kx p a ja jb wB) n"
  shows "\<exists>p' a' ja' jb' wB'. stalled_ok p' a' ja' jb' \<and> n = stalled C S kx p' a' ja' jb' wB'
    \<and> steps_made p a ja jb < steps_made p' a' ja' jb'"
proof -
  have le: "a \<le> 3" "p \<le> 2 + a" "a \<le> 2" using ok by (simp_all add: stalled_ok_def)
  from step show ?thesis
  proof (cases rule: net_step.cases)
    case (joinA r sw)
    have "n = stalled C S kx p (if a = 0 then 1 else a) True jb wB"
    proof (cases "a = 0")
      case True
      then have "drop p (meant_for_B C S kx 0) @ [helloA C S] = drop p (meant_for_B C S kx 1)"
        using meant_for_B_more [of p 0 1 C S kx] le(2) by simp
      with True show ?thesis using joinA joins(1) [OF S le(1), of 0] by (auto simp: stalled_def)
    next
      case False
      then show ?thesis using joinA ok joins(1) [OF S le(1), of 0] by (auto simp: stalled_def stalled_ok_def)
    qed
    moreover have "stalled_ok p (if a = 0 then 1 else a) True jb" using ok by (auto simp: stalled_ok_def)
    moreover have "\<not> ja" using joinA(2) by simp
    ultimately show ?thesis
      by (intro exI [of _ p] exI [of _ "if a = 0 then 1 else a"] exI [of _ True] exI [of _ jb] exI [of _ wB])
        (auto simp: steps_made_def)
  next
    case (joinB r sw)
    then have jb: "\<not> jb" by simp
    have "onPeerJoined C (stalled_B S p jb) wB =
        (Inr (ps_result (if p = 0 then [helloB C S] else []) None None), stalled_B S p True, wB)"
    proof (cases "p = 0")
      case True
      then show ?thesis using jb joins(2) [OF S, of 0 0] by (simp add: stalled_B_def)
    next
      case False
      then have "ps_helloSent (stalled_B S p jb)" "ps_identity (stalled_B S p jb) = sc_iB S" "stalled_B S p True = stalled_B S p jb"
        by (simp_all add: stalled_B_def sessB_fields)
      moreover from this have "(stalled_B S p jb)\<lparr>ps_helloSent := True\<rparr> = stalled_B S p jb" by (cases "stalled_B S p jb") simp
      ultimately show ?thesis using False scriptedD(4) [OF S] by (simp add: onPeerJoined_eq own_hellos_def)
    qed
    then have "n = stalled C S kx p a ja True wB" using joinB jb ok by (auto simp: stalled_def stalled_ok_def)
    moreover have "stalled_ok p a ja True" using ok by (auto simp: stalled_ok_def)
    ultimately show ?thesis using jb
      by (intro exI [of _ p] exI [of _ a] exI [of _ ja] exI [of _ True] exI [of _ wB]) (auto simp: steps_made_def)
  next
    case (deliverA msg rest r sw)
    then have a: "a < 2" "msg = helloB C S" "rest = []" "jb \<or> 1 \<le> p" by (auto simp: stalled_def split: if_splits)
    have sent: "drop p (meant_for_B C S kx a) @ (if a = 0 then [helloA C S, sc_kx S] else [sc_kx S])
        = drop p (meant_for_B C S kx 2)"
      using meant_for_B_more [of p a 2 C S kx] le(2) a(1) by (cases "a = 0") (auto simp: less_Suc_eq numeral_2_eq_2)
    from hello_reaches_A [OF S a(1)] deliverA a have "n = stalled C S kx p 2 ja jb wB"
      unfolding stalled_def sent [symmetric] by (cases "a = 0") (auto simp: stalled_def)
    moreover have "stalled_ok p 2 ja jb" using ok a by (auto simp: stalled_ok_def)
    ultimately show ?thesis using a(1)
      by (intro exI [of _ p] exI [of _ 2] exI [of _ ja] exI [of _ jb] exI [of _ wB]) (simp add: steps_made_def)
  next
    case (deliverB msg rest r sw)
    let ?M = "meant_for_B C S kx a"
    have queue: "drop p ?M = msg # rest" using deliverB(2) by (simp add: stalled_def)
    then have p: "p < length ?M" by (metis drop_all list.distinct(1) not_le)
    then have m: "msg = ?M ! p" "rest = drop (Suc p) ?M" using queue by (metis Cons_nth_drop_Suc list.inject)+
    from p le(3) have p': "p < 2 + a" by simp
    from stalled_hears [OF S kx wrong p' le(3) m(1), of jb wB] obtain oc v where
      heard: "handleMessage C msg (stalled_B S p jb) wB = (Inr oc, stalled_B S (Suc p) jb, v)"
      "oc_outgoing oc = (if p = 0 \<and> \<not> jb then [helloB C S] else [])" by blast
    have "n = stalled C S kx (Suc p) a ja jb v"
      using deliverB heard m(2) ok by (auto simp: stalled_def stalled_ok_def)
    moreover have "stalled_ok (Suc p) a ja jb" using ok p' by (auto simp: stalled_ok_def)
    ultimately show ?thesis
      by (intro exI [of _ "Suc p"] exI [of _ a] exI [of _ ja] exI [of _ jb] exI [of _ v]) (simp add: steps_made_def)
  qed
qed

lemma stalled_steps:
  assumes S: "scripted C S" and kx: "exchange_schema KEY_EXCHANGE kx"
    and wrong: "\<And>w. \<exists>e v. verifyKeyExchange C kx client_A client_B (Some (kp_public (id_signing (sc_iA S))))
      (Some (kp_public (id_encryption (sc_iB S)))) (Some (kp_private (id_encryption (sc_iB S)))) w = (Inl e, v)"
    and "(net_step C ^^ k) (stalled C S kx 0 0 False False wB) n"
  shows "\<exists>p a ja jb wB'. stalled_ok p a ja jb \<and> n = stalled C S kx p a ja jb wB' \<and> k \<le> steps_made p a ja jb"
  using assms(4)
proof (induction k arbitrary: n)
  case 0
  then show ?case
    by (intro exI [of _ 0] exI [of _ False] exI [of _ wB]) (simp add: stalled_ok_def)
next
  case (Suc k)
  then obtain m where m: "(net_step C ^^ k) (stalled C S kx 0 0 False False wB) m" "net_step C m n" by auto
  from Suc.IH [OF m(1)] obtain p a ja jb wB1 where
    ok: "stalled_ok p a ja jb" "m = stalled C S kx p a ja jb wB1" "k \<le> steps_made p a ja jb" by blast
  with stalled_step [OF S kx wrong ok(1)] m(2) show ?case by (metis Suc_leI le_less_trans)
qed

lemma stalled_stuck:
  assumes ok: "stalled_ok p a ja jb" and stuck: "\<nexists>m. net_step C (stalled C S kx p a ja jb wB) m"
  shows "a = 2 \<and> p = 4"
proof -
  let ?n = "stalled C S kx p a ja jb wB"
  have "jb" using stuck net_step.joinB [of ?n C] by (metis stalled_sel(4) surj_pair)
  moreover have "net_toA ?n = []" using stuck net_step.deliverA [of ?n _ _ C] by (metis neq_Nil_conv surj_pair)
  moreover have "net_toB ?n = []" using stuck net_step.deliverB [of ?n _ _ C] by (metis neq_Nil_conv surj_pair)
  ultimately show ?thesis using ok by (auto simp: stalled_def stalled_ok_def split: if_splits)
qed

section \<open>The messages of a session that was given up\<close>

text \<open>What is encrypted for the key of one client is not decrypted with the key of another.\<close>

definition cannot_open :: "'r node_crypto \<Rightarrow> identity \<Rightarrow> identity \<Rightarrow> bool" where
  "cannot_open C i j \<longleftrightarrow> (\<forall>m r c. fst (nc_publicEncrypt C (kp_public (id_encryption i)) m r) = Some c \<longrightarrow>
     nc_privateDecrypt C (kp_private (id_encryption j)) c = None)"

lemma foreign_exchange:
  assumes kx: "createKeyExchange C s r (Some sigpriv) (Some (kp_public (id_encryption i))) PROTOCOL_VERSION w0
      = (Inr (kx, sid, a), w1)"
    and foreign: "cannot_open C i j"
  shows "\<exists>e v. verifyKeyExchange C kx s' r' (Some sig) (Some (kp_public (id_encryption j)))
      (Some (kp_private (id_encryption j))) w = (Inl e, v)"
proof (cases "verifyKeyExchange C kx s' r' (Some sig) (Some (kp_public (id_encryption j)))
    (Some (kp_private (id_encryption j))) w")
  case (Pair x v)
  show ?thesis
  proof (cases x)
    case (Inl e)
    with Pair show ?thesis by simp
  next
    case (Inr y)
    obtain sid' b where "y = (sid', b)" by fastforce
    with Pair Inr have "exchange_verified C kx s' r' sig (kp_public (id_encryption j)) (kp_private (id_encryption j)) (w_heap v ! b)"
      using verifyKeyExchange_Inr(1) by blast
    then have opened: "nc_privateDecrypt C (kp_private (id_encryption j))
        (base64_decode (text_of (field kx ''encryptedSessionKey''))) \<noteq> None"
      by (auto simp: exchange_verified_def)
    from createKeyExchange_parts(1) [OF kx] obtain ek sg r' where
      "kx = createKeyExchangeMessage s r (VStr sid) (VStr (base64_encode ek)) (VStr (base64_encode sg)) PROTOCOL_VERSION"
      "fst (nc_publicEncrypt C (kp_public (id_encryption i)) (w_heap w1 ! a) r') = Some ek" by blast
    with opened foreign show ?thesis
      by (auto simp: cannot_open_def createKeyExchangeMessage_def base64_decode_encode)
  qed
qed

text \<open>What a new initiator sends when its peer joins and says hello.\<close>

lemma first_sends:
  assumes "scripted C S"
  shows "all_sends C [PeerJoined, Received (helloB C S)] (sessA S 0, sc_wA S) = [helloA C S, sc_kx S]"
    and "run_session C [PeerJoined, Received (helloB C S)] (sessA S 0, sc_wA S) = (sessA S 2, sc_wA' S)"
  using joins(1) [OF assms, of 0 0] hello_reaches_A [OF assms, of 1]
  by (simp_all add: run_session_def)

lemma sessA_0: "sessA S 0 = fresh nameA client_B (sc_iA S)"
  by (simp add: sessA_def Let_def)

lemma stalled_run:
  assumes S: "scripted C S" and kx: "exchange_schema KEY_EXCHANGE kx"
    and wrong: "\<And>w. \<exists>e v. verifyKeyExchange C kx client_A client_B (Some (kp_public (id_signing (sc_iA S))))
      (Some (kp_public (id_encryption (sc_iB S)))) (Some (kp_private (id_encryption (sc_iB S)))) w = (Inl e, v)"
    and run: "(net_step C ^^ k) (stalled C S kx 0 0 False False wB) n"
  shows "k \<le> 7 \<and> ps_state (fst (net_A n)) \<noteq> ESTABLISHED \<and> ps_state (fst (net_B n)) \<noteq> ESTABLISHED
    \<and> ((\<nexists>m. net_step C n m) \<longrightarrow> ps_state (fst (net_A n)) = KEY_SENT \<and> ps_state (fst (net_B n)) = FAILED)"
proof -
  from stalled_steps [OF S kx wrong run] obtain p a ja jb wB' where
    n: "stalled_ok p a ja jb" "n = stalled C S kx p a ja jb wB'" "k \<le> steps_made p a ja jb" by blast
  have "p \<le> 4" using n(1) by (simp add: stalled_ok_def)
  then have "steps_made p a ja jb \<le> 4 + 1 + 1 + 1" unfolding steps_made_def by (intro add_mono) simp_all
  with n(3) have "k \<le> 7" by simp
  moreover have A: "ps_state (fst (net_A n)) = (if a = 2 then KEY_SENT else NO_SESSION)"
    using n by (auto simp: stalled_ok_def sessA_def fresh_def Let_def)
  moreover have B: "ps_state (fst (net_B n)) = (if p = 0 then NO_SESSION else if p = 1 then HELLO_EXCHANGED else FAILED)"
    using n(2) by (simp add: stalled_B_def sessB_fields) (simp add: sessB_def fresh_def Let_def)
  moreover have "ps_state (fst (net_A n)) = KEY_SENT \<and> ps_state (fst (net_B n)) = FAILED" if "\<nexists>m. net_step C n m"
    using stalled_stuck [OF n(1) that [unfolded n(2)]] unfolding A B by simp
  ultimately show ?thesis by (simp split: if_splits)
qed

text \<open>
  Property C37: where reconnection ends. Client A has sent its HELLO and its KEY_EXCHANGE to
  a client B that leaves before it reads them, and A has been told so. The server relays by
  slot, so both messages reach the client that now takes the slot. Then no order of the
  events of the new handshake leads to a session: after at most seven steps nothing is left
  to happen, the new client has failed on the key it cannot open, and A waits for its answer.
\<close>

theorem stale_messages_stall:
  assumes C: "module_total C" "client_ok C iA" "client_ok C iB" "client_ok C iB'" "cannot_open C iB iB'"
    and new: "new_PeerSession nameA iA = Inr sA" "new_PeerSession nameB iB' = Inr sB" "w_heap wA = []"
    and past: "run_session C [PeerJoined, Received (own_hello C client_B iB), PeerLeft] (sA, wA) = (sA', wA')"
    and run: "(net_step C ^^ k) ((net_start sA' sB wA' wB)
      \<lparr>net_toB := all_sends C [PeerJoined, Received (own_hello C client_B iB)] (sA, wA)\<rparr>) n"
  shows "k \<le> 7 \<and> ps_state (fst (net_A n)) \<noteq> ESTABLISHED \<and> ps_state (fst (net_B n)) \<noteq> ESTABLISHED
    \<and> ((\<nexists>m. net_step C n m) \<longrightarrow> ps_state (fst (net_A n)) = KEY_SENT \<and> ps_state (fst (net_B n)) = FAILED)"
proof -
  have "module_ok C" using C(1) by (simp add: module_total_def)
  obtain S0 where S0: "scripted C S0" "sc_iA S0 = iA" "sc_iB S0 = iB" "sc_wA S0 = wA"
    using script_exists [OF \<open>module_ok C\<close> C(2,3)] by metis
  obtain S where S: "scripted C S" "sc_iA S = iA" "sc_iB S = iB'" "sc_wA S = wA'"
    using script_exists [OF \<open>module_ok C\<close> C(2,4)] by metis
  have sA: "sA = fresh nameA client_B iA" "sB = fresh nameB client_A iB'"
    using new(1,2) by (simp_all add: new_sessions)
  have "sA' = sA"
    using departure_renews [of C sA wA "[PeerJoined, Received (own_hello C client_B iB)]" sA' wA']
      C(1) new_session_fresh [OF C(2) new(1) _ new(3)] past by simp
  moreover have "all_sends C [PeerJoined, Received (own_hello C client_B iB)] (sA, wA) = [helloA C S, sc_kx S0]"
    using first_sends(1) [OF S0(1)] S0 S(2) sA(1) by (simp add: sessA_0 helloA_def helloB_def)
  ultimately have "(net_start sA' sB wA' wB)
      \<lparr>net_toB := all_sends C [PeerJoined, Received (own_hello C client_B iB)] (sA, wA)\<rparr> =
      stalled C S (sc_kx S0) 0 0 False False wB"
    using S(2-4) sA
    by (simp add: stalled_def net_start_def meant_for_B_def sessA_0 stalled_B_def sessB_def Let_def)
  moreover have "createKeyExchange C client_A client_B (Some (kp_private (id_signing iA)))
      (Some (kp_public (id_encryption iB))) PROTOCOL_VERSION wA = (Inr (sc_kx S0, sc_sid S0, length (w_heap wA)), sc_wA' S0)"
    using S0 by (simp add: scripted_def)
  note wrong = foreign_exchange [OF this C(5)]
  ultimately show ?thesis
    using stalled_run [OF S(1) scriptedD(5) [OF S0(1)]] wrong run S(2,3) by metis
qed

text \<open>The sample's ciphertexts start with the number of the key they are for.\<close>

lemma sample_cannot_open: "e \<noteq> e' \<Longrightarrow> cannot_open sample_crypto (sample_identity e s) (sample_identity e' s')"
  by (auto simp: cannot_open_def sample_crypto_def sample_identity_def sample_encrypt_def sample_decrypt_def
      sample_key_def Let_def split: if_splits)

theorem stale_messages_stall_witness:
  "\<exists>sA' wA' k n. run_session sample_crypto
      [PeerJoined, Received (own_hello sample_crypto client_B (sample_identity 3 4)), PeerLeft]
      (fst (net_A sample_start), snd (net_A sample_start)) = (sA', wA')
    \<and> (net_step sample_crypto ^^ k) ((net_start sA' (fresh nameB client_A (sample_identity 5 6)) wA' wA')
        \<lparr>net_toB := all_sends sample_crypto [PeerJoined, Received (own_hello sample_crypto client_B (sample_identity 3 4))]
          (fst (net_A sample_start), snd (net_A sample_start))\<rparr>) n
    \<and> ps_state (fst (net_A n)) = KEY_SENT \<and> ps_state (fst (net_B n)) = FAILED"
proof -
  let ?iA = "sample_identity 1 2" and ?iB = "sample_identity 3 4" and ?iB' = "sample_identity 5 6"
  let ?wA = "\<lparr>w_entropy = 5, w_heap = []\<rparr> :: nat world"
  have ok: "client_ok sample_crypto ?iA" "client_ok sample_crypto ?iB" "client_ok sample_crypto ?iB'"
    by (rule sample_client, simp)+
  have foreign: "cannot_open sample_crypto ?iB ?iB'" by (rule sample_cannot_open) simp
  obtain sA' wA' where past: "run_session sample_crypto
      [PeerJoined, Received (own_hello sample_crypto client_B ?iB), PeerLeft] (fresh nameA client_B ?iA, ?wA) = (sA', wA')"
    by fastforce
  let ?n = "(net_start sA' (fresh nameB client_A ?iB') wA' wA')
        \<lparr>net_toB := all_sends sample_crypto [PeerJoined, Received (own_hello sample_crypto client_B ?iB)]
          (fresh nameA client_B ?iA, ?wA)\<rparr>"
  note stalls = stale_messages_stall [OF sample_total ok foreign new_sessions _ past, of _ wA']
  obtain k n where "(net_step sample_crypto ^^ k) ?n n" "\<nexists>m. net_step sample_crypto n m"
    by (rule bounded_run_ends [of "net_step sample_crypto" ?n 7]) (use stalls in simp)
  moreover from this stalls have "ps_state (fst (net_A n)) = KEY_SENT \<and> ps_state (fst (net_B n)) = FAILED" by simp
  moreover have "net_A sample_start = (fresh nameA client_B ?iA, ?wA)" by (simp add: sample_start_def net_start_def)
  ultimately show ?thesis using past by auto
qed

end
