(* ===== verification/JsonText.thy ===== *)
theory JsonText
  imports JsValue
begin

text \<open>
  \<open>encode\<close> and \<open>decode\<close> of \<open>src/protocol/message.js\<close>: \<open>JSON.stringify\<close> and \<open>JSON.parse\<close> of
  the language, on UTF-16 texts. Parsing is in two passes: a lexer, and an automaton on the
  tokens with an explicit stack of open arrays and objects. The interpretation of \<open>codec\<close>
  says that messages survive; \<open>stringify_no_newline\<close>, that a message is one line.
\<close>

section \<open>Printing\<close>

definition hex_digit :: "nat \<Rightarrow> 16 word" where
  "hex_digit n = (if n < 10 then u16 (48 + n) else u16 (87 + n))"

definition unicode_escape :: "16 word \<Rightarrow> jsstring" where
  "unicode_escape u =
     (let n = unat u in
      [92, 117, hex_digit (n div 4096), hex_digit (n div 256 mod 16), hex_digit (n div 16 mod 16), hex_digit (n mod 16)])"

definition quote_unit :: "16 word \<Rightarrow> jsstring" where
  "quote_unit u =
     (if u = 8 then [92, 98] else if u = 9 then [92, 116] else if u = 10 then [92, 110]
      else if u = 12 then [92, 102] else if u = 13 then [92, 114]
      else if u = 34 then [92, 34] else if u = 92 then [92, 92]
      else if u < 32 then unicode_escape u else [u])"

text \<open>Surrogates in pairs are printed as they are, lone ones escaped.\<close>

fun quote_units :: "jsstring \<Rightarrow> jsstring" where
  "quote_units [] = []"
| "quote_units [u] = (if is_high u \<or> is_low u then unicode_escape u else quote_unit u)"
| "quote_units (u # v # us) =
     (if is_high u \<and> is_low v then u # v # quote_units us
      else (if is_high u \<or> is_low u then unicode_escape u else quote_unit u) @ quote_units (v # us))"

definition quote_json :: "jsstring \<Rightarrow> jsstring" where
  "quote_json s = [34] @ quote_units s @ [34]"

text \<open>
  \<open>None\<close> is \<open>undefined\<close>: such properties are left out of objects and are \<open>null\<close> in arrays.
  A \<open>Buffer\<close> has a \<open>toJSON\<close> method.
\<close>

fun stringify :: "jsval \<Rightarrow> jsstring option" where
  "stringify VUndef = None"
| "stringify VNull = Some (js ''null'')"
| "stringify (VBool b) = Some (if b then js ''true'' else js ''false'')"
| "stringify (VNum n) = Some (case n of Fin s m e \<Rightarrow> num_to_string n | _ \<Rightarrow> js ''null'')"
| "stringify (VStr s) = Some (quote_json s)"
| "stringify (VArr vs) =
     Some ([91] @ join_with [44] (map (\<lambda>v. case stringify v of Some t \<Rightarrow> t | None \<Rightarrow> js ''null'') vs) @ [93])"
| "stringify (VObj kvs) =
     Some ([123] @ join_with [44] (concat (map (\<lambda>(k, v). case stringify v of
         Some t \<Rightarrow> [quote_json k @ [58] @ t] | None \<Rightarrow> []) kvs)) @ [125])"
| "stringify (VBytes bs) =
     Some (js ''{'' @ quote_json (js ''type'') @ [58] @ quote_json (js ''Buffer'') @ [44] @ quote_json (js ''data'') @ [58, 91]
       @ join_with [44] (map (\<lambda>b. nat_to_string (unat b)) bs) @ js '']}'')"
| "stringify (VBuiltin k) = (if k = js ''__proto__'' then Some (js ''{}'') else None)"

text \<open>\<open>JSON.stringify(v) + '\n'\<close>, where \<open>undefined\<close> is concatenated as a word.\<close>

definition encode :: "jsval \<Rightarrow> jsstring" where
  "encode v = (case stringify v of Some t \<Rightarrow> t | None \<Rightarrow> js ''undefined'') @ [10]"

section \<open>The lexer\<close>

datatype token = TLBrace | TRBrace | TLBrack | TRBrack | TColon | TComma | TStr jsstring
  | TNum jsnum | TTrue | TFalse | TNull

fun hex_value :: "16 word \<Rightarrow> nat option" where
  "hex_value u =
     (if 48 \<le> u \<and> u \<le> 57 then Some (unat u - 48)
      else if 97 \<le> u \<and> u \<le> 102 then Some (unat u - 87)
      else if 65 \<le> u \<and> u \<le> 70 then Some (unat u - 55) else None)"

fun hex4 :: "16 word \<Rightarrow> 16 word \<Rightarrow> 16 word \<Rightarrow> 16 word \<Rightarrow> 16 word option" where
  "hex4 a b c d =
     (case (hex_value a, hex_value b, hex_value c, hex_value d) of
        (Some w, Some x, Some y, Some z) \<Rightarrow> Some (u16 (w * 4096 + x * 256 + y * 16 + z))
      | _ \<Rightarrow> None)"

definition simple_escape :: "16 word \<Rightarrow> 16 word option" where
  "simple_escape e =
     (if e = 34 \<or> e = 92 \<or> e = 47 then Some e
      else if e = 98 then Some 8 else if e = 102 then Some 12 else if e = 110 then Some 10
      else if e = 114 then Some 13 else if e = 116 then Some 9 else None)"

abbreviation prepend :: "16 word \<Rightarrow> (jsstring \<times> jsstring) option \<Rightarrow> (jsstring \<times> jsstring) option" where
  "prepend u r \<equiv> map_option (\<lambda>(s, rest). (u # s, rest)) r"

text \<open>The rest of a string literal after its opening quote.\<close>

fun lex_string :: "jsstring \<Rightarrow> (jsstring \<times> jsstring) option" where
  "lex_string [] = None"
| "lex_string (u # us) =
     (if u = 34 then Some ([], us)
      else if u = 92 then
        (case us of
           [] \<Rightarrow> None
         | e # rest \<Rightarrow>
             if e = 117 then
               (case rest of
                  a # b # c # d # rest' \<Rightarrow>
                    (case hex4 a b c d of None \<Rightarrow> None | Some x \<Rightarrow> prepend x (lex_string rest'))
                | _ \<Rightarrow> None)
             else (case simple_escape e of None \<Rightarrow> None | Some x \<Rightarrow> prepend x (lex_string rest)))
      else if u < 32 then None
      else prepend u (lex_string us))"

text \<open>A number literal: sign, integer part without leading zeros, fraction, exponent.\<close>

definition lex_int :: "jsstring \<Rightarrow> (jsstring \<times> jsstring) option" where
  "lex_int us =
     (case us of
        [] \<Rightarrow> None
      | u # us' \<Rightarrow> if u = 48 then Some ([u], us')
                  else if is_digit u then Some (takeWhile is_digit us, dropWhile is_digit us) else None)"

definition lex_frac :: "jsstring \<Rightarrow> (jsstring \<times> jsstring) option" where
  "lex_frac us =
     (case us of
        u # us' \<Rightarrow> if u = 46 then
            (if takeWhile is_digit us' = [] then None else Some (takeWhile is_digit us', dropWhile is_digit us'))
          else Some ([], us)
      | [] \<Rightarrow> Some ([], []))"

definition lex_exp :: "jsstring \<Rightarrow> (int \<times> jsstring) option" where
  "lex_exp us =
     (case us of
        u # us' \<Rightarrow> if u = 101 \<or> u = 69 then
            (let (sign, ds) = (case us' of
                   v # vs \<Rightarrow> if v = 45 then (-1, vs) else if v = 43 then (1, vs) else (1, us')
                 | [] \<Rightarrow> (1, [])) in
             if takeWhile is_digit ds = [] then None
             else Some (sign * int (digits_value 0 (takeWhile is_digit ds)), dropWhile is_digit ds))
          else Some (0, us)
      | [] \<Rightarrow> Some (0, []))"

definition lex_number :: "jsstring \<Rightarrow> (jsnum \<times> jsstring) option" where
  "lex_number us =
     (let (sign, us1) = (case us of u # us' \<Rightarrow> if u = 45 then (True, us') else (False, us) | [] \<Rightarrow> (False, [])) in
      case lex_int us1 of None \<Rightarrow> None | Some (i, us2) \<Rightarrow>
      case lex_frac us2 of None \<Rightarrow> None | Some (f, us3) \<Rightarrow>
      case lex_exp us3 of None \<Rightarrow> None | Some (ex, us4) \<Rightarrow>
        Some (num_of_dec sign (digits_value 0 (i @ f)) (ex - int (length f)), us4))"

definition punctuation :: "16 word \<Rightarrow> token option" where
  "punctuation u =
     (if u = 123 then Some TLBrace else if u = 125 then Some TRBrace
      else if u = 91 then Some TLBrack else if u = 93 then Some TRBrack
      else if u = 58 then Some TColon else if u = 44 then Some TComma else None)"

definition json_space :: "16 word \<Rightarrow> bool" where
  "json_space u \<longleftrightarrow> u = 32 \<or> u = 9 \<or> u = 10 \<or> u = 13"

text \<open>One token off the front of a text that does not start with white space.\<close>

definition lex_token :: "jsstring \<Rightarrow> (token \<times> jsstring) option" where
  "lex_token us =
     (case us of
        [] \<Rightarrow> None
      | u # us' \<Rightarrow>
          case punctuation u of Some t \<Rightarrow> Some (t, us') | None \<Rightarrow>
          if u = 34 then map_option (\<lambda>(s, rest). (TStr s, rest)) (lex_string us')
          else if startsWith us (js ''true'') then Some (TTrue, drop 4 us)
          else if startsWith us (js ''false'') then Some (TFalse, drop 5 us)
          else if startsWith us (js ''null'') then Some (TNull, drop 4 us)
          else map_option (\<lambda>(n, rest). (TNum n, rest)) (lex_number us))"

lemma lex_string_shorter: "lex_string us = Some (s, rest) \<Longrightarrow> length rest < length us"
proof (induction us arbitrary: s rest rule: length_induct)
  case (1 us)
  then obtain u us' where us: "us = u # us'" by (cases us) auto
  have IH: "length b < length us" if "lex_string ys = Some (a, b)" "length ys < length us" for ys a b
    using 1 that by (meson less_trans)
  show ?case
  proof (cases "u = 92")
    case False
    with 1 us IH [of us'] show ?thesis by (auto split: if_splits)
  next
    case True
    with 1 us obtain e es where es: "us' = e # es" by (cases us') auto
    show ?thesis
    proof (cases "e = 117")
      case False
      with 1 us es True IH [of es] show ?thesis by (auto split: if_splits option.splits)
    next
      case u: True
      with 1 us es True obtain a b c d r where "es = a # b # c # d # r"
        by (auto split: list.splits)
      with 1 us es True u IH [of r] show ?thesis by (auto split: option.splits)
    qed
  qed
qed

lemma dropWhile_shorter: "length (dropWhile P xs) \<le> length xs"
  by (simp add: length_dropWhile_le)

lemma lex_int_shorter: "lex_int us = Some (i, rest) \<Longrightarrow> length rest < length us"
proof (cases us)
  case (Cons u us')
  moreover assume "lex_int us = Some (i, rest)"
  ultimately show ?thesis
    using dropWhile_shorter [of is_digit us'] by (auto simp: lex_int_def split: if_splits)
qed (simp add: lex_int_def)

lemma lex_frac_shorter: "lex_frac us = Some (f, rest) \<Longrightarrow> length rest \<le> length us"
  using dropWhile_shorter [of is_digit "tl us"]
  by (cases us) (auto simp: lex_frac_def split: if_splits)

lemma lex_exp_shorter:
  assumes "lex_exp us = Some (x, rest)"
  shows "length rest \<le> length us"
proof (cases us)
  case Nil
  with assms show ?thesis by (simp add: lex_exp_def)
next
  case (Cons u us')
  show ?thesis
    using assms Cons dropWhile_shorter [of is_digit us'] dropWhile_shorter [of is_digit "tl us'"]
    by (cases us') (auto simp: lex_exp_def Let_def split: if_splits)
qed

lemma lex_number_shorter: "lex_number us = Some (n, rest) \<Longrightarrow> length rest < length us"
  by (cases us)
    (auto simp: lex_number_def split: if_splits option.splits
      dest!: lex_int_shorter lex_frac_shorter lex_exp_shorter)

lemma lex_token_shorter: "lex_token us = Some (t, rest) \<Longrightarrow> length rest < length us"
  by (cases us)
    (auto simp: lex_token_def split: option.splits if_splits dest: lex_string_shorter lex_number_shorter)

function lex_json :: "jsstring \<Rightarrow> token list option" where
  "lex_json us =
     (case us of
        [] \<Rightarrow> Some []
      | u # us' \<Rightarrow>
          if json_space u then lex_json us'
          else case lex_token us of
              None \<Rightarrow> None
            | Some (t, rest) \<Rightarrow> map_option (\<lambda>ts. t # ts) (lex_json rest))"
  by pat_completeness auto

termination
  by (relation "measure length") (auto dest: lex_token_shorter)

declare lex_json.simps [simp del]

lemma lex_json_Nil [simp]: "lex_json [] = Some []"
  by (simp add: lex_json.simps)

lemma lex_step:
  "lex_token us = Some (t, rest) \<Longrightarrow> \<not> json_space (hd us) \<Longrightarrow> lex_json us = map_option (\<lambda>ts. t # ts) (lex_json rest)"
  by (cases us) (simp add: lex_token_def, subst lex_json.simps, simp)

section \<open>The parser\<close>

text \<open>
  An open array with its elements, or an open object with its members and the key whose
  value comes next; and what the parser expects.
\<close>

datatype frame = FArr "jsval list" | FObj "(jsstring \<times> jsval) list" jsstring

datatype expect =
    AValue
  | AValueOrEnd
  | AKeyOrEnd
  | AKey "(jsstring \<times> jsval) list"
  | AColon "(jsstring \<times> jsval) list" jsstring
  | After jsval

fun open_value :: "token \<Rightarrow> frame list \<Rightarrow> (frame list \<times> expect) option" where
  "open_value (TStr s) st = Some (st, After (VStr s))"
| "open_value (TNum n) st = Some (st, After (VNum n))"
| "open_value TTrue st = Some (st, After (VBool True))"
| "open_value TFalse st = Some (st, After (VBool False))"
| "open_value TNull st = Some (st, After VNull)"
| "open_value TLBrack st = Some (FArr [] # st, AValueOrEnd)"
| "open_value TLBrace st = Some (st, AKeyOrEnd)"
| "open_value _ st = None"

text \<open>After a value: the next element or member, or the end of what is open.\<close>

fun close_value :: "token \<Rightarrow> frame list \<Rightarrow> jsval \<Rightarrow> (frame list \<times> expect) option" where
  "close_value TComma (FArr vs # st) v = Some (FArr (vs @ [v]) # st, AValue)"
| "close_value TRBrack (FArr vs # st) v = Some (st, After (VArr (vs @ [v])))"
| "close_value TComma (FObj m k # st) v = Some (st, AKey (obj_put k v m))"
| "close_value TRBrace (FObj m k # st) v = Some (st, After (VObj (obj_put k v m)))"
| "close_value _ _ _ = None"

fun parse_step :: "token \<Rightarrow> frame list \<Rightarrow> expect \<Rightarrow> (frame list \<times> expect) option" where
  "parse_step t st AValue = open_value t st"
| "parse_step t st AValueOrEnd =
     (case (t, st) of (TRBrack, FArr [] # st') \<Rightarrow> Some (st', After (VArr [])) | _ \<Rightarrow> open_value t st)"
| "parse_step t st AKeyOrEnd =
     (case t of TRBrace \<Rightarrow> Some (st, After (VObj [])) | TStr k \<Rightarrow> Some (st, AColon [] k) | _ \<Rightarrow> None)"
| "parse_step t st (AKey m) = (case t of TStr k \<Rightarrow> Some (st, AColon m k) | _ \<Rightarrow> None)"
| "parse_step t st (AColon m k) = (if t = TColon then Some (FObj m k # st, AValue) else None)"
| "parse_step t st (After v) = close_value t st v"

fun parse_tokens :: "token list \<Rightarrow> frame list \<Rightarrow> expect \<Rightarrow> jsval option" where
  "parse_tokens [] st e = (case (st, e) of ([], After v) \<Rightarrow> Some v | _ \<Rightarrow> None)"
| "parse_tokens (t # ts) st e =
     (case parse_step t st e of None \<Rightarrow> None | Some (st', e') \<Rightarrow> parse_tokens ts st' e')"

definition json_parse :: "jsstring \<Rightarrow> jsval option" where
  "json_parse us = (case lex_json us of None \<Rightarrow> None | Some ts \<Rightarrow> parse_tokens ts [] AValue)"

definition decode :: "jsstring \<Rightarrow> js_error + jsval" where
  "decode line = (case json_parse line of None \<Rightarrow> Inl SyntaxError | Some v \<Rightarrow> Inr v)"

section \<open>Tokens of a printed value\<close>

text \<open>
  The values that survive: no \<open>undefined\<close>, no buffers, the number 1 (the only one the
  program sends), and objects whose keys are distinct and no array indices.
\<close>

fun json_ok :: "jsval \<Rightarrow> bool" where
  "json_ok VNull \<longleftrightarrow> True"
| "json_ok (VBool b) \<longleftrightarrow> True"
| "json_ok (VNum n) \<longleftrightarrow> n = num_lit 1"
| "json_ok (VStr s) \<longleftrightarrow> True"
| "json_ok (VArr vs) \<longleftrightarrow> (\<forall>v \<in> set vs. json_ok v)"
| "json_ok (VObj kvs) \<longleftrightarrow> distinct (map fst kvs)
     \<and> (\<forall>kv \<in> set kvs. array_index (fst kv) = None \<and> json_ok (snd kv))"
| "json_ok _ \<longleftrightarrow> False"

fun sep_tokens :: "token list list \<Rightarrow> token list" where
  "sep_tokens [] = []"
| "sep_tokens [ts] = ts"
| "sep_tokens (ts # tss) = ts @ TComma # sep_tokens tss"

fun tokens :: "jsval \<Rightarrow> token list" where
  "tokens VNull = [TNull]"
| "tokens (VBool b) = [if b then TTrue else TFalse]"
| "tokens (VNum n) = [TNum n]"
| "tokens (VStr s) = [TStr s]"
| "tokens (VArr vs) = TLBrack # sep_tokens (map tokens vs) @ [TRBrack]"
| "tokens (VObj kvs) = TLBrace # sep_tokens (map (\<lambda>(k, v). TStr k # TColon # tokens v) kvs) @ [TRBrace]"
| "tokens _ = []"

section \<open>Parsing the tokens of a value\<close>

text \<open>
  The tokens of a value, read where a value is expected, lead to the state after it. For
  arrays and objects, this is shown along the list of their parts.
\<close>

lemma parse_elements:
  assumes "\<And>v st ts. v \<in> set vs \<Longrightarrow> parse_tokens (tokens v @ ts) st AValue = parse_tokens ts st (After v)"
    and "vs \<noteq> []"
  shows "parse_tokens (sep_tokens (map tokens vs) @ TRBrack # ts) (FArr us # st) AValue
    = parse_tokens ts st (After (VArr (us @ vs)))"
  using assms
proof (induction vs arbitrary: us)
  case Nil
  then show ?case by simp
next
  case (Cons v vs)
  show ?case
  proof (cases vs)
    case Nil
    then show ?thesis using Cons.prems(1) [of v "TRBrack # ts" "FArr us # st"] by simp
  next
    case (Cons v' vs')
    have "parse_tokens (sep_tokens (map tokens (v # vs)) @ TRBrack # ts) (FArr us # st) AValue
      = parse_tokens (sep_tokens (map tokens vs) @ TRBrack # ts) (FArr (us @ [v]) # st) AValue"
      using Cons.prems(1) [of v] Cons by simp
    then show ?thesis using Cons.IH [of "us @ [v]"] Cons.prems(1) Cons by simp
  qed
qed

lemma parse_members:
  assumes "\<And>v st ts. v \<in> snd ` set kvs \<Longrightarrow> parse_tokens (tokens v @ ts) st AValue = parse_tokens ts st (After v)"
    and "kvs \<noteq> []" "distinct (map fst (ms @ kvs))" "\<And>k. k \<in> fst ` set kvs \<Longrightarrow> array_index k = None"
  shows "parse_tokens (sep_tokens (map (\<lambda>(k, v). TStr k # TColon # tokens v) kvs) @ TRBrace # ts) st (AKey ms)
    = parse_tokens ts st (After (VObj (ms @ kvs)))"
  using assms
proof (induction kvs arbitrary: ms)
  case Nil
  then show ?case by simp
next
  case (Cons kv kvs)
  obtain k v where kv: "kv = (k, v)" by (cases kv)
  have put: "obj_put k v ms = ms @ [(k, v)]"
    using Cons.prems(3) Cons.prems(4) [of k] kv by (simp add: obj_put_def)
  show ?case
  proof (cases kvs)
    case Nil
    then show ?thesis
      using Cons.prems(1) [of v "TRBrace # ts" "FObj ms k # st"] kv put by simp
  next
    case (Cons kv' kvs')
    have "parse_tokens (sep_tokens (map (\<lambda>(k, v). TStr k # TColon # tokens v) (kv # kvs)) @ TRBrace # ts) st (AKey ms)
      = parse_tokens (sep_tokens (map (\<lambda>(k, v). TStr k # TColon # tokens v) kvs) @ TRBrace # ts) st (AKey (ms @ [(k, v)]))"
      using Cons.prems(1) [of v] Cons kv put by simp
    moreover have "parse_tokens (sep_tokens (map (\<lambda>(k, v). TStr k # TColon # tokens v) kvs) @ TRBrace # ts) st
        (AKey (ms @ [(k, v)])) = parse_tokens ts st (After (VObj ((ms @ [(k, v)]) @ kvs)))"
    proof (rule Cons.IH)
      show "parse_tokens (tokens v' @ ts) st AValue = parse_tokens ts st (After v')"
        if "v' \<in> snd ` set kvs" for v' st ts
        using Cons.prems(1) [of v'] that by simp
      show "array_index k' = None" if "k' \<in> fst ` set kvs" for k'
        using Cons.prems(4) [of k'] that by simp
    qed (use Cons.prems(3) Cons kv in auto)
    ultimately show ?thesis using kv by simp
  qed
qed

lemma tokens_first: "json_ok v \<Longrightarrow> \<exists>t us. tokens v = t # us \<and> t \<noteq> TRBrack"
  by (cases v) auto

lemma sep_tokens_first:
  assumes "json_ok v"
  shows "\<exists>t us. sep_tokens (map tokens (v # vs)) = t # us \<and> t \<noteq> TRBrack"
  using tokens_first [OF assms] by (cases vs) auto

text \<open>The first key of an object may be read where the object may also end.\<close>

lemma sep_tokens_key:
  assumes "kvs \<noteq> []"
  shows "parse_tokens (sep_tokens (map (\<lambda>(k, v). TStr k # TColon # tokens v) kvs) @ ts) st AKeyOrEnd
    = parse_tokens (sep_tokens (map (\<lambda>(k, v). TStr k # TColon # tokens v) kvs) @ ts) st (AKey [])"
proof -
  obtain k v kvs' where "kvs = (k, v) # kvs'" using assms by (cases kvs) auto
  then show ?thesis by (cases kvs') simp_all
qed

lemma parse_tokens_value: "json_ok v \<Longrightarrow> parse_tokens (tokens v @ ts) st AValue = parse_tokens ts st (After v)"
proof (induction v arbitrary: ts st)
  case (VArr vs)
  show ?case
  proof (cases "vs = []")
    case False
    have el: "\<And>v st ts. v \<in> set vs \<Longrightarrow> parse_tokens (tokens v @ ts) st AValue = parse_tokens ts st (After v)"
      using VArr by simp
    have first: "parse_tokens (sep_tokens (map tokens vs) @ xs) (FArr [] # st) AValueOrEnd
      = parse_tokens (sep_tokens (map tokens vs) @ xs) (FArr [] # st) AValue" for xs
    proof -
      obtain v vs' where vs: "vs = v # vs'" using False by (cases vs) auto
      then obtain t us where t: "sep_tokens (map tokens vs) = t # us" "t \<noteq> TRBrack"
        using sep_tokens_first [of v vs'] VArr.prems by auto
      then have "parse_step t (FArr [] # st) AValueOrEnd = parse_step t (FArr [] # st) AValue"
        by (cases t) auto
      with t(1) show ?thesis by (simp del: parse_step.simps)
    qed
    show ?thesis using parse_elements [OF el False, of ts "[]" st] first by simp
  qed simp
next
  case (VObj kvs)
  show ?case
  proof (cases "kvs = []")
    case False
    have el: "\<And>v st ts. v \<in> snd ` set kvs \<Longrightarrow> parse_tokens (tokens v @ ts) st AValue = parse_tokens ts st (After v)"
      using VObj by auto
    have idx: "\<And>k. k \<in> fst ` set kvs \<Longrightarrow> array_index k = None" using VObj.prems by auto
    show ?thesis
      using parse_members [OF el False _ idx, where ms = "[]" and ts = ts and st = st] VObj.prems
        sep_tokens_key [OF False, of "TRBrace # ts" st] by simp
  qed simp
qed auto

section \<open>Lexing a printed value\<close>

lemma hex_value_digit: "n < 16 \<Longrightarrow> hex_value (hex_digit n) = Some n"
proof -
  assume n: "n < 16"
  show ?thesis
  proof (cases "n < 10")
    case True
    then have "unat (hex_digit n) = 48 + n"
      by (simp only: hex_digit_def u16_def if_True unat_of_nat) simp
    with True show ?thesis by (simp add: word_le_nat_alt)
  next
    case False
    with n have "unat (hex_digit n) = 87 + n"
      by (simp only: hex_digit_def u16_def if_False unat_of_nat) simp
    with n False show ?thesis by (simp add: word_le_nat_alt)
  qed
qed

lemma hex_digits_value: "n < 65536 \<Longrightarrow>
    n div 4096 * 4096 + n div 256 mod 16 * 256 + n div 16 mod 16 * 16 + n mod 16 = (n :: nat)"
proof -
  have "n div 16 = n div 256 * 16 + n div 16 mod 16"
    using div_mult_mod_eq [of "n div 16" 16] by (simp add: div_mult2_eq [symmetric])
  moreover have "n div 256 = n div 4096 * 16 + n div 256 mod 16"
    using div_mult_mod_eq [of "n div 256" 16] by (simp add: div_mult2_eq [symmetric])
  moreover have "n = n div 16 * 16 + n mod 16" using div_mult_mod_eq [of n 16] by simp
  ultimately show ?thesis by linarith
qed

lemma lex_unicode_escape: "lex_string (unicode_escape u @ us) = prepend u (lex_string us)"
proof -
  have n: "unat u < 65536" using unsigned_less [of u] by simp
  then have "unat u div 4096 < 16" by (simp add: div_less_iff_less_mult)
  then have "hex4 (hex_digit (unat u div 4096)) (hex_digit (unat u div 256 mod 16))
      (hex_digit (unat u div 16 mod 16)) (hex_digit (unat u mod 16)) = Some u"
    by (simp add: hex_value_digit hex_digits_value [OF n] del: hex_value.simps)
  then show ?thesis by (simp add: unicode_escape_def Let_def)
qed

lemma lex_quote_unit: "lex_string (quote_unit u @ us) = prepend u (lex_string us)"
  by (simp add: quote_unit_def simple_escape_def lex_unicode_escape)

lemma surrogate_plain:
  "is_high u \<Longrightarrow> u \<noteq> 34 \<and> u \<noteq> 92 \<and> \<not> u < 32" "is_low u \<Longrightarrow> u \<noteq> 34 \<and> u \<noteq> 92 \<and> \<not> u < 32"
  by (auto simp: is_high_def is_low_def word_less_nat_alt)

lemma lex_plain: "u \<noteq> 34 \<Longrightarrow> u \<noteq> 92 \<Longrightarrow> \<not> u < 32 \<Longrightarrow> lex_string (u # us) = prepend u (lex_string us)"
  by simp

lemma lex_quote_units: "lex_string (quote_units s @ us) = map_option (\<lambda>(t, rest). (s @ t, rest)) (lex_string us)"
proof (induction s rule: quote_units.induct)
  case 1
  then show ?case by (simp add: case_prod_beta option.map_ident)
next
  case (2 u)
  then show ?case by (simp add: lex_unicode_escape lex_quote_unit)
next
  case (3 u v us')
  have fuse: "prepend a (map_option (\<lambda>(t, rest). (x @ t, rest)) r) = map_option (\<lambda>(t, rest). (a # x @ t, rest)) r"
    for a x and r :: "(jsstring \<times> jsstring) option"
    by (cases r) auto
  show ?case
  proof (cases "is_high u \<and> is_low v")
    case True
    with 3 show ?thesis
      by (simp add: lex_plain surrogate_plain fuse fuse [of u "v # us'", simplified] del: lex_string.simps)
  next
    case False
    with 3 show ?thesis 
      by (auto simp: lex_unicode_escape lex_quote_unit fuse fuse [of u "v # us'", simplified] simp del: lex_string.simps)
  qed
qed

lemma lex_quoted: "lex_json (quote_json s @ us) = map_option (\<lambda>ts. TStr s # ts) (lex_json us)"
proof -
  have "lex_token (quote_json s @ us) = Some (TStr s, us)"
    using lex_quote_units [of s "34 # us"] by (simp add: lex_token_def quote_json_def punctuation_def)
  moreover have "\<not> json_space (hd (quote_json s @ us))" by (simp add: quote_json_def json_space_def)
  ultimately show ?thesis by (rule lex_step)
qed

lemma lex_punctuation: "punctuation u = Some t \<Longrightarrow> lex_json (u # us) = map_option (\<lambda>ts. t # ts) (lex_json us)"
  by (rule lex_step) (auto simp: lex_token_def punctuation_def json_space_def)

text \<open>What follows a value in a printed text: nothing, a comma or a closing bracket.\<close>

definition delimited :: "jsstring \<Rightarrow> bool" where
  "delimited us \<longleftrightarrow> us = [] \<or> hd us \<in> {44, 93, 125}"

lemma lex_keyword:
  assumes "(k, t) \<in> {(js ''true'', TTrue), (js ''false'', TFalse), (js ''null'', TNull)}"
  shows "lex_json (k @ us) = map_option (\<lambda>ts. t # ts) (lex_json us)"
  using assms
  by (intro lex_step) (auto simp: lex_token_def js_def unit_of_def startsWith_def json_space_def punctuation_def)

lemma lex_one:
  assumes "delimited us"
  shows "lex_json (js ''1'' @ us) = map_option (\<lambda>ts. TNum (num_lit 1) # ts) (lex_json us)"
proof -
  have "takeWhile is_digit us = []" "dropWhile is_digit us = us"
    using assms by (cases us; auto simp: delimited_def is_digit_def)+
  then have "lex_number (js ''1'' @ us) = Some (num_lit 1, us)"
    using assms by (cases us)
      (auto simp: lex_number_def lex_int_def lex_frac_def lex_exp_def js_def unit_of_def is_digit_def
        delimited_def num_lit_def)
  then have "lex_token (js ''1'' @ us) = Some (TNum (num_lit 1), us)"
    by (simp add: lex_token_def js_def unit_of_def startsWith_def punctuation_def)
  then show ?thesis by (rule lex_step) (simp add: js_def unit_of_def json_space_def)
qed

text \<open>Printed values and their tokens, also as elements of a list with separators.\<close>

definition lexes :: "jsstring \<Rightarrow> token list \<Rightarrow> bool" where
  "lexes t ts \<longleftrightarrow> (\<forall>us. delimited us \<longrightarrow> lex_json (t @ us) = map_option (\<lambda>xs. ts @ xs) (lex_json us))"

lemma map_option_append:
  "map_option (\<lambda>xs. as @ xs) (map_option (\<lambda>xs. bs @ xs) r) = map_option (\<lambda>xs. (as @ bs) @ xs) r"
  "map_option (\<lambda>xs. a # xs) (map_option (\<lambda>xs. bs @ xs) r) = map_option (\<lambda>xs. (a # bs) @ xs) r"
  "map_option (\<lambda>xs. as @ xs) (map_option (\<lambda>xs. b # xs) r) = map_option (\<lambda>xs. (as @ [b]) @ xs) r"
  by (cases r; simp)+

lemma delimited_simps [simp]: "delimited []" "delimited (44 # us)" "delimited (93 # us)" "delimited (125 # us)"
  by (simp_all add: delimited_def)

lemma lexes_join:
  assumes "list_all2 lexes ts tss"
  shows "lexes (join_with [44] ts) (sep_tokens tss)"
  using assms
proof (induction ts arbitrary: tss rule: induct_list012)
  case 1
  then show ?case by (simp add: lexes_def option.map_ident)
next
  case (2 t)
  then show ?case by (auto simp: list_all2_Cons1)
next
  case (3 t t' ts)
  from "3.prems" obtain x y ys where tss: "tss = x # y # ys" "lexes t x" "list_all2 lexes (t' # ts) (y # ys)"
    by (auto simp: list_all2_Cons1)
  have comma: "lex_json (44 # us) = map_option (\<lambda>ts. TComma # ts) (lex_json us)" for us
    by (rule lex_punctuation) (simp add: punctuation_def)
  have IH: "lexes (join_with [44] (t' # ts)) (sep_tokens (y # ys))" by (rule "3.IH"(2) [OF tss(3)])
  show ?case
    using IH tss(2)
    by (simp add: lexes_def tss(1) comma map_option_append option.map_comp comp_def)
qed

lemma lexes_bracket:
  assumes "lexes t ts" "punctuation a = Some p" "punctuation b = Some q" "b \<in> {93, 125}"
  shows "lexes ([a] @ t @ [b]) (p # ts @ [q])"
  using assms
  by (auto simp: lexes_def lex_punctuation map_option_append option.map_comp comp_def)

lemma lexes_member:
  assumes "lexes t ts"
  shows "lexes (quote_json k @ [58] @ t) (TStr k # TColon # ts)"
proof -
  have "lex_json (58 # us) = map_option (\<lambda>ts. TColon # ts) (lex_json us)" for us
    by (rule lex_punctuation) (simp add: punctuation_def)
  with assms show ?thesis
    by (simp add: lexes_def lex_quoted option.map_comp comp_def)
qed

lemma stringify_lexes: "json_ok v \<Longrightarrow> \<exists>t. stringify v = Some t \<and> lexes t (tokens v)"
proof (induction v)
  case (VBool b)
  then show ?case
    using lex_keyword [of "js ''true''" TTrue] lex_keyword [of "js ''false''" TFalse] by (simp add: lexes_def)
next
  case VNull
  then show ?case using lex_keyword [of "js ''null''" TNull] by (simp add: lexes_def)
next
  case (VNum n)
  then have "n = num_lit 1" by simp
  moreover have "stringify (VNum (num_lit 1)) = Some (js ''1'')"
    by (simp only: stringify.simps num_one jsnum.case num_one_string [unfolded num_one])
  ultimately show ?case by (simp add: lexes_def lex_one del: stringify.simps)
next
  case (VStr s)
  then show ?case by (simp add: lexes_def lex_quoted)
next
  case (VArr vs)
  have "list_all2 lexes (map (\<lambda>v. case stringify v of Some t \<Rightarrow> t | None \<Rightarrow> js ''null'') vs) (map tokens vs)"
    using VArr by (fastforce simp: list_all2_map1 list_all2_map2 list_all2_same)
  from lexes_bracket [OF lexes_join [OF this], of 91 TLBrack 93 TRBrack] show ?case
    by (simp add: punctuation_def)
next
  case (VObj kvs)
  let ?mem = "\<lambda>(k, v). quote_json k @ [58] @ the (stringify v)"
  have val: "stringify v = Some (the (stringify v)) \<and> lexes (the (stringify v)) (tokens v)"
    if "(k, v) \<in> set kvs" for k v
  proof -
    have "json_ok v" using VObj.prems that by auto
    then have "\<exists>t. stringify v = Some t \<and> lexes t (tokens v)"
      using VObj.IH [OF that, of v] by simp
    then show ?thesis by auto
  qed
  have "lexes (?mem kv) (case kv of (k, v) \<Rightarrow> TStr k # TColon # tokens v)" if "kv \<in> set kvs" for kv
  proof -
    obtain k v where kv: "kv = (k, v)" by (cases kv)
    with val that have "lexes (the (stringify v)) (tokens v)" by blast
    then show ?thesis unfolding kv case_prod_conv by (rule lexes_member)
  qed
  then have "list_all2 lexes (map ?mem kvs) (map (\<lambda>(k, v). TStr k # TColon # tokens v) kvs)"
    by (simp add: list_all2_map1 list_all2_map2 list_all2_same)
  moreover have "concat (map (\<lambda>(k, v). case stringify v of Some t \<Rightarrow> [quote_json k @ [58] @ t] | None \<Rightarrow> []) kvs)
      = map ?mem kvs"
  proof -
    have "(case kv of (k, v) \<Rightarrow> case stringify v of Some t \<Rightarrow> [quote_json k @ [58] @ t] | None \<Rightarrow> []) = [?mem kv]"
      if "kv \<in> set kvs" for kv
    proof -
      obtain k v where kv: "kv = (k, v)" by (cases kv)
      then have "stringify v = Some (the (stringify v))" using val that by blast
      with kv show ?thesis by (cases "stringify v") simp_all
    qed
    then have "map (\<lambda>(k, v). case stringify v of Some t \<Rightarrow> [quote_json k @ [58] @ t] | None \<Rightarrow> []) kvs
        = map (\<lambda>kv. [?mem kv]) kvs"
      by (intro map_cong) auto
    then show ?thesis by (simp only: concat_map_singleton)
  qed
  ultimately show ?case
    using lexes_bracket [OF lexes_join, of "map ?mem kvs" _ 123 TLBrace 125 TRBrace]
    by (simp add: punctuation_def)
qed simp_all

definition json_text :: "jsval \<Rightarrow> jsstring" where
  "json_text v = the (stringify v)"

lemma json_text_Some: "json_ok v \<Longrightarrow> stringify v = Some (json_text v)"
  using stringify_lexes [of v] by (auto simp: json_text_def)

interpretation json: codec json_text json_parse json_ok
proof unfold_locales
  fix v
  assume ok: "json_ok v"
  then have "lexes (json_text v) (tokens v)" using stringify_lexes [of v] by (auto simp: json_text_def)
  then have "lex_json (json_text v) = Some (tokens v)"
    unfolding lexes_def by (metis append_Nil2 delimited_simps(1) lex_json_Nil option.simps(9))
  then show "json_parse (json_text v) = Some v"
    using parse_tokens_value [OF ok, of "[]" "[]"] by (simp add: json_parse_def)
qed

section \<open>One message, one line\<close>

lemma hex_digit_not_nl: "n < 16 \<Longrightarrow> hex_digit n \<noteq> 10"
  using hex_value_digit [of n] by (auto simp: hex_digit_def dest!: arg_cong [where f = unat])

lemma quote_no_newline: "10 \<notin> set (quote_units s)"
proof -
  have "10 \<notin> set (unicode_escape u)" for u
  proof -
    have "unat u < 65536" using unsigned_less [of u] by simp
    then have "unat u div 4096 < 16" by (simp add: div_less_iff_less_mult)
    then show ?thesis
      using hex_digit_not_nl [of "unat u div 4096"] hex_digit_not_nl [of "unat u div 256 mod 16"]
        hex_digit_not_nl [of "unat u div 16 mod 16"] hex_digit_not_nl [of "unat u mod 16"]
      by (auto simp: unicode_escape_def Let_def)
  qed
  moreover from this have "10 \<notin> set (quote_unit u)" for u by (auto simp: quote_unit_def)
  moreover have "is_high u \<Longrightarrow> u \<noteq> 10" "is_low u \<Longrightarrow> u \<noteq> 10" for u by (auto simp: is_high_def is_low_def)
  ultimately show ?thesis by (induction s rule: quote_units.induct) auto
qed

lemma join_no_newline: "\<forall>t \<in> set ts. 10 \<notin> set t \<Longrightarrow> 10 \<notin> set (join_with [44] ts)"
  by (induction ts rule: induct_list012) auto

lemma stringify_no_newline: "json_ok v \<Longrightarrow> stringify v = Some t \<Longrightarrow> 10 \<notin> set t"
proof (induction v arbitrary: t)
  case (VNum n)
  have "stringify (VNum (num_lit 1)) = Some (js ''1'')"
    by (simp only: stringify.simps num_one jsnum.case num_one_string [unfolded num_one])
  with VNum show ?case by (simp add: js_def unit_of_def del: stringify.simps)
next
  case (VStr s)
  then show ?case using quote_no_newline by (auto simp: quote_json_def)
next
  case (VArr vs)
  have "10 \<notin> set (case stringify v of Some t \<Rightarrow> t | None \<Rightarrow> js ''null'')" if "v \<in> set vs" for v
    using VArr that by (auto split: option.split) (simp add: js_def unit_of_def)
  then have "10 \<notin> set (join_with [44] (map (\<lambda>v. case stringify v of Some t \<Rightarrow> t | None \<Rightarrow> js ''null'') vs))"
    by (intro join_no_newline) auto
  with VArr.prems(2) show ?case by auto
next
  case (VObj kvs)
  have "10 \<notin> set x" if "(k, v) \<in> set kvs" "stringify v = Some y" "x = quote_json k @ [58] @ y" for k v x y
  proof -
    have "10 \<notin> set y" using VObj.IH [OF that(1), of v y] VObj.prems(1) that by auto
    with that(3) quote_no_newline [of k] show ?thesis by (auto simp: quote_json_def)
  qed
  then have "\<forall>t \<in> set (concat (map (\<lambda>(k, v). case stringify v of
      Some t \<Rightarrow> [quote_json k @ [58] @ t] | None \<Rightarrow> []) kvs)). 10 \<notin> set t"
    by (fastforce split: option.splits)
  from join_no_newline [OF this] VObj.prems(2) show ?case by auto
qed (auto simp: js_def unit_of_def)

lemma encode_text: "json_ok v \<Longrightarrow> encode v = json_text v @ [10]"
  by (simp add: encode_def json_text_Some)

lemma json_text_no_newline: "json_ok v \<Longrightarrow> 10 \<notin> set (json_text v)"
  using stringify_no_newline json_text_Some by blast

lemma decode_text: "json_ok v \<Longrightarrow> decode (json_text v) = Inr v"
  by (simp add: decode_def json.dec_enc)

end
