(* ===== verification/LineBuffer.thy ===== *)
theory LineBuffer
  imports JsValue
begin

text \<open>
  The framing layer, class \<open>LineBuffer\<close> of \<open>src/protocol/message.js\<close>: text arrives in
  chunks cut anywhere, complete newline-terminated lines come out, and a line longer than
  the limit ends the stream with \<open>FrameTooLargeError\<close>. The interpretation of \<open>framing\<close>
  shows that the lines do not depend on how the stream was cut.
\<close>

definition MAX_FRAME_SIZE :: nat where
  "MAX_FRAME_SIZE = 64 * 1024"

record line_buffer =
  lb_buffer :: jsstring
  lb_maxFrameSize :: nat

definition new_LineBuffer :: "nat \<Rightarrow> line_buffer" where
  "new_LineBuffer m = \<lparr>lb_buffer = [], lb_maxFrameSize = m\<rparr>"

text \<open>\<open>append(chunk)\<close>: the lines or the error thrown, and the buffer afterwards.\<close>

definition lb_append :: "line_buffer \<Rightarrow> jsstring \<Rightarrow> (js_error + jsstring list) \<times> line_buffer" where
  "lb_append lb chunk =
     (let pieces = split_nl (lb_buffer lb @ chunk);
          partial = last pieces;
          complete = butlast pieces
      in if lb_maxFrameSize lb < byteLength partial
            \<or> list_ex (\<lambda>line. lb_maxFrameSize lb < byteLength line) complete
         then (Inl (FrameTooLargeError (lb_maxFrameSize lb)), lb\<lparr>lb_buffer := []\<rparr>)
         else (Inr complete, lb\<lparr>lb_buffer := partial\<rparr>))"

text \<open>What a caller that stops at the first error sees.\<close>

definition lb_feed :: "line_buffer \<Rightarrow> jsstring \<Rightarrow> js_error + (jsstring list \<times> line_buffer)" where
  "lb_feed lb chunk =
     (case lb_append lb chunk of (Inl e, _) \<Rightarrow> Inl e | (Inr ls, lb') \<Rightarrow> Inr (ls, lb'))"

definition lb_inv :: "line_buffer \<Rightarrow> bool" where
  "lb_inv lb \<longleftrightarrow> 10 \<notin> set (lb_buffer lb) \<and> byteLength (lb_buffer lb) \<le> lb_maxFrameSize lb"

section \<open>One chunk\<close>

text \<open>The test of \<open>append\<close> as one condition on all the pieces.\<close>

definition fits :: "nat \<Rightarrow> jsstring list \<Rightarrow> bool" where
  "fits m ls \<longleftrightarrow> list_all (\<lambda>l. byteLength l \<le> m) ls"

lemma fits_append [simp]: "fits m (ls @ ks) \<longleftrightarrow> fits m ls \<and> fits m ks"
  by (simp add: fits_def)

lemma fits_simps [simp]: "fits m []" "fits m (l # ls) \<longleftrightarrow> byteLength l \<le> m \<and> fits m ls"
  by (simp_all add: fits_def)

lemma fits_butlast_last: "ls \<noteq> [] \<Longrightarrow> fits m ls \<longleftrightarrow> fits m (butlast ls) \<and> byteLength (last ls) \<le> m"
  by (metis append_butlast_last_id fits_append fits_simps)

lemma lb_append_eq:
  "lb_append lb chunk =
    (let pieces = split_nl (lb_buffer lb @ chunk) in
     if fits (lb_maxFrameSize lb) pieces
     then (Inr (butlast pieces), lb\<lparr>lb_buffer := last pieces\<rparr>)
     else (Inl (FrameTooLargeError (lb_maxFrameSize lb)), lb\<lparr>lb_buffer := []\<rparr>))"
proof -
  have ex: "list_ex (\<lambda>l. m < byteLength l) ls \<longleftrightarrow> \<not> fits m ls" for m ls
    by (induction ls) auto
  show ?thesis
    by (simp add: lb_append_def Let_def ex fits_butlast_last [of "split_nl _"] not_le)
qed

lemma lb_feed_eq:
  "lb_feed lb chunk =
    (let pieces = split_nl (lb_buffer lb @ chunk) in
     if fits (lb_maxFrameSize lb) pieces
     then Inr (butlast pieces, lb\<lparr>lb_buffer := last pieces\<rparr>)
     else Inl (FrameTooLargeError (lb_maxFrameSize lb)))"
  by (simp add: lb_feed_def lb_append_eq Let_def)

lemma lb_feed_max: "lb_feed lb chunk = Inr (ls, lb') \<Longrightarrow> lb_maxFrameSize lb' = lb_maxFrameSize lb"
  by (auto simp: lb_feed_eq Let_def split: if_splits)

lemma lb_inv_append: "lb_inv (snd (lb_append lb chunk))"
proof -
  have "10 \<notin> set (last (split_nl s))" for s
    by (rule split_nl_no_newline [of _ s]) simp
  then show ?thesis
    by (auto simp: lb_append_eq lb_inv_def Let_def fits_butlast_last)
qed

lemma lb_inv_new: "lb_inv (new_LineBuffer m)"
  by (simp add: lb_inv_def new_LineBuffer_def)

lemma lb_feed_inv: "lb_feed lb chunk = Inr (ls, lb') \<Longrightarrow> lb_inv lb'"
  using lb_inv_append [of lb chunk] by (auto simp: lb_feed_def split: sum.splits prod.splits)

section \<open>Many chunks\<close>

lemma hd_split_nl_prefix: "10 \<notin> set p \<Longrightarrow> \<exists>l. hd (split_nl (p @ t)) = p @ l"
proof (induction p)
  case Nil
  then show ?case by simp
next
  case (Cons u p)
  then show ?case by (cases "split_nl (p @ t)") auto
qed

lemma fits_split_append:
  assumes "10 \<notin> set p" and "fits m (split_nl (p @ t))"
  shows "byteLength p \<le> m"
proof -
  obtain l where l: "hd (split_nl (p @ t)) = p @ l"
    using hd_split_nl_prefix [OF assms(1)] by blast
  have "hd (split_nl (p @ t)) \<in> set (split_nl (p @ t))" by simp
  with assms(2) l have "byteLength (p @ l) \<le> m" by (auto simp: fits_def list_all_iff)
  with byteLength_prefix [of p l] show "byteLength p \<le> m" by linarith
qed

lemma lb_feed_append:
  "lb_feed lb (x @ y) =
    try_bind (lb_feed lb x) (\<lambda>(ls, lb'). try_bind (lb_feed lb' y) (\<lambda>(ks, lb''). Inr (ls @ ks, lb'')))"
proof -
  let ?ps = "split_nl (lb_buffer lb @ x)" and ?m = "lb_maxFrameSize lb"
  let ?qs = "split_nl (last ?ps @ y)"
  have s: "split_nl (lb_buffer lb @ x @ y) = butlast ?ps @ ?qs"
    using split_nl_append [of "lb_buffer lb @ x" y] by simp
  have "10 \<notin> set (last ?ps)" by (rule split_nl_no_newline [of _ "lb_buffer lb @ x"]) simp
  then have p: "fits ?m ?qs \<Longrightarrow> byteLength (last ?ps) \<le> ?m" by (rule fits_split_append)
  show ?thesis
  proof (cases "fits ?m ?ps")
    case True
    then have "fits ?m (butlast ?ps)" by (simp add: fits_butlast_last [of ?ps])
    with True show ?thesis by (simp add: lb_feed_eq s Let_def butlast_append)
  next
    case False
    with p have "\<not> fits ?m (butlast ?ps @ ?qs)" by (auto simp: fits_butlast_last [of ?ps])
    with False show ?thesis by (simp add: lb_feed_eq s Let_def del: fits_append)
  qed
qed

lemma lb_feed_Nil: "lb_inv lb \<Longrightarrow> lb_feed lb [] = Inr ([], lb)"
  by (simp add: lb_feed_eq lb_inv_def split_nl_single)

interpretation lines: framing lb_feed lb_inv
  by unfold_locales (auto intro: lb_feed_Nil lb_feed_append lb_feed_inv)

text \<open>The state after any chunks, errors included: \<open>append\<close> is called again only if the caller does.\<close>

interpretation lb: machine "\<lambda>chunk lb. snd (lb_append lb chunk)" lb_inv
  by unfold_locales (rule lb_inv_append)

section \<open>What comes out\<close>

lemma split_nl_terminated:
  "(\<forall>l \<in> set ls. 10 \<notin> set l) \<Longrightarrow> split_nl (concat (map (\<lambda>l. l @ nl) ls) @ t) = ls @ split_nl t"
  by (induction ls) (auto simp: split_nl_line)

lemma lb_feed_lines:
  assumes "\<forall>l \<in> set ls. 10 \<notin> set l" and "10 \<notin> set t"
  shows "lb_feed (new_LineBuffer m) (concat (map (\<lambda>l. l @ nl) ls) @ t) =
    (if fits m ls \<and> byteLength t \<le> m
     then Inr (ls, \<lparr>lb_buffer = t, lb_maxFrameSize = m\<rparr>) else Inl (FrameTooLargeError m))"
  using assms by (simp add: lb_feed_eq new_LineBuffer_def split_nl_terminated split_nl_single Let_def)

end
