(* ===== verification/Transport.thy ===== *)
theory Transport
  imports JsonText LineBuffer Message
begin

text \<open>
  A message on its way from one process to another: printed, encoded as UTF-8 bytes, cut
  into chunks by TCP, decoded chunk by chunk, cut into lines, and parsed. The theorems say
  when this is lossless, and that it is not when a chunk ends inside a character.
\<close>

section \<open>Printed messages are well-formed UTF-16\<close>

lemma well_formed_append: "well_formed s \<Longrightarrow> well_formed t \<Longrightarrow> well_formed (s @ t)"
proof (induction s rule: well_formed.induct)
  case (2 u)
  then show ?case by (cases t) auto
qed auto

lemma ascii_units: "list_all (\<lambda>u. unat u < 128) s \<Longrightarrow> well_formed s"
  using ascii_well_formed by (simp add: ascii_def)

lemma hex_digit_ascii: "n < 16 \<Longrightarrow> unat (hex_digit n) < 128"
  by (simp add: hex_digit_def)

lemma well_formed_unicode_escape: "well_formed (unicode_escape u)"
proof -
  have "unat u < 65536" using unsigned_less [of u] by simp
  then have "unat u div 4096 < 16" by (simp add: div_less_iff_less_mult)
  then show ?thesis by (intro ascii_units) (simp add: unicode_escape_def Let_def hex_digit_ascii)
qed

lemma well_formed_quote_unit: "\<not> is_high u \<Longrightarrow> \<not> is_low u \<Longrightarrow> well_formed (quote_unit u)"
  by (auto simp: quote_unit_def well_formed_unicode_escape is_high_def is_low_def)

lemma well_formed_quote_units: "well_formed (quote_units s)"
proof (induction s rule: quote_units.induct)
  case (3 u v us)
  then show ?case
    by (auto intro: well_formed_append simp: well_formed_unicode_escape well_formed_quote_unit)
qed (simp_all add: well_formed_unicode_escape well_formed_quote_unit)

lemma well_formed_join: "\<forall>t \<in> set ts. well_formed t \<Longrightarrow> well_formed (join_with [44] ts)"
proof (induction ts rule: induct_list012)
  case (3 t t' ts)
  have "well_formed [44]" by (simp add: is_high_def is_low_def)
  then have "well_formed (t @ [44] @ join_with [44] (t' # ts))"
    using 3 by (intro well_formed_append) simp_all
  then show ?case by simp
qed simp_all

lemma well_formed_ascii_js: "list_all (\<lambda>c. of_char c < (128 :: nat)) s \<Longrightarrow> well_formed (js s)"
  by (simp add: ascii_well_formed ascii_js)

lemma well_formed_quote: "well_formed (quote_json s)"
proof -
  have "well_formed [34]" by (simp add: is_high_def is_low_def)
  then show ?thesis unfolding quote_json_def by (intro well_formed_append well_formed_quote_units)
qed

lemma well_formed_singles: "well_formed [91]" "well_formed [93]" "well_formed [123]" "well_formed [125]"
  "well_formed [58]" "well_formed [10]"
  by (simp_all add: is_high_def is_low_def)

lemma well_formed_stringify: "stringify v = Some t \<Longrightarrow> json_ok v \<Longrightarrow> well_formed t"
proof (induction v arbitrary: t)
  case (VNum n)
  then show ?case
    using ascii_well_formed [OF ascii_num_to_string [of n]] well_formed_ascii_js [of "''null''"]
    by (cases n) (simp_all only: stringify.simps jsnum.case option.inject, auto)
next
  case (VArr vs)
  have "well_formed (case stringify v of Some t \<Rightarrow> t | None \<Rightarrow> js ''null'')" if "v \<in> set vs" for v
    using VArr that by (auto simp: well_formed_ascii_js split: option.split)
  then have "well_formed (join_with [44] (map (\<lambda>v. case stringify v of Some t \<Rightarrow> t | None \<Rightarrow> js ''null'') vs))"
    by (intro well_formed_join) auto
  then have "well_formed ([91] @ join_with [44] (map (\<lambda>v. case stringify v of Some t \<Rightarrow> t | None \<Rightarrow> js ''null'') vs) @ [93])"
    by (intro well_formed_append well_formed_singles)
  with VArr.prems(1) show ?case by auto
next
  case (VObj kvs)
  let ?ms = "concat (map (\<lambda>(k, v). case stringify v of Some t \<Rightarrow> [quote_json k @ [58] @ t] | None \<Rightarrow> []) kvs)"
  have "well_formed x" if "(k, v) \<in> set kvs" "stringify v = Some y" "x = quote_json k @ [58] @ y" for k v x y
  proof -
    have "well_formed y" using VObj.IH [OF that(1), of v y] VObj.prems(2) that by auto
    with that(3) show ?thesis by (auto intro: well_formed_append well_formed_quote well_formed_singles
          simp del: append_Cons)
  qed
  then have "\<forall>t \<in> set ?ms. well_formed t" by (fastforce split: option.splits)
  then have "well_formed ([123] @ join_with [44] ?ms @ [125])"
    by (intro well_formed_append well_formed_join well_formed_singles)
  with VObj.prems(1) show ?case by auto
qed (auto simp: well_formed_ascii_js well_formed_quote)

lemma well_formed_json_text: "json_ok v \<Longrightarrow> well_formed (json_text v)"
  using well_formed_stringify json_text_Some by blast

lemma utf8_encode_text: "json_ok v \<Longrightarrow> utf8_decode (utf8_encode (encode v)) = encode v"
  unfolding utf8_roundtrip_iff encode_text
  by (intro well_formed_append well_formed_json_text well_formed_singles)

section \<open>A stream of messages\<close>

text \<open>What a receiver does with a chunk before it looks at the lines.\<close>

definition feed_bytes :: "line_buffer \<Rightarrow> bytes \<Rightarrow> js_error + (jsstring list \<times> line_buffer)" where
  "feed_bytes lb chunk = lb_feed lb (utf8_decode chunk)"

lemma feed_all_bytes: "feed_all feed_bytes lb cs = feed_all lb_feed lb (map utf8_decode cs)"
  by (induction cs arbitrary: lb) (simp_all add: feed_bytes_def)

text \<open>
  Property C28: messages arrive. Any list of messages, none longer than a frame, sent one
  after the other and cut by TCP into any chunks that end at character boundaries, gives
  the receiver exactly one line per message, in order, with nothing left over, and each
  line parses to the message that was sent.
\<close>

theorem messages_arrive:
  assumes "\<forall>m \<in> set ms. json_ok m \<and> byteLength (json_text m) \<le> MAX_FRAME_SIZE"
    and "concat ts = concat (map encode ms)" and "\<forall>t \<in> set ts. well_formed t"
  shows "\<exists>ls. feed_all feed_bytes (new_LineBuffer MAX_FRAME_SIZE) (map utf8_encode ts)
      = Inr (ls, new_LineBuffer MAX_FRAME_SIZE)
    \<and> map decode ls = map Inr ms"
proof -
  let ?ls = "map json_text ms"
  have "map utf8_decode (map utf8_encode ts) = ts"
    using assms(3) by (simp add: utf8_decode_encode map_idI)
  then have "feed_all feed_bytes (new_LineBuffer MAX_FRAME_SIZE) (map utf8_encode ts)
    = lb_feed (new_LineBuffer MAX_FRAME_SIZE) (concat (map encode ms))"
    by (simp add: feed_all_bytes lines.feed_all_concat [OF lb_inv_new] assms(2))
  moreover have "map encode ms = map (\<lambda>l. l @ nl) ?ls"
    using assms(1) by (simp add: encode_text nl_def)
  moreover have "\<forall>l \<in> set ?ls. 10 \<notin> set l" "fits MAX_FRAME_SIZE ?ls"
    using assms(1) json_text_no_newline by (auto simp: fits_def list_all_iff)
  ultimately have "feed_all feed_bytes (new_LineBuffer MAX_FRAME_SIZE) (map utf8_encode ts)
    = Inr (?ls, new_LineBuffer MAX_FRAME_SIZE)"
    using lb_feed_lines [of ?ls "[]" MAX_FRAME_SIZE] by (simp add: new_LineBuffer_def)
  moreover have "map decode ?ls = map Inr ms" using assms(1) by (simp add: decode_text)
  ultimately show ?thesis by blast
qed

definition sample_text :: jsval where
  "sample_text = createErrorMessage (VStr (js ''hi'')) (VStr (js ''1''))"

lemma sample_text_ok: "json_ok sample_text"
  by (simp add: sample_text_def createErrorMessage_def obj_def array_index_def js_def jsq_def unit_of_def is_digit_def)

lemma sample_text_printed: "json_text sample_text =
    jsq ''{`type`:`ERROR`,`version`:`1`,`text`:`hi`}''"
  by (simp add: sample_text_def createErrorMessage_def obj_def json_text_def quote_json_def js_def jsq_def unit_of_def
      quote_unit_def is_high_def is_low_def)

theorem messages_arrive_witness:
  "\<exists>ls. feed_all feed_bytes (new_LineBuffer MAX_FRAME_SIZE) [utf8_encode (encode sample_text)]
      = Inr (ls, new_LineBuffer MAX_FRAME_SIZE) \<and> map decode ls = [Inr sample_text]"
proof -
  have "byteLength (json_text sample_text) \<le> 3 * length (json_text sample_text)"
    using byteLength_bounds by blast
  also have "\<dots> \<le> MAX_FRAME_SIZE" by (simp add: sample_text_printed MAX_FRAME_SIZE_def js_def jsq_def)
  finally have "\<forall>m \<in> set [sample_text]. json_ok m \<and> byteLength (json_text m) \<le> MAX_FRAME_SIZE"
    by (simp add: sample_text_ok)
  from messages_arrive [OF this, of "[encode sample_text]"] utf8_encode_text [OF sample_text_ok]
  show ?thesis by (simp add: utf8_roundtrip_iff)
qed

lemma short_line_fed:
  assumes "10 \<notin> set line" "3 * length line \<le> MAX_FRAME_SIZE"
  shows "lb_feed (new_LineBuffer MAX_FRAME_SIZE) (line @ nl) = Inr ([line], new_LineBuffer MAX_FRAME_SIZE)"
proof -
  have "byteLength line \<le> MAX_FRAME_SIZE" using byteLength_bounds [of line] assms(2) by linarith
  then show ?thesis
    using lb_feed_lines [of "[line]" "[]" MAX_FRAME_SIZE] assms(1) by (simp add: new_LineBuffer_def)
qed

lemma frame_arrives:
  assumes "json_ok m" "byteLength (json_text m) \<le> MAX_FRAME_SIZE"
  shows "lb_append (new_LineBuffer MAX_FRAME_SIZE) (utf8_decode (utf8_encode (encode m)))
    = (Inr [json_text m], new_LineBuffer MAX_FRAME_SIZE)"
proof -
  have "lb_feed (new_LineBuffer MAX_FRAME_SIZE) (encode m) = Inr ([json_text m], new_LineBuffer MAX_FRAME_SIZE)"
    using lb_feed_lines [of "[json_text m]" "[]" MAX_FRAME_SIZE] json_text_no_newline [OF assms(1)] assms(2)
    by (simp add: encode_text [OF assms(1)] nl_def new_LineBuffer_def)
  then show ?thesis
    unfolding utf8_encode_text [OF assms(1)] by (auto simp: lb_feed_def split: prod.splits sum.splits)
qed

lemma object_text_nonblank: "json_ok (VObj kvs) \<Longrightarrow> trim (json_text (VObj kvs)) \<noteq> []"
  by (simp add: json_text_def trim_eq_Nil_iff is_js_space_def)

lemma ascii_encode_append: "ascii s \<Longrightarrow> utf8_encode (s @ t) = map (\<lambda>u. b8 (unat u)) s @ utf8_encode t"
proof (induction s)
  case (Cons u s)
  then have "\<not> is_high u" "\<not> is_low u" using ascii_not_surrogate by auto
  then have "scalars (u # s @ t) = unat u # scalars (s @ t)" by (cases "s @ t") simp_all
  with Cons show ?case by (simp add: utf8_encode_def utf8_scalar_def)
qed simp

lemma lone_lead: "utf8_decode [0xC3] = [0xFFFD]" "utf8_decode (0xA9 # map (\<lambda>u. b8 (unat u)) s) =
    0xFFFD # utf8_decode (map (\<lambda>u. b8 (unat u)) s)"
  by (simp_all add: utf8_decode_def utf16_scalar_def u16_def)

text \<open>
  Property C40: a character split between two chunks does not arrive. The two halves of the
  UTF-8 encoding of a CHAT line whose text is U+00E9, cut inside that character, are decoded
  separately, and the receiver's line is not the line that was sent: the character has
  become two replacement characters.
\<close>

theorem split_character_lost:
  "let line = jsq ''{`type`:`CHAT`,`text`:`'' @ [0xE9] @ jsq ''`}'';
       bytes = utf8_encode (line @ nl)
   in feed_all feed_bytes (new_LineBuffer MAX_FRAME_SIZE) [bytes] = Inr ([line], new_LineBuffer MAX_FRAME_SIZE)
    \<and> feed_all feed_bytes (new_LineBuffer MAX_FRAME_SIZE) [take 24 bytes, drop 24 bytes]
      = Inr ([jsq ''{`type`:`CHAT`,`text`:`'' @ [0xFFFD, 0xFFFD] @ jsq ''`}''],
             new_LineBuffer MAX_FRAME_SIZE)"
proof -
  let ?a = "jsq ''{`type`:`CHAT`,`text`:`''" and ?z = "jsq ''`}''"
  let ?line = "?a @ [0xE9] @ ?z" and ?got = "?a @ [0xFFFD, 0xFFFD] @ ?z"
  let ?b = "\<lambda>s. map (\<lambda>u. b8 (unat u)) s"
  have a: "ascii ?a" and z: "ascii (?z @ nl)" by (simp_all add: ascii_js ascii_jsq ascii_append nl_def)
  have "utf8_encode ([0xE9] @ ?z @ nl) = [0xC3, 0xA9] @ ?b (?z @ nl)"
    using ascii_encode [OF z] by (simp add: utf8_encode_def utf8_scalar_def is_high_def is_low_def js_def jsq_def b8_def)
  then have bytes: "utf8_encode (?line @ nl) = ?b ?a @ [0xC3, 0xA9] @ ?b (?z @ nl)"
    using ascii_encode_append [OF a, of "[0xE9] @ ?z @ nl"] by simp
  have len: "length (?b ?a) = 23" by (simp add: js_def jsq_def)
  have cut: "take 24 (utf8_encode (?line @ nl)) = ?b ?a @ [0xC3]"
    "drop 24 (utf8_encode (?line @ nl)) = 0xA9 # ?b (?z @ nl)"
    unfolding bytes using len by simp_all
  have dec: "utf8_decode (?b s @ bs) = s @ utf8_decode bs" if "ascii s" for s bs
    using utf8_decode_append [of s bs] utf8_decode_encode [OF ascii_well_formed [OF that]]
    by (simp add: ascii_encode [OF that])
  have halves: "utf8_decode (?b ?a @ [0xC3]) = ?a @ [0xFFFD]"
    "utf8_decode (0xA9 # ?b (?z @ nl)) = 0xFFFD # ?z @ nl"
    using dec [OF a, of "[0xC3]"] dec [OF z, of "[]"] lone_lead(1) lone_lead(2) [of "?z @ nl"]
    by (simp_all add: utf8_decode_def)
  have "well_formed (?line @ nl)"
    by (simp add: js_def jsq_def unit_of_def is_high_def is_low_def nl_def)
  then have "utf8_decode (utf8_encode (?line @ nl)) = ?line @ nl" by (rule utf8_decode_encode)
  moreover have "lb_feed (new_LineBuffer MAX_FRAME_SIZE) (?line @ nl) = Inr ([?line], new_LineBuffer MAX_FRAME_SIZE)"
    by (rule short_line_fed) (simp_all add: js_def jsq_def unit_of_def MAX_FRAME_SIZE_def)
  ultimately have whole: "feed_all feed_bytes (new_LineBuffer MAX_FRAME_SIZE) [utf8_encode (?line @ nl)]
    = Inr ([?line], new_LineBuffer MAX_FRAME_SIZE)"
    by (simp add: feed_bytes_def)
  have "feed_all feed_bytes (new_LineBuffer MAX_FRAME_SIZE)
      [take 24 (utf8_encode (?line @ nl)), drop 24 (utf8_encode (?line @ nl))]
    = lb_feed (new_LineBuffer MAX_FRAME_SIZE) (?got @ nl)"
    unfolding cut feed_all_bytes lines.feed_all_concat [OF lb_inv_new] by (simp only: list.map halves) simp
  also have "\<dots> = Inr ([?got], new_LineBuffer MAX_FRAME_SIZE)"
    by (rule short_line_fed) (simp_all add: js_def jsq_def unit_of_def MAX_FRAME_SIZE_def)
  finally show ?thesis using whole by (simp only: Let_def append_assoc)
qed

end
