(* ===== verification/Server.thy ===== *)
theory Server
  imports Transport MessageLaws
begin

text \<open>
  \<open>src/server.js\<close>: the relay. The state is the table of the two slots and, for every
  connection, what its closure holds; a step reacts to one event that Node reports about a
  socket and returns the effects in order, and either the new state or the error that
  nothing catches, which ends the process. Sockets are numbered. What Node knows about a
  socket, and which events it can report in which state, is \<open>sv_sockets\<close> and \<open>possible\<close>.
\<close>

section \<open>State and effects\<close>

datatype socket_state = Unseen | Open | Destroyed | Closed

text \<open>The variables of a connection's closure. A rejected socket has none and no listeners.\<close>

record conn =
  cn_slot :: jsstring
  cn_buffer :: line_buffer
  cn_closing :: bool

text \<open>
  \<open>sv_host\<close> and \<open>sv_port\<close> are the constants \<open>HOST\<close> and \<open>PORT\<close>, the latter a valid port
  number. \<open>sv_listening\<close>: the listening socket is open; \<open>sv_stopping\<close>: \<open>server.close\<close> was called.
\<close>

record server =
  sv_host :: jsstring
  sv_port :: nat
  sv_listening :: bool
  sv_stopping :: bool
  sv_clients :: "jsstring \<Rightarrow> nat option"
  sv_conns :: "nat \<Rightarrow> conn option"
  sv_sockets :: "nat \<Rightarrow> socket_state"

datatype sv_event =
    Listening
  | ListenError bool jsstring
  | Connect nat jsstring
  | DataIn nat bytes
  | SocketDestroyed nat
  | SocketClose nat
  | SocketError nat jsstring
  | DestroyTimer nat
  | Shutdown
  | ExitDue_server

text \<open>
  \<open>ListenError\<close> says whether the code is \<open>EADDRINUSE\<close>; \<open>Shutdown\<close> is either signal; and
  \<open>ExitDue_server\<close> is the callback of \<open>server.close\<close>, once every connection has ended, or the
  timer of one second behind it.

  \<open>Write\<close> and \<open>End\<close> act on a socket; \<open>Log\<close> prints a line with its time, \<open>Console\<close> without;
  \<open>LogError\<close> logs a text followed by the message of an error whose text the program does
  not fix.
\<close>

datatype effect =
    Write nat jsstring
  | End nat "jsstring option"
  | StartTimer nat
  | Log jsstring
  | LogError jsstring js_error
  | Console jsstring
  | ConsoleError jsstring
  | CloseListener
  | FallbackTimer
  | ExitProcess nat

definition CLIENT_A :: jsstring where "CLIENT_A = js ''Client A''"
definition CLIENT_B :: jsstring where "CLIENT_B = js ''Client B''"

definition SLOTS :: "jsstring list" where "SLOTS = [CLIENT_A, CLIENT_B]"

definition server_start :: "jsstring \<Rightarrow> nat \<Rightarrow> server" where
  "server_start host port = \<lparr>sv_host = host, sv_port = port, sv_listening = False, sv_stopping = False,
     sv_clients = (\<lambda>slot. None), sv_conns = (\<lambda>k. None), sv_sockets = (\<lambda>k. Unseen)\<rparr>"

definition otherSlot :: "jsstring \<Rightarrow> jsstring" where
  "otherSlot slot = (if slot = CLIENT_A then CLIENT_B else CLIENT_A)"

definition freeSlot :: "server \<Rightarrow> jsstring option" where
  "freeSlot sv = find (\<lambda>slot. sv_clients sv slot = None) SLOTS"

section \<open>Sending\<close>

definition is_destroyed :: "server \<Rightarrow> nat \<Rightarrow> bool" where
  "is_destroyed sv k \<longleftrightarrow> sv_sockets sv k = Destroyed \<or> sv_sockets sv k = Closed"

text \<open>A write to a socket that is not destroyed does not throw; what it cannot send, it drops.\<close>

definition writeTo :: "server \<Rightarrow> nat option \<Rightarrow> jsstring \<Rightarrow> effect list" where
  "writeTo sv socket txt =
     (case socket of None \<Rightarrow> [] | Some k \<Rightarrow> if is_destroyed sv k then [] else [Write k txt])"

definition send :: "server \<Rightarrow> nat option \<Rightarrow> jsval \<Rightarrow> effect list" where
  "send sv socket messageObj = writeTo sv socket (encode messageObj)"

definition error_msg :: "jsstring \<Rightarrow> jsval" where
  "error_msg txt = createErrorMessage (VStr txt) PROTOCOL_VERSION"

definition system_msg :: "jsstring \<Rightarrow> jsval" where
  "system_msg txt = createSystemMessage (VStr txt) PROTOCOL_VERSION"

definition peer_event_msg :: "jsstring \<Rightarrow> jsstring \<Rightarrow> jsstring \<Rightarrow> jsval" where
  "peer_event_msg event peer txt = createPeerEventMessage (VStr event) (VStr peer) (VStr txt) PROTOCOL_VERSION"

section \<open>A new connection\<close>

definition on_connect :: "nat \<Rightarrow> jsstring \<Rightarrow> server \<Rightarrow> server \<times> effect list" where
  "on_connect k remote sv0 =
     (let sv = sv0\<lparr>sv_sockets := (sv_sockets sv0)(k := Open)\<rparr> in
      case freeSlot sv of
        None \<Rightarrow>
          (sv, [Log (js ''Rejected connection from '' @ remote @ js '': server already has two clients.'')]
            @ send sv (Some k) (error_msg (js ''CipherLink server already has two clients connected. Try again later.''))
            @ [End k None])
      | Some slot \<Rightarrow>
          let sv1 = sv\<lparr>sv_clients := (sv_clients sv)(slot := Some k),
                sv_conns := (sv_conns sv)(k := Some \<lparr>cn_slot = slot, cn_buffer = new_LineBuffer MAX_FRAME_SIZE, cn_closing = False\<rparr>)\<rparr>;
              peerId = otherSlot slot
          in (sv1, [Log (slot @ js '' connected from '' @ remote)]
               @ send sv1 (Some k) (system_msg (js ''Connected as '' @ slot))
               @ (case sv_clients sv1 peerId of None \<Rightarrow> []
                  | Some p \<Rightarrow>
                      send sv1 (Some p) (peer_event_msg PEER_JOINED slot (slot @ js '' has joined the chat.''))
                      @ send sv1 (Some k) (peer_event_msg PEER_JOINED peerId (peerId @ js '' is already connected.'')))))"

section \<open>Data\<close>

text \<open>The relay of one message that passed validation, on connection \<open>k\<close> of slot \<open>slot\<close>.\<close>

definition relay :: "server \<Rightarrow> nat \<Rightarrow> jsstring \<Rightarrow> jsstring \<Rightarrow> jsval \<Rightarrow> effect list" where
  "relay sv k slot line msg =
     (let peerId = otherSlot slot; ty = text_of (field msg ''type'');
          undelivered = send sv (Some k) (system_msg (peerId @ js '' is not connected. Message not delivered.''))
      in
      if ty \<in> set HANDSHAKE_TYPES then
        (if field msg ''sender'' \<noteq> VStr slot
         then [Log (js ''Rejected '' @ ty @ js '' from '' @ slot @ js '': sender does not match the connection identity.'')]
              @ send sv (Some k) (error_msg (ty @ js '' sender does not match your connection identity.''))
         else if ty \<noteq> HELLO \<and> field msg ''recipient'' \<noteq> VStr peerId
         then [Log (js ''Rejected '' @ ty @ js '' from '' @ slot @ js '': recipient is not '' @ peerId @ js ''.'')]
              @ send sv (Some k) (error_msg (ty @ js '' recipient must be '' @ peerId @ js ''.''))
         else [Log (slot @ js '' -> '' @ peerId @ js '': '' @ ty)]
              @ (case sv_clients sv peerId of
                   Some p \<Rightarrow> writeTo sv (Some p) (line @ [10])
                 | None \<Rightarrow> undelivered))
      else if ty \<noteq> CHAT
      then send sv (Some k) (error_msg (js ''Server does not accept '' @ quoted ty @ js '' messages from clients.''))
      else [Log (slot @ js '' -> '' @ peerId @ js '': '' @ text_of (field msg ''text''))]
           @ (case sv_clients sv peerId of
                Some p \<Rightarrow> send sv (Some p) (createChatMessage (VStr slot) (field msg ''text'') PROTOCOL_VERSION)
              | None \<Rightarrow> undelivered))"

definition handle_line :: "'r node_crypto \<Rightarrow> server \<Rightarrow> nat \<Rightarrow> jsstring \<Rightarrow> jsstring \<Rightarrow> js_error + effect list" where
  "handle_line C sv k slot line =
     (if trim line = [] then Inr []
      else case decode line of
        Inl e \<Rightarrow> Inr ([LogError (js ''Malformed JSON from '' @ slot @ js '': '') e]
                   @ send sv (Some k) (error_msg (js ''Malformed message ignored (invalid JSON).'')))
      | Inr msg \<Rightarrow>
          case validateMessage C msg of
            Inl e \<Rightarrow> Inl e
          | Inr (Invalid reason) \<Rightarrow>
              Inr ([Log (js ''Invalid message from '' @ slot @ js '': '' @ reason)] @ send sv (Some k) (error_msg reason))
          | Inr Valid \<Rightarrow> Inr (relay sv k slot line msg))"

text \<open>The loop over the lines: the effects up to an uncaught error, and the error.\<close>

fun handle_lines :: "'r node_crypto \<Rightarrow> server \<Rightarrow> nat \<Rightarrow> jsstring \<Rightarrow> jsstring list \<Rightarrow> effect list \<times> js_error option" where
  "handle_lines C sv k slot [] = ([], None)"
| "handle_lines C sv k slot (line # lines) =
     (case handle_line C sv k slot line of
        Inl e \<Rightarrow> ([], Some e)
      | Inr es \<Rightarrow> let (es', r) = handle_lines C sv k slot lines in (es @ es', r))"

definition set_conn :: "nat \<Rightarrow> conn \<Rightarrow> server \<Rightarrow> server" where
  "set_conn k c sv = sv\<lparr>sv_conns := (sv_conns sv)(k := Some c)\<rparr>"

definition frame_limit_text :: jsstring where
  "frame_limit_text = js ''Frame exceeds the maximum size of '' @ nat_to_string MAX_FRAME_SIZE
     @ js '' bytes. Closing connection.''"

text \<open>\<open>append\<close> throws nothing but \<open>FrameTooLargeError\<close>.\<close>

definition on_data :: "'r node_crypto \<Rightarrow> nat \<Rightarrow> conn \<Rightarrow> bytes \<Rightarrow> server \<Rightarrow> (js_error + server) \<times> effect list" where
  "on_data C k c chunk sv =
     (if cn_closing c then (Inr sv, [])
      else case lb_append (cn_buffer c) (utf8_decode chunk) of
        (Inl e, lb) \<Rightarrow>
          (Inr (set_conn k (c\<lparr>cn_buffer := lb, cn_closing := True\<rparr>) sv),
           [Log (cn_slot c @ js '' sent a frame larger than '' @ nat_to_string MAX_FRAME_SIZE
              @ js '' bytes; closing its connection.''),
            End k (Some (encode (error_msg frame_limit_text))), StartTimer k])
      | (Inr lines, lb) \<Rightarrow>
          let sv1 = set_conn k (c\<lparr>cn_buffer := lb\<rparr>) sv;
              (es, r) = handle_lines C sv1 k (cn_slot c) lines
          in (case r of None \<Rightarrow> Inr sv1 | Some e \<Rightarrow> Inl e, es))"

section \<open>The end of a connection\<close>

definition on_close :: "nat \<Rightarrow> conn \<Rightarrow> server \<Rightarrow> server \<times> effect list" where
  "on_close k c sv =
     (let slot = cn_slot c; peerId = otherSlot slot;
          sv1 = sv\<lparr>sv_clients := (sv_clients sv)(slot := None)\<rparr>
      in (sv1, [Log (slot @ js '' disconnected'')]
           @ (case sv_clients sv1 peerId of None \<Rightarrow> []
              | Some p \<Rightarrow> send sv1 (Some p) (peer_event_msg PEER_LEFT slot (slot @ js '' has disconnected.'')))))"

definition shutdown_slot :: "server \<Rightarrow> jsstring \<Rightarrow> effect list" where
  "shutdown_slot sv slot =
     (case sv_clients sv slot of None \<Rightarrow> []
      | Some k \<Rightarrow> send sv (Some k) (system_msg (js ''Server is shutting down.'')) @ [End k None])"

definition on_shutdown :: "server \<Rightarrow> server \<times> effect list" where
  "on_shutdown sv =
     (sv\<lparr>sv_listening := False, sv_stopping := True\<rparr>,
      [Log (js ''Shutting down server...'')] @ concat (map (shutdown_slot sv) SLOTS) @ [CloseListener, FallbackTimer])"

section \<open>The listening socket\<close>

definition on_listening :: "server \<Rightarrow> server \<times> effect list" where
  "on_listening sv =
     (sv\<lparr>sv_listening := True\<rparr>,
      [Console (js ''CipherLink Server''),
       Console (js ''Listening on '' @ sv_host sv @ js '':'' @ nat_to_string (sv_port sv)),
       Console (js ''Waiting for clients...'')])"

definition on_listen_error :: "bool \<Rightarrow> jsstring \<Rightarrow> server \<Rightarrow> effect list" where
  "on_listen_error in_use message sv =
     (if in_use
      then [ConsoleError (js ''Port '' @ nat_to_string (sv_port sv)
              @ js '' is already in use. Is another CipherLink server running?''),
            ConsoleError (js ''Stop it, or choose another port: npm run server -- '' @ nat_to_string (sv_port sv + 1))]
      else [Log (js ''Server error: '' @ message)])
     @ [ExitProcess 1]"

section \<open>One event\<close>

text \<open>
  An \<open>error\<close> event on a socket without a listener, a rejected one, is thrown; its
  \<open>close\<close> and \<open>data\<close> events go nowhere.
\<close>

definition set_socket :: "nat \<Rightarrow> socket_state \<Rightarrow> server \<Rightarrow> server" where
  "set_socket k st sv = sv\<lparr>sv_sockets := (sv_sockets sv)(k := st)\<rparr>"

fun server_step :: "'r node_crypto \<Rightarrow> sv_event \<Rightarrow> server \<Rightarrow> (js_error + server) \<times> effect list" where
  "server_step C Listening sv = (let (sv', es) = on_listening sv in (Inr sv', es))"
| "server_step C (ListenError in_use m) sv = (Inr sv, on_listen_error in_use m sv)"
| "server_step C (Connect k remote) sv = (let (sv', es) = on_connect k remote sv in (Inr sv', es))"
| "server_step C (DataIn k chunk) sv =
     (case sv_conns sv k of None \<Rightarrow> (Inr sv, []) | Some c \<Rightarrow> on_data C k c chunk sv)"
| "server_step C (SocketDestroyed k) sv = (Inr (set_socket k Destroyed sv), [])"
| "server_step C (SocketClose k) sv =
     (let sv1 = set_socket k Closed sv in
      case sv_conns sv k of None \<Rightarrow> (Inr sv1, [])
      | Some c \<Rightarrow> let (sv2, es) = on_close k c sv1 in (Inr sv2, es))"
| "server_step C (SocketError k m) sv =
     (case sv_conns sv k of
        None \<Rightarrow> (Inl NodeError, [])
      | Some c \<Rightarrow> (Inr sv, [Log (js ''Socket error on '' @ cn_slot c @ js '': '' @ m)]))"
| "server_step C (DestroyTimer k) sv =
     (Inr (if sv_sockets sv k = Open then set_socket k Destroyed sv else sv), [])"
| "server_step C Shutdown sv = (let (sv', es) = on_shutdown sv in (Inr sv', es))"
| "server_step C ExitDue_server sv = (Inr sv, [ExitProcess 0])"

text \<open>Which events Node can report.\<close>

fun possible :: "server \<Rightarrow> sv_event \<Rightarrow> bool" where
  "possible sv Listening \<longleftrightarrow> \<not> sv_listening sv \<and> \<not> sv_stopping sv"
| "possible sv (ListenError in_use m) \<longleftrightarrow> True"
| "possible sv (Connect k remote) \<longleftrightarrow> sv_listening sv \<and> sv_sockets sv k = Unseen"
| "possible sv (DataIn k chunk) \<longleftrightarrow> sv_sockets sv k = Open"
| "possible sv (SocketDestroyed k) \<longleftrightarrow> sv_sockets sv k = Open"
| "possible sv (SocketClose k) \<longleftrightarrow> sv_sockets sv k = Open \<or> sv_sockets sv k = Destroyed"
| "possible sv (SocketError k m) \<longleftrightarrow> sv_sockets sv k = Open \<or> sv_sockets sv k = Destroyed"
| "possible sv (DestroyTimer k) \<longleftrightarrow> (\<exists>c. sv_conns sv k = Some c \<and> cn_closing c)"
| "possible sv Shutdown \<longleftrightarrow> True"
| "possible sv ExitDue_server \<longleftrightarrow> sv_stopping sv"

end
