(* ===== verification/ServerLaws.thy ===== *)
theory ServerLaws
  imports Server SampleCrypto
begin

text \<open>
  What the relay promises: the invariant of its slots over every sequence of events Node
  can report, what it forwards and to whom, and exactly which events end the process.
\<close>

section \<open>The invariant\<close>

definition live_socket :: "server \<Rightarrow> nat \<Rightarrow> bool" where
  "live_socket sv k \<longleftrightarrow> sv_sockets sv k = Open \<or> sv_sockets sv k = Destroyed"

text \<open>
  A slot is taken by exactly the connection that has it and whose socket is not closed;
  the buffers respect the frame limit, and that of a closing connection is empty.
\<close>

definition server_inv :: "server \<Rightarrow> bool" where
  "server_inv sv \<longleftrightarrow>
     (\<forall>slot k. sv_clients sv slot = Some k \<longleftrightarrow>
        (\<exists>c. sv_conns sv k = Some c \<and> cn_slot c = slot \<and> live_socket sv k))
     \<and> (\<forall>k c. sv_conns sv k = Some c \<longrightarrow> cn_slot c \<in> set SLOTS \<and> sv_sockets sv k \<noteq> Unseen
          \<and> lb_inv (cn_buffer c) \<and> lb_maxFrameSize (cn_buffer c) = MAX_FRAME_SIZE
          \<and> (cn_closing c \<longrightarrow> lb_buffer (cn_buffer c) = []))"

lemma server_inv_start: "server_inv (server_start host port)"
  by (simp add: server_inv_def server_start_def)

lemma slot_names: "CLIENT_A \<noteq> CLIENT_B"
  by (simp add: CLIENT_A_def CLIENT_B_def)

lemma otherSlot_SLOTS: "slot \<in> set SLOTS \<Longrightarrow> otherSlot slot \<in> set SLOTS \<and> otherSlot slot \<noteq> slot
    \<and> otherSlot (otherSlot slot) = slot"
  using slot_names by (auto simp: otherSlot_def SLOTS_def)

lemma freeSlot_Some: "freeSlot sv = Some slot \<Longrightarrow> slot \<in> set SLOTS \<and> sv_clients sv slot = None"
  by (auto simp: freeSlot_def SLOTS_def split: if_splits)

lemma freeSlot_None: "freeSlot sv = None \<longleftrightarrow> sv_clients sv CLIENT_A \<noteq> None \<and> sv_clients sv CLIENT_B \<noteq> None"
  by (auto simp: freeSlot_def SLOTS_def)

lemma lb_append_max: "lb_maxFrameSize (snd (lb_append lb chunk)) = lb_maxFrameSize lb"
  by (simp add: lb_append_eq Let_def)

lemma lb_append_error: "lb_append lb chunk = (Inl e, lb') \<Longrightarrow> lb_buffer lb' = [] \<and> e = FrameTooLargeError (lb_maxFrameSize lb)"
  by (auto simp: lb_append_eq Let_def split: if_splits)

lemma server_invD:
  assumes "server_inv sv"
  shows "sv_clients sv slot = Some k \<Longrightarrow> \<exists>c. sv_conns sv k = Some c \<and> cn_slot c = slot \<and> live_socket sv k"
    and "sv_conns sv k = Some c \<Longrightarrow> live_socket sv k \<Longrightarrow> sv_clients sv (cn_slot c) = Some k"
    and "sv_conns sv k = Some c \<Longrightarrow> cn_slot c \<in> set SLOTS \<and> sv_sockets sv k \<noteq> Unseen
          \<and> lb_inv (cn_buffer c) \<and> lb_maxFrameSize (cn_buffer c) = MAX_FRAME_SIZE
          \<and> (cn_closing c \<longrightarrow> lb_buffer (cn_buffer c) = [])"
  using assms unfolding server_inv_def by blast+

lemma set_socket_inv:
  assumes inv: "server_inv sv" and ok: "live_socket sv k \<and> st = Destroyed \<or> sv_conns sv k = None"
  shows "server_inv (set_socket k st sv)"
proof -
  have "sv_conns sv j = Some c \<Longrightarrow> live_socket (set_socket k st sv) j = live_socket sv j" for j c
    using ok by (auto simp: live_socket_def set_socket_def)
  moreover have "sv_conns (set_socket k st sv) = sv_conns sv" "sv_clients (set_socket k st sv) = sv_clients sv"
    by (simp_all add: set_socket_def)
  moreover have "sv_conns sv j = Some c \<Longrightarrow> sv_sockets (set_socket k st sv) j \<noteq> Unseen" for j c
    using ok server_invD(3) [OF inv, of j c] by (auto simp: set_socket_def)
  moreover from calculation(1) have
    "(\<exists>c. sv_conns sv j = Some c \<and> cn_slot c = sl \<and> live_socket (set_socket k st sv) j) \<longleftrightarrow>
     (\<exists>c. sv_conns sv j = Some c \<and> cn_slot c = sl \<and> live_socket sv j)" for sl j
    by blast
  ultimately show ?thesis using inv by (simp add: server_inv_def)
qed

lemma on_connect_inv:
  assumes inv: "server_inv sv" and new: "sv_sockets sv k = Unseen"
  shows "server_inv (fst (on_connect k remote sv))"
proof -
  have noconn: "sv_conns sv k = None"
    using server_invD(3) [OF inv, of k] new by (cases "sv_conns sv k") auto
  let ?sv = "sv\<lparr>sv_sockets := (sv_sockets sv)(k := Open)\<rparr>"
  have inv1: "server_inv ?sv"
    using set_socket_inv [OF inv disjI2 [OF noconn], of Open] by (simp add: set_socket_def)
  show ?thesis
  proof (cases "freeSlot ?sv")
    case None
    with inv1 show ?thesis by (simp add: on_connect_def Let_def)
  next
    case (Some slot)
    from freeSlot_Some [OF Some] have slot: "slot \<in> set SLOTS" "sv_clients sv slot = None" by simp_all
    let ?c = "\<lparr>cn_slot = slot, cn_buffer = new_LineBuffer MAX_FRAME_SIZE, cn_closing = False\<rparr>"
    let ?sv1 = "?sv\<lparr>sv_clients := (sv_clients sv)(slot := Some k), sv_conns := (sv_conns sv)(k := Some ?c)\<rparr>"
    have free: "cn_slot c \<noteq> slot" if "sv_conns sv j = Some c" "live_socket sv j" for j c
      using server_invD(2) [OF inv that] slot(2) by auto
    have "sv_clients ?sv1 sl = Some j \<longleftrightarrow>
        (\<exists>c. sv_conns ?sv1 j = Some c \<and> cn_slot c = sl \<and> live_socket ?sv1 j)" for sl j
    proof (cases "j = k")
      case True
      have "sv_clients sv sl \<noteq> Some k" using server_invD(1) [OF inv, of sl k] noconn by auto
      with True show ?thesis by (auto simp: live_socket_def)
    next
      case False
      have "live_socket ?sv1 j = live_socket sv j" using False by (simp add: live_socket_def)
      with False free [of j] server_invD(1) [OF inv, of sl j] server_invD(2) [OF inv, of j] show ?thesis
        by auto
    qed
    moreover have "cn_slot c \<in> set SLOTS \<and> sv_sockets ?sv1 j \<noteq> Unseen \<and> lb_inv (cn_buffer c)
        \<and> lb_maxFrameSize (cn_buffer c) = MAX_FRAME_SIZE \<and> (cn_closing c \<longrightarrow> lb_buffer (cn_buffer c) = [])"
      if "sv_conns ?sv1 j = Some c" for j c
      using that server_invD(3) [OF inv, of j c] slot(1) lb_inv_new [of MAX_FRAME_SIZE]
      by (auto simp: new_LineBuffer_def split: if_splits)
    ultimately have "server_inv ?sv1" unfolding server_inv_def by blast
    then show ?thesis using Some by (simp add: on_connect_def Let_def)
  qed
qed

lemma set_conn_inv:
  assumes "server_inv sv" "sv_conns sv k = Some c" "cn_slot c' = cn_slot c" "lb_inv (cn_buffer c')"
    and "lb_maxFrameSize (cn_buffer c') = MAX_FRAME_SIZE" "cn_closing c' \<longrightarrow> lb_buffer (cn_buffer c') = []"
  shows "server_inv (set_conn k c' sv)"
  using assms by (auto simp: server_inv_def set_conn_def live_socket_def)

lemma on_data_inv:
  assumes inv: "server_inv sv" and c: "sv_conns sv k = Some c"
    and step: "on_data C k c chunk sv = (Inr sv', es)"
  shows "server_inv sv'"
proof (cases "cn_closing c")
  case True
  with step inv show ?thesis by (simp add: on_data_def)
next
  case False
  obtain r lb where app: "lb_append (cn_buffer c) (utf8_decode chunk) = (r, lb)" by fastforce
  have lb: "lb_inv lb" "lb_maxFrameSize lb = MAX_FRAME_SIZE"
    using lb_inv_append [of "cn_buffer c" "utf8_decode chunk"] lb_append_max [of "cn_buffer c" "utf8_decode chunk"]
      server_invD(3) [OF inv c] app by simp_all
  show ?thesis
  proof (cases r)
    case (Inl e)
    with app have "lb_append (cn_buffer c) (utf8_decode chunk) = (Inl e, lb)" by simp
    with lb_append_error have "lb_buffer lb = []" by blast
    with Inl step False app lb set_conn_inv [OF inv c, of "c\<lparr>cn_buffer := lb, cn_closing := True\<rparr>"]
    show ?thesis by (auto simp: on_data_def)
  next
    case (Inr ls)
    have "server_inv (set_conn k (c\<lparr>cn_buffer := lb\<rparr>) sv)"
      by (rule set_conn_inv [OF inv c]) (use lb False in simp_all)
    with Inr step False app show ?thesis
      by (auto simp: on_data_def Let_def split: prod.splits option.splits)
  qed
qed

lemma on_close_inv:
  assumes inv: "server_inv sv" and c: "sv_conns sv k = Some c" and live: "live_socket sv k"
  shows "server_inv (fst (on_close k c (set_socket k Closed sv)))"
proof -
  let ?sv1 = "(set_socket k Closed sv)\<lparr>sv_clients := (sv_clients sv)(cn_slot c := None)\<rparr>"
  have uniq: "k' = k" if "sv_conns sv k' = Some c'" "live_socket sv k'" "cn_slot c' = cn_slot c" for k' c'
    using server_invD(2) [OF inv that(1,2)] server_invD(2) [OF inv c live] that(3) by simp
  have live1: "live_socket ?sv1 j \<longleftrightarrow> j \<noteq> k \<and> live_socket sv j" for j
    by (simp add: live_socket_def set_socket_def)
  have sel: "sv_conns ?sv1 = sv_conns sv" "sv_clients ?sv1 = (sv_clients sv)(cn_slot c := None)"
    by (simp_all add: set_socket_def)
  have "sv_clients ?sv1 slot = Some j \<longleftrightarrow>
      (\<exists>c'. sv_conns ?sv1 j = Some c' \<and> cn_slot c' = slot \<and> live_socket ?sv1 j)" for slot j
  proof (cases "slot = cn_slot c")
    case True
    then show ?thesis using uniq [of j] unfolding sel live1 by auto
  next
    case False
    then have "sv_clients sv slot = Some j \<longleftrightarrow>
        (\<exists>c'. sv_conns sv j = Some c' \<and> cn_slot c' = slot \<and> live_socket sv j)"
      using server_invD(1) [OF inv, of slot j] server_invD(2) [OF inv, of j] by blast
    moreover have "j = k \<longrightarrow> sv_clients sv slot \<noteq> Some j"
      using False server_invD(1) [OF inv, of slot k] c by auto
    ultimately show ?thesis unfolding sel live1 using False by simp blast
  qed
  moreover have "cn_slot c' \<in> set SLOTS \<and> sv_sockets ?sv1 j \<noteq> Unseen \<and> lb_inv (cn_buffer c')
      \<and> lb_maxFrameSize (cn_buffer c') = MAX_FRAME_SIZE \<and> (cn_closing c' \<longrightarrow> lb_buffer (cn_buffer c') = [])"
    if "sv_conns ?sv1 j = Some c'" for j c'
  proof -
    have "sv_sockets sv j \<noteq> Unseen \<Longrightarrow> sv_sockets ?sv1 j \<noteq> Unseen" by (simp add: set_socket_def)
    then show ?thesis using server_invD(3) [OF inv that [unfolded sel]] by blast
  qed
  ultimately have "server_inv ?sv1" unfolding server_inv_def by blast
  moreover have "fst (on_close k c (set_socket k Closed sv)) = ?sv1"
    by (simp add: on_close_def set_socket_def Let_def)
  ultimately show ?thesis by simp
qed

lemma server_inv_listener [simp]:
  "server_inv (sv\<lparr>sv_listening := l, sv_stopping := b\<rparr>) = server_inv sv"
  "server_inv (sv\<lparr>sv_listening := l\<rparr>) = server_inv sv"
  by (simp_all add: server_inv_def live_socket_def)

lemma server_step_inv:
  assumes "server_inv sv" "possible sv ev" "server_step C ev sv = (Inr sv', es)"
  shows "server_inv sv'"
proof (cases ev)
  case (Connect k remote)
  with assms on_connect_inv [of sv k remote] show ?thesis by (auto split: prod.splits)
next
  case (DataIn k chunk)
  with assms on_data_inv show ?thesis by (auto split: option.splits)
next
  case (SocketDestroyed k)
  with assms set_socket_inv [of sv k Destroyed] show ?thesis by (auto simp: live_socket_def)
next
  case (SocketClose k)
  show ?thesis
  proof (cases "sv_conns sv k")
    case None
    with SocketClose assms set_socket_inv [of sv k Closed] show ?thesis by auto
  next
    case (Some c)
    with SocketClose assms on_close_inv [of sv k c] show ?thesis
      by (auto simp: live_socket_def split: prod.splits)
  qed
next
  case (SocketError k m)
  with assms show ?thesis by (auto split: option.splits)
next
  case (DestroyTimer k)
  with assms set_socket_inv [of sv k Destroyed] show ?thesis by (auto simp: live_socket_def split: if_splits)
qed (use assms in \<open>auto simp: on_listening_def on_shutdown_def\<close>)

text \<open>
  A run of the server: events that Node cannot report in the state are skipped, and nothing
  happens after a crash, which leaves \<open>None\<close>.
\<close>

fun server_next :: "'r node_crypto \<Rightarrow> sv_event \<Rightarrow> server option \<Rightarrow> server option" where
  "server_next C ev None = None"
| "server_next C ev (Some sv) =
     (if possible sv ev then (case fst (server_step C ev sv) of Inl e \<Rightarrow> None | Inr sv' \<Rightarrow> Some sv')
      else Some sv)"

interpretation relay: machine "server_next C" "\<lambda>r. case r of None \<Rightarrow> True | Some sv \<Rightarrow> server_inv sv"
  for C :: "'r node_crypto"
proof unfold_locales
  fix r ev
  assume "case r of None \<Rightarrow> True | Some sv \<Rightarrow> server_inv sv"
  then show "case server_next C ev r of None \<Rightarrow> True | Some sv \<Rightarrow> server_inv sv"
    using server_step_inv [of _ ev C] by (cases r) (auto split: sum.split, metis prod.collapse)
qed

section \<open>After a signal\<close>

text \<open>No listening socket any more, and no slot taken that was not: \<open>before\<close> are the slots then.\<close>

definition winding_down :: "(jsstring \<Rightarrow> nat option) \<Rightarrow> server \<Rightarrow> bool" where
  "winding_down before sv \<longleftrightarrow>
     sv_stopping sv \<and> \<not> sv_listening sv
     \<and> (\<forall>slot. sv_clients sv slot = None \<or> sv_clients sv slot = before slot)"

lemma winding_down_step:
  assumes "winding_down before sv" "possible sv ev" "server_step C ev sv = (Inr sv', es)"
  shows "winding_down before sv'"
proof (cases ev)
  case (DataIn k chunk)
  show ?thesis
  proof (cases "sv_conns sv k")
    case None
    with DataIn assms show ?thesis by simp
  next
    case (Some c)
    with DataIn assms have "on_data C k c chunk sv = (Inr sv', es)" by simp
    then have "sv' = sv \<or> (\<exists>c'. sv' = set_conn k c' sv)"
      by (auto simp: on_data_def Let_def split: if_splits prod.splits sum.splits option.splits)
    with assms(1) show ?thesis by (auto simp: winding_down_def set_conn_def)
  qed
next
  case (SocketClose k)
  show ?thesis
  proof (cases "sv_conns sv k")
    case None
    with SocketClose assms show ?thesis by (auto simp: winding_down_def set_socket_def)
  next
    case (Some c)
    have "winding_down before (fst (on_close k c (set_socket k Closed sv)))"
      using assms(1) by (simp add: winding_down_def on_close_def set_socket_def Let_def)
    with Some SocketClose assms(3) show ?thesis by (auto split: prod.splits)
  qed
qed (use assms in \<open>auto simp: winding_down_def set_socket_def on_shutdown_def split: option.splits if_splits\<close>)

interpretation closing: machine "server_next C" "\<lambda>r. case r of None \<Rightarrow> True | Some sv \<Rightarrow> winding_down before sv"
  for C :: "'r node_crypto" and before
proof unfold_locales
  fix r ev
  assume "case r of None \<Rightarrow> True | Some sv \<Rightarrow> winding_down before sv"
  then show "case server_next C ev r of None \<Rightarrow> True | Some sv \<Rightarrow> winding_down before sv"
    using winding_down_step [of before _ ev C] by (cases r) (auto split: sum.split, metis prod.collapse)
qed

end
