(* ===== verification/ServerProperties.thy ===== *)
theory ServerProperties
  imports ServerLaws
begin

text \<open>The properties of the relay, with the concrete frames that show its limits.\<close>

section \<open>The loop over the lines\<close>

lemma handle_lines_crash:
  "snd (handle_lines C sv k slot ls) \<noteq> None \<longleftrightarrow> (\<exists>line \<in> set ls. \<exists>e. handle_line C sv k slot line = Inl e)"
  by (induction ls) (auto split: sum.split prod.splits)

lemma handle_lines_effects:
  "ef \<in> set (fst (handle_lines C sv k slot ls)) \<Longrightarrow>
    \<exists>line \<in> set ls. \<exists>es. handle_line C sv k slot line = Inr es \<and> ef \<in> set es"
  by (induction ls) (auto split: sum.splits prod.splits)

lemma handle_lines_append:
  "handle_lines C sv k slot (ls @ ks) =
    (case handle_lines C sv k slot ls of
       (es, Some e) \<Rightarrow> (es, Some e)
     | (es, None) \<Rightarrow> (case handle_lines C sv k slot ks of (es', r) \<Rightarrow> (es @ es', r)))"
  by (induction ls) (auto split: sum.split prod.split option.split)

lemma handle_line_Inl:
  "(\<exists>e. handle_line C sv k slot line = Inl e) \<longleftrightarrow>
    trim line \<noteq> [] \<and> (\<exists>msg. decode line = Inr msg \<and> throws_on msg)"
proof -
  have "throws_on msg \<longleftrightarrow> (\<exists>e. validateMessage C msg = Inl e)" for msg
    using validate_Inl_iff [of C msg] by blast
  then show ?thesis
    by (auto simp: handle_line_def split: sum.splits validation.splits)
qed

text \<open>The effects of a line on other sockets come from the relay alone.\<close>

lemma send_self: "Write j t \<in> set (send sv (Some k) m) \<Longrightarrow> j = k"
  by (auto simp: send_def writeTo_def split: if_splits)

lemma writeTo_other: "Write j t \<in> set (writeTo sv (Some p) txt) \<Longrightarrow> j = p \<and> t = txt"
  by (auto simp: writeTo_def split: if_splits)

lemma send_other: "Write j t \<in> set (send sv (Some p) m) \<Longrightarrow> j = p \<and> t = encode m"
  by (auto simp: send_def dest: writeTo_other)

lemma handle_line_writes:
  assumes "handle_line C sv k slot line = Inr es" "Write j t \<in> set es" "j \<noteq> k"
  obtains msg where "decode line = Inr msg" "validateMessage C msg = Inr Valid"
    "Write j t \<in> set (relay sv k slot line msg)"
proof -
  have "Write j t \<notin> set (send sv (Some k) m)" for m using send_self assms(3) by blast
  with assms show thesis
    by (auto simp: handle_line_def split: if_splits sum.splits validation.splits intro: that)
qed

text \<open>What a relayed message is.\<close>

definition relayed :: "jsstring \<Rightarrow> jsstring \<Rightarrow> jsval \<Rightarrow> jsstring \<Rightarrow> bool" where
  "relayed slot line msg t \<longleftrightarrow>
     (field msg ''type'' \<in> VStr ` set HANDSHAKE_TYPES \<and> field msg ''sender'' = VStr slot
        \<and> (field msg ''type'' = VStr HELLO \<or> field msg ''recipient'' = VStr (otherSlot slot))
        \<and> t = line @ [10])
     \<or> (field msg ''type'' = VStr CHAT
        \<and> t = encode (createChatMessage (VStr slot) (field msg ''text'') PROTOCOL_VERSION))"

lemma valid_type:
  "validateMessage C msg = Inr Valid \<Longrightarrow> \<exists>ty \<in> set IMPLEMENTED_TYPES. field msg ''type'' = VStr ty"
  by (auto simp: validateMessage_def Let_def is_string_iff split: if_splits)

lemma relay_writes:
  assumes "Write j t \<in> set (relay sv k slot line msg)" "j \<noteq> k" "validateMessage C msg = Inr Valid"
  shows "sv_clients sv (otherSlot slot) = Some j \<and> relayed slot line msg t"
proof -
  let ?ty = "text_of (field msg ''type'')"
  have ty: "field msg ''type'' = VStr ?ty"
    using valid_type [OF assms(3)] by auto
  have "Write j t \<notin> set (send sv (Some k) m)" for m using send_self assms(2) by blast
  then show ?thesis
    using assms(1) ty
    by (auto simp: relay_def relayed_def Let_def split: if_splits option.splits
        dest!: writeTo_other send_other)
qed

text \<open>The three courses of a data event.\<close>

lemma on_data_closing: "cn_closing c \<Longrightarrow> on_data C k c chunk sv = (Inr sv, [])"
  by (simp add: on_data_def)

lemma on_data_lines:
  assumes "\<not> cn_closing c" "lb_append (cn_buffer c) (utf8_decode chunk) = (Inr ls, lb)"
  shows "on_data C k c chunk sv =
    (let sv1 = set_conn k (c\<lparr>cn_buffer := lb\<rparr>) sv in
     (case snd (handle_lines C sv1 k (cn_slot c) ls) of None \<Rightarrow> Inr sv1 | Some e \<Rightarrow> Inl e,
      fst (handle_lines C sv1 k (cn_slot c) ls)))"
  using assms by (simp add: on_data_def case_prod_beta Let_def)

lemma on_data_too_large:
  assumes "\<not> cn_closing c" "lb_append (cn_buffer c) (utf8_decode chunk) = (Inl e, lb)"
  shows "\<exists>sv'. on_data C k c chunk sv = (Inr sv',
      [Log (cn_slot c @ js '' sent a frame larger than '' @ nat_to_string MAX_FRAME_SIZE
         @ js '' bytes; closing its connection.''),
       End k (Some (encode (error_msg frame_limit_text))), StartTimer k])"
  using assms by (simp add: on_data_def)

lemma lb_append_feed: "lb_feed lb t = Inr (ls, lb') \<longleftrightarrow> lb_append lb t = (Inr ls, lb')"
  by (auto simp: lb_feed_def split: prod.split sum.split)

section \<open>Sample states\<close>

text \<open>Sockets 1 and 2 are the two clients.\<close>

definition sample_conn :: "jsstring \<Rightarrow> conn" where
  "sample_conn slot = \<lparr>cn_slot = slot, cn_buffer = new_LineBuffer MAX_FRAME_SIZE, cn_closing = False\<rparr>"

definition sample_server :: server where
  "sample_server = \<lparr>sv_host = js ''127.0.0.1'', sv_port = 5000, sv_listening = True, sv_stopping = False,
     sv_clients = [CLIENT_A \<mapsto> 1, CLIENT_B \<mapsto> 2],
     sv_conns = [1 \<mapsto> sample_conn CLIENT_A, 2 \<mapsto> sample_conn CLIENT_B],
     sv_sockets = (\<lambda>k. if k = 1 \<or> k = 2 then Open else Unseen)\<rparr>"

lemma sample_server_run:
  "fold (server_next C) [Listening, Connect 1 (js ''x''), Connect 2 (js ''y'')]
     (Some (server_start (js ''127.0.0.1'') 5000)) = Some sample_server"
  using slot_names
  by (simp add: server_start_def on_listening_def on_connect_def freeSlot_def SLOTS_def Let_def sample_server_def sample_conn_def
      fun_eq_iff)

lemma sample_server_inv: "server_inv sample_server"
  using relay.inv_run [of "Some (server_start (js ''127.0.0.1'') 5000)" sample_crypto "[Listening, Connect 1 (js ''x''), Connect 2 (js ''y'')]"]
  by (simp only: sample_server_run option.case server_inv_start)

section \<open>Properties\<close>

text \<open>
  Property C29: the two slots. After every sequence of events that Node can report, as long
  as the server runs, each of the two slots is free or held by one open connection that was
  assigned it, no socket holds both, and every open connection with a slot holds its slot.
\<close>

theorem slots_consistent:
  assumes "fold (server_next C) evs (Some (server_start host port)) = Some sv"
  shows "(\<forall>slot k. sv_clients sv slot = Some k \<longrightarrow> slot \<in> {CLIENT_A, CLIENT_B} \<and> live_socket sv k
            \<and> (\<exists>c. sv_conns sv k = Some c \<and> cn_slot c = slot))
    \<and> \<not> (\<exists>k. sv_clients sv CLIENT_A = Some k \<and> sv_clients sv CLIENT_B = Some k)
    \<and> (\<forall>k c. sv_conns sv k = Some c \<longrightarrow> live_socket sv k \<longrightarrow> sv_clients sv (cn_slot c) = Some k)"
proof -
  have inv: "server_inv sv"
    using relay.inv_run [of "Some (server_start host port)" C evs] server_inv_start by (simp add: assms)
  have one: "\<exists>c. sv_conns sv k = Some c \<and> cn_slot c = slot \<and> slot \<in> {CLIENT_A, CLIENT_B} \<and> live_socket sv k"
    if "sv_clients sv slot = Some k" for slot k
    using server_invD(1) [OF inv that] server_invD(3) [OF inv, of k] by (auto simp: SLOTS_def)
  moreover have "\<not> (\<exists>k. sv_clients sv CLIENT_A = Some k \<and> sv_clients sv CLIENT_B = Some k)"
    using one [of CLIENT_A] one [of CLIENT_B] slot_names by fastforce
  moreover have "\<forall>k c. sv_conns sv k = Some c \<longrightarrow> live_socket sv k \<longrightarrow> sv_clients sv (cn_slot c) = Some k"
    using server_invD(2) [OF inv] by blast
  ultimately show ?thesis by blast
qed

theorem slots_consistent_witness:
  "sv_clients sample_server CLIENT_A \<noteq> sv_clients sample_server CLIENT_B \<and> live_socket sample_server 1"
proof -
  have "sv_clients sample_server CLIENT_A = Some 1" "sv_clients sample_server CLIENT_B = Some 2"
    using slot_names by (simp_all add: sample_server_def)
  with slots_consistent [OF sample_server_run [of sample_crypto]] show ?thesis by auto
qed

text \<open>
  Property C19: relaying is authentic. When data arrive on a connection, everything the
  server writes to any other socket goes to the holder of the other slot, and is the relay
  of one line of what was received: a valid handshake message, forwarded unchanged with its
  newline, that names the connection's own slot as sender and, unless it is a HELLO, the
  other slot as recipient; or a CHAT message with the text received and the connection's
  own slot as sender, whatever sender the client wrote.
\<close>

theorem relay_authentic:
  assumes "sv_conns sv k = Some c" "server_step C (DataIn k chunk) sv = (r, es)"
    and "Write j t \<in> set es" "j \<noteq> k"
  shows "sv_clients sv (otherSlot (cn_slot c)) = Some j
    \<and> (\<exists>line msg. line \<in> set (split_nl (lb_buffer (cn_buffer c) @ utf8_decode chunk))
         \<and> decode line = Inr msg \<and> validateMessage C msg = Inr Valid \<and> relayed (cn_slot c) line msg t)"
proof -
  let ?pieces = "split_nl (lb_buffer (cn_buffer c) @ utf8_decode chunk)"
  have run: "on_data C k c chunk sv = (r, es)" using assms(1,2) by simp
  have open_conn: "\<not> cn_closing c" using run assms(3) on_data_closing [of c C k chunk sv] by auto
  obtain x lb where app: "lb_append (cn_buffer c) (utf8_decode chunk) = (x, lb)" by fastforce
  with on_data_too_large [OF open_conn, of chunk _ lb C k sv] run assms(3) obtain ls where
    ls: "lb_append (cn_buffer c) (utf8_decode chunk) = (Inr ls, lb)"
    by (cases x) auto
  then have es: "es = fst (handle_lines C (set_conn k (c\<lparr>cn_buffer := lb\<rparr>) sv) k (cn_slot c) ls)"
    using on_data_lines [OF open_conn ls, of C k sv] run by (simp add: Let_def)
  have "set ls \<subseteq> set ?pieces"
    using ls in_set_butlastD by (fastforce simp: lb_append_eq Let_def split: if_splits)
  moreover obtain line es' where line: "line \<in> set ls" "Write j t \<in> set es'"
    "handle_line C (set_conn k (c\<lparr>cn_buffer := lb\<rparr>) sv) k (cn_slot c) line = Inr es'"
    using handle_lines_effects assms(3) unfolding es by blast
  moreover obtain msg where "decode line = Inr msg" "validateMessage C msg = Inr Valid"
    "Write j t \<in> set (relay (set_conn k (c\<lparr>cn_buffer := lb\<rparr>) sv) k (cn_slot c) line msg)"
    by (rule handle_line_writes [OF line(3,2) assms(4)])
  ultimately show ?thesis using relay_writes [OF _ assms(4)] by (fastforce simp: set_conn_def)
qed

text \<open>A CHAT message as a client may write it, without version and sender, and its two texts.\<close>

definition chat_in :: "jsstring \<Rightarrow> jsval" where
  "chat_in txt = obj [(''type'', VStr CHAT), (''text'', VStr txt)]"

lemma chat_in_ok: "json_ok (chat_in txt)"
  by (simp add: chat_in_def obj_def array_index_def js_def jsq_def unit_of_def is_digit_def)

lemma chat_in_text:
  "json_text (chat_in txt) = jsq ''{`type`:`CHAT`,`text`:'' @ quote_json txt @ js ''}''"
  by (simp add: chat_in_def obj_def json_text_def quote_json_def js_def jsq_def unit_of_def
      quote_unit_def is_high_def is_low_def)

lemma chat_in_valid: "trim txt \<noteq> [] \<Longrightarrow> validateMessage C (chat_in txt) = Inr Valid"
  using validate_plain_iff [of "chat_in txt" CHAT C]
  by (simp add: chat_in_def optional_version_def nonblank_def)

text \<open>The first line on a connection, when it parses and is not too long.\<close>

lemma first_line:
  assumes "sv_conns sv k = Some c" "\<not> cn_closing c" "cn_buffer c = new_LineBuffer MAX_FRAME_SIZE"
    and "json_ok m" "byteLength (json_text m) \<le> MAX_FRAME_SIZE"
  shows "server_step C (DataIn k (utf8_encode (encode m))) sv =
    (let (es, r) = handle_lines C sv k (cn_slot c) [json_text m]
     in (case r of None \<Rightarrow> Inr sv | Some e \<Rightarrow> Inl e, es))"
proof -
  have app: "lb_append (cn_buffer c) (utf8_decode (utf8_encode (encode m)))
      = (Inr [json_text m], new_LineBuffer MAX_FRAME_SIZE)"
    unfolding assms(3) by (rule frame_arrives [OF assms(4,5)])
  have step: "server_step C (DataIn k (utf8_encode (encode m))) sv =
      (let sv1 = set_conn k (c\<lparr>cn_buffer := new_LineBuffer MAX_FRAME_SIZE\<rparr>) sv in
       (case snd (handle_lines C sv1 k (cn_slot c) [json_text m]) of None \<Rightarrow> Inr sv1 | Some e \<Rightarrow> Inl e,
        fst (handle_lines C sv1 k (cn_slot c) [json_text m])))"
    by (simp only: server_step.simps assms(1) option.case on_data_lines [OF assms(2) app])
  have same: "set_conn k (c\<lparr>cn_buffer := new_LineBuffer MAX_FRAME_SIZE\<rparr>) sv = sv"
    using assms(1,3) by (cases c) (simp add: set_conn_def fun_upd_idem)
  show ?thesis unfolding step same Let_def case_prod_beta ..
qed

lemma json_text_nonblank: "trim (json_text (chat_in txt)) \<noteq> []"
  using object_text_nonblank chat_in_ok unfolding chat_in_def obj_def by blast

lemma chat_relayed:
  assumes "sv_conns sv k = Some c" "\<not> cn_closing c" "cn_buffer c = new_LineBuffer MAX_FRAME_SIZE"
    and "trim txt \<noteq> []" "byteLength (json_text (chat_in txt)) \<le> MAX_FRAME_SIZE"
    and "sv_clients sv (otherSlot (cn_slot c)) = Some j" "\<not> is_destroyed sv j"
  shows "\<exists>logged. server_step C (DataIn k (utf8_encode (encode (chat_in txt)))) sv =
    (Inr sv, [Log logged, Write j (encode (createChatMessage (VStr (cn_slot c)) (VStr txt) PROTOCOL_VERSION))])"
proof -
  have "handle_line C sv k (cn_slot c) (json_text (chat_in txt)) = Inr (relay sv k (cn_slot c) (json_text (chat_in txt)) (chat_in txt))"
    by (simp add: handle_line_def json_text_nonblank decode_text [OF chat_in_ok] chat_in_valid [OF assms(4)])
  moreover have "\<exists>logged. relay sv k (cn_slot c) (json_text (chat_in txt)) (chat_in txt) =
      [Log logged, Write j (encode (createChatMessage (VStr (cn_slot c)) (VStr txt) PROTOCOL_VERSION))]"
    using assms(6,7) by (simp add: relay_def chat_in_def Let_def type_sets send_def writeTo_def)
  ultimately show ?thesis
    unfolding first_line [OF assms(1-3) chat_in_ok assms(5)] by auto
qed

theorem relay_authentic_witness:
  "\<exists>line msg. decode line = Inr msg \<and> validateMessage sample_crypto msg = Inr Valid
    \<and> relayed CLIENT_A line msg
        (encode (createChatMessage (VStr CLIENT_A) (VStr (js ''hi'')) PROTOCOL_VERSION))"
proof -
  have c: "sv_conns sample_server 1 = Some (sample_conn CLIENT_A)" by (simp add: sample_server_def)
  have b: "sv_clients sample_server (otherSlot (cn_slot (sample_conn CLIENT_A))) = Some 2"
    using slot_names by (simp add: sample_server_def sample_conn_def otherSlot_def)
  have t: "trim (js ''hi'') \<noteq> []" by (simp add: trim_eq_Nil_iff js_def jsq_def unit_of_def is_js_space_def)
  have "byteLength (json_text (chat_in (js ''hi''))) \<le> 3 * length (json_text (chat_in (js ''hi'')))"
    using byteLength_bounds by blast
  also have "\<dots> \<le> MAX_FRAME_SIZE"
    by (simp add: chat_in_text MAX_FRAME_SIZE_def quote_json_def js_def jsq_def unit_of_def quote_unit_def is_high_def is_low_def)
  finally obtain logged where "server_step sample_crypto (DataIn 1 (utf8_encode (encode (chat_in (js ''hi''))))) sample_server
    = (Inr sample_server, [Log logged, Write 2 (encode (createChatMessage (VStr CLIENT_A) (VStr (js ''hi'')) PROTOCOL_VERSION))])"
    using chat_relayed [OF c _ _ t _ b, of sample_crypto] by (auto simp: sample_conn_def sample_server_def is_destroyed_def)
  from relay_authentic [OF c this, of 2] show ?thesis by (auto simp: sample_conn_def)
qed


text \<open>A SYSTEM message whose version is an object with a \<open>toString\<close> property.\<close>

definition poison :: jsval where
  "poison = obj [(''type'', VStr SYSTEM), (''version'', obj [(''toString'', VNull)])]"

lemma poison_text:
  "json_ok poison" "json_text poison = jsq ''{`type`:`SYSTEM`,`version`:{`toString`:null}}''"
  by (simp_all add: poison_def obj_def json_text_def quote_json_def js_def jsq_def unit_of_def
      quote_unit_def is_high_def is_low_def array_index_def is_digit_def)

lemma poison_throws: "throws_on poison"
  by (simp add: throws_on_def poison_def unsupported_version_def PROTOCOL_VERSION_def type_sets)
    (simp add: obj_def)

text \<open>
  One small frame ends the server. In any state, if a client's connection is
  open, not being closed and between two lines, the 46 bytes of the line
  \<open>{"type":"SYSTEM","version":{"toString":null}}\<close> and a newline make the server stop with
  the uncaught \<open>TypeError\<close> of a failed conversion to a string, before it writes anything.
\<close>

theorem poison_frame_kills:
  assumes "sv_conns sv k = Some c" "\<not> cn_closing c" "cn_buffer c = new_LineBuffer MAX_FRAME_SIZE"
  shows "server_step C (DataIn k (utf8_encode
      (jsq ''{`type`:`SYSTEM`,`version`:{`toString`:null}}'' @ nl))) sv
    = (Inl (TypeError (js ''Cannot convert object to primitive value'')), [])"
proof -
  let ?line = "json_text poison"
  have "10 \<notin> set ?line" by (rule json_text_no_newline [OF poison_text(1)])
  moreover have "3 * length ?line \<le> MAX_FRAME_SIZE" by (simp add: poison_text(2) MAX_FRAME_SIZE_def js_def jsq_def)
  ultimately have "lb_feed (cn_buffer c) (?line @ nl) = Inr ([?line], new_LineBuffer MAX_FRAME_SIZE)"
    unfolding assms(3) by (rule short_line_fed)
  moreover have "utf8_decode (utf8_encode (?line @ nl)) = ?line @ nl"
    using utf8_encode_text [OF poison_text(1)] by (simp add: encode_text [OF poison_text(1)] nl_def)
  ultimately obtain lb where app: "lb_append (cn_buffer c) (utf8_decode (utf8_encode (?line @ nl))) = (Inr [?line], lb)"
    by (auto simp: lb_feed_def split: prod.splits sum.splits)
  have "trim ?line \<noteq> []"
    unfolding poison_text(2) by (simp add: trim_eq_Nil_iff js_def jsq_def unit_of_def is_js_space_def)
  then have "handle_line C sv' k slot ?line = Inl not_primitive" for sv' slot
    using validate_Inl_iff [of C poison not_primitive] poison_throws
    by (simp add: handle_line_def decode_text [OF poison_text(1)])
  with on_data_lines [OF assms(2) app, of C k sv] assms(1) show ?thesis
    by (simp add: poison_text(2) not_primitive_def Let_def)
qed

theorem poison_frame_kills_witness:
  "server_next sample_crypto (DataIn 1 (utf8_encode
      (jsq ''{`type`:`SYSTEM`,`version`:{`toString`:null}}'' @ nl))) (Some sample_server) = None"
proof -
  have "sv_conns sample_server 1 = Some (sample_conn CLIENT_A)" "sv_sockets sample_server 1 = Open"
    by (simp_all add: sample_server_def)
  with poison_frame_kills [OF this(1), of sample_crypto] show ?thesis by (simp add: sample_conn_def)
qed

text \<open>
  An oversized frame closes its connection and nothing else. When a piece of
  the received text is longer than 65536 bytes, the server logs it, ends this connection
  with an ERROR message and starts the timer that destroys the socket; the slots do not
  change, and whatever arrives on this connection afterwards has no effect and is not
  buffered.
\<close>

theorem oversized_frame_closes:
  assumes "sv_conns sv k = Some c" "\<not> cn_closing c" "lb_maxFrameSize (cn_buffer c) = MAX_FRAME_SIZE"
    and "\<exists>piece \<in> set (split_nl (lb_buffer (cn_buffer c) @ utf8_decode chunk)). MAX_FRAME_SIZE < byteLength piece"
  shows "\<exists>sv' logged. server_step C (DataIn k chunk) sv
      = (Inr sv', [Log logged, End k (Some (encode (error_msg frame_limit_text))), StartTimer k])
    \<and> sv_clients sv' = sv_clients sv
    \<and> (\<forall>j. j \<noteq> k \<longrightarrow> sv_conns sv' j = sv_conns sv j)
    \<and> (\<forall>more. server_step C (DataIn k more) sv' = (Inr sv', []))
    \<and> (\<exists>c'. sv_conns sv' k = Some c' \<and> lb_buffer (cn_buffer c') = [])"
proof -
  have "\<not> fits MAX_FRAME_SIZE (split_nl (lb_buffer (cn_buffer c) @ utf8_decode chunk))"
    using assms(4) by (auto simp: fits_def list_all_iff simp flip: not_less)
  then have "lb_append (cn_buffer c) (utf8_decode chunk)
      = (Inl (FrameTooLargeError MAX_FRAME_SIZE), (cn_buffer c)\<lparr>lb_buffer := []\<rparr>)"
    using assms(3) by (simp add: lb_append_eq Let_def)
  with assms(1,2) show ?thesis by (simp add: on_data_def set_conn_def)
qed

definition long_text :: jsstring where "long_text = replicate 65537 120"

lemma ascii_long: "ascii long_text" by (simp add: ascii_def long_text_def list_all_iff)

theorem oversized_frame_closes_witness:
  "\<exists>sv' logged. server_step sample_crypto (DataIn 1 (utf8_encode long_text)) sample_server
    = (Inr sv', [Log logged, End 1 (Some (encode (error_msg frame_limit_text))), StartTimer 1])"
proof -
  have c: "sv_conns sample_server 1 = Some (sample_conn CLIENT_A)" by (simp add: sample_server_def)
  have "split_nl long_text = [long_text]" by (rule split_nl_single) (simp add: long_text_def)
  moreover have "MAX_FRAME_SIZE < byteLength long_text"
    by (simp add: ascii_byteLength ascii_long) (simp add: long_text_def MAX_FRAME_SIZE_def)
  moreover have "utf8_decode (utf8_encode long_text) = long_text"
    by (rule utf8_decode_encode [OF ascii_well_formed [OF ascii_long]])
  ultimately have "\<exists>piece \<in> set (split_nl (lb_buffer (cn_buffer (sample_conn CLIENT_A))
      @ utf8_decode (utf8_encode long_text))). MAX_FRAME_SIZE < byteLength piece"
    by (simp add: sample_conn_def new_LineBuffer_def)
  from oversized_frame_closes [OF c _ _ this, of sample_crypto] show ?thesis
    by (auto simp: sample_conn_def new_LineBuffer_def)
qed

text \<open>
  Property C36: turning a third client away can end the server. With both slots taken, a new
  connection changes neither the slots nor the connections, and the server writes only to
  the new socket; but that socket has no \<open>error\<close> listener, so if the third client resets
  its connection the server stops.
\<close>

theorem third_client:
  assumes "sv_clients sv CLIENT_A \<noteq> None" "sv_clients sv CLIENT_B \<noteq> None"
    and "possible sv (Connect k remote)" "server_inv sv"
  shows "\<exists>sv' es. server_step C (Connect k remote) sv = (Inr sv', es)
    \<and> sv_clients sv' = sv_clients sv \<and> sv_conns sv' = sv_conns sv
    \<and> (\<forall>j t. Write j t \<in> set es \<longrightarrow> j = k) \<and> End k None \<in> set es
    \<and> possible sv' (SocketError k m) \<and> server_next C (SocketError k m) (Some sv') = None"
proof -
  have "sv_conns sv k = None"
    using server_invD(3) [OF assms(4), of k] assms(3) by (cases "sv_conns sv k") auto
  moreover have "freeSlot (sv\<lparr>sv_sockets := (sv_sockets sv)(k := Open)\<rparr>) = None"
    using assms(1,2) by (simp add: freeSlot_None)
  ultimately show ?thesis
    by (auto simp: on_connect_def Let_def dest: send_self)
qed

theorem third_client_witness:
  "\<exists>sv'. server_next sample_crypto (Connect 3 (js ''z'')) (Some sample_server) = Some sv'
    \<and> server_next sample_crypto (SocketError 3 []) (Some sv') = None"
proof -
  have "sv_clients sample_server CLIENT_A \<noteq> None" "sv_clients sample_server CLIENT_B \<noteq> None"
    "possible sample_server (Connect 3 (js ''z''))"
    using slot_names by (simp_all add: sample_server_def)
  from third_client [OF this sample_server_inv, of sample_crypto "[]"] this(3) show ?thesis by auto
qed

section \<open>Chunks of one connection\<close>

text \<open>The effects of the data events of one connection, and what is left of the server.\<close>

fun data_run :: "'r node_crypto \<Rightarrow> nat \<Rightarrow> bytes list \<Rightarrow> server \<Rightarrow> (js_error + server) \<times> effect list" where
  "data_run C k [] sv = (Inr sv, [])"
| "data_run C k (chunk # chunks) sv =
     (case server_step C (DataIn k chunk) sv of
        (Inl e, es) \<Rightarrow> (Inl e, es)
      | (Inr sv', es) \<Rightarrow> let (r, es') = data_run C k chunks sv' in (r, es @ es'))"

text \<open>The relay looks at the slots and the sockets only.\<close>

lemma writeTo_cong:
  "sv_sockets sv' = sv_sockets sv \<Longrightarrow> writeTo sv' = writeTo sv"
  by (intro ext) (simp add: writeTo_def is_destroyed_def split: option.split)

lemma handle_lines_cong:
  assumes "sv_clients sv' = sv_clients sv" "sv_sockets sv' = sv_sockets sv"
  shows "handle_lines C sv' k slot ls = handle_lines C sv k slot ls"
proof -
  have send: "send sv' = send sv"
    using writeTo_cong [OF assms(2)] by (intro ext) (simp add: send_def)
  have "relay sv' k slot line msg = relay sv k slot line msg" for line msg
    unfolding relay_def send writeTo_cong [OF assms(2)] assms(1) ..
  then have "handle_line C sv' k slot line = handle_line C sv k slot line" for line
    by (simp add: handle_line_def send split: sum.split validation.split)
  then show ?thesis by (induction ls) (simp_all split: sum.split)
qed

lemma data_run_lines:
  assumes "sv_conns sv k = Some c" "\<not> cn_closing c" "lb_inv (cn_buffer c)"
    and "feed_all lb_feed (cn_buffer c) ts = Inr (ls, lb)" "\<forall>t \<in> set ts. well_formed t"
  shows "\<exists>r. data_run C k (map utf8_encode ts) sv = (r, fst (handle_lines C sv k (cn_slot c) ls))
    \<and> (case snd (handle_lines C sv k (cn_slot c) ls) of
         Some e \<Rightarrow> r = Inl e | None \<Rightarrow> r = Inr (set_conn k (c\<lparr>cn_buffer := lb\<rparr>) sv))"
  using assms
proof (induction ts arbitrary: sv c ls)
  case Nil
  then have "cn_buffer c = lb" and "ls = []" by simp_all
  then have "c\<lparr>cn_buffer := lb\<rparr> = c" by (cases c) simp
  with Nil.prems(1) \<open>ls = []\<close> show ?case by (simp add: set_conn_def fun_upd_idem)
next
  case (Cons t ts)
  from Cons.prems(4) obtain ls1 lb1 ls2 where feed: "lb_feed (cn_buffer c) t = Inr (ls1, lb1)"
    "feed_all lb_feed lb1 ts = Inr (ls2, lb)" "ls = ls1 @ ls2"
    by (auto simp: case_prod_beta)
  have dec: "utf8_decode (utf8_encode t) = t" using Cons.prems(5) by (simp add: utf8_decode_encode)
  let ?c1 = "c\<lparr>cn_buffer := lb1\<rparr>"
  let ?sv1 = "set_conn k ?c1 sv"
  have same: "handle_lines C ?sv1 k slot xs = handle_lines C sv k slot xs" for slot xs
    by (rule handle_lines_cong) (simp_all add: set_conn_def)
  have step: "server_step C (DataIn k (utf8_encode t)) sv =
      (case snd (handle_lines C sv k (cn_slot c) ls1) of None \<Rightarrow> Inr ?sv1 | Some e \<Rightarrow> Inl e,
       fst (handle_lines C sv k (cn_slot c) ls1))"
    using on_data_lines [OF Cons.prems(2), of "utf8_encode t" ls1 lb1 C k sv] feed(1) Cons.prems(1)
    by (simp add: dec lb_append_feed same Let_def)
  show ?case
  proof (cases "snd (handle_lines C sv k (cn_slot c) ls1)")
    case (Some e)
    with step show ?thesis by (simp add: feed(3) handle_lines_append case_prod_beta)
  next
    case None
    have "lb_inv lb1" using feed(1) by (rule lb_feed_inv)
    have twice: "set_conn k d ?sv1 = set_conn k d sv" for d
      by (simp add: set_conn_def)
    have "sv_conns ?sv1 k = Some ?c1" by (simp add: set_conn_def)
    from Cons.IH [OF this, of ls2] \<open>lb_inv lb1\<close> Cons.prems(2,5) feed(2) have
      "\<exists>r. data_run C k (map utf8_encode ts) ?sv1 = (r, fst (handle_lines C sv k (cn_slot c) ls2))
       \<and> (case snd (handle_lines C sv k (cn_slot c) ls2) of
         Some e \<Rightarrow> r = Inl e | None \<Rightarrow> r = Inr (set_conn k (c\<lparr>cn_buffer := lb\<rparr>) sv))"
      by (simp add: same twice cong: option.case_cong)
    then obtain r where
      IH: "data_run C k (map utf8_encode ts) ?sv1 = (r, fst (handle_lines C sv k (cn_slot c) ls2))"
      "case snd (handle_lines C sv k (cn_slot c) ls2) of
         Some e \<Rightarrow> r = Inl e | None \<Rightarrow> r = Inr (set_conn k (c\<lparr>cn_buffer := lb\<rparr>) sv)"
      by blast
    obtain es1 where one: "handle_lines C sv k (cn_slot c) ls1 = (es1, None)"
      using None by (metis prod.collapse)
    obtain es2 o2 where two: "handle_lines C sv k (cn_slot c) ls2 = (es2, o2)" by fastforce
    show ?thesis
      using IH step by (simp add: feed(3) handle_lines_append one two Let_def)
  qed
qed



text \<open>
  Property C31: a signal ends the service in order. Each connected client is told and its
  connection is ended, the listening socket is closed and the fallback timer started; in
  whatever happens until the process exits, no new connection is accepted and no slot is
  given to another socket.
\<close>

theorem shutdown_in_order:
  assumes "server_step C Shutdown sv = (Inr sv', es)" "fold (server_next C) evs (Some sv') = Some sv''"
  shows "(\<forall>slot k. slot \<in> set SLOTS \<longrightarrow> sv_clients sv slot = Some k \<longrightarrow> \<not> is_destroyed sv k \<longrightarrow>
        Write k (encode (system_msg (js ''Server is shutting down.''))) \<in> set es \<and> End k None \<in> set es)
    \<and> CloseListener \<in> set es \<and> FallbackTimer \<in> set es
    \<and> \<not> possible sv'' (Connect k remote)
    \<and> (\<forall>slot. sv_clients sv'' slot = None \<or> sv_clients sv'' slot = sv_clients sv slot)"
proof -
  have es: "es = [Log (js ''Shutting down server...'')] @ concat (map (shutdown_slot sv) SLOTS) @ [CloseListener, FallbackTimer]"
    and sv': "sv' = sv\<lparr>sv_listening := False, sv_stopping := True\<rparr>"
    using assms(1) by (simp_all add: on_shutdown_def)
  have "winding_down (sv_clients sv) sv'" by (simp add: sv' winding_down_def)
  then have "winding_down (sv_clients sv) sv''"
    using closing.inv_run [of "sv_clients sv" "Some sv'" C evs] by (simp add: assms(2))
  moreover have "Write k (encode (system_msg (js ''Server is shutting down.''))) \<in> set es \<and> End k None \<in> set es"
    if "slot \<in> set SLOTS" "sv_clients sv slot = Some k" "\<not> is_destroyed sv k" for slot k
  proof -
    have "set (shutdown_slot sv slot) \<subseteq> set es" using that(1) unfolding es by auto
    moreover have "Write k (encode (system_msg (js ''Server is shutting down.''))) \<in> set (shutdown_slot sv slot)
        \<and> End k None \<in> set (shutdown_slot sv slot)"
      using that(2,3) by (simp add: shutdown_slot_def send_def writeTo_def)
    ultimately show ?thesis by blast
  qed
  moreover have "CloseListener \<in> set es" "FallbackTimer \<in> set es" unfolding es by simp_all
  ultimately show ?thesis by (simp add: winding_down_def)
qed

theorem shutdown_in_order_witness:
  "\<exists>sv es. server_step sample_crypto Shutdown sample_server = (Inr sv, es) \<and> End 1 None \<in> set es
    \<and> \<not> possible sv (Connect 3 (js ''z''))"
proof -
  obtain sv es where step: "server_step sample_crypto Shutdown sample_server = (Inr sv, es)" by (simp add: on_shutdown_def)
  have "CLIENT_A \<in> set SLOTS" "sv_clients sample_server CLIENT_A = Some 1" "\<not> is_destroyed sample_server 1"
    using slot_names by (simp_all add: SLOTS_def sample_server_def is_destroyed_def)
  with shutdown_in_order [OF step, of "[]" sv 3 "js ''z''"] step show ?thesis by auto
qed

end
