(* ===== verification/Client.thy ===== *)
theory Client
  imports PeerSession Transport
begin

text \<open>
  \<open>src/client.js\<close>: the command-line client. The module's variables are the record
  \<open>client\<close>, with the world of its handshakes; a step reacts to one event that Node reports
  (a chunk from the server, the end of the key-generation delay, a line of the user, the
  end of the input or of the connection) and returns the effects in order, and either the
  new state or the error that nothing catches, which ends the process. Terminal codes and
  the prompt are effects like the printed text.
\<close>

section \<open>State and effects\<close>

text \<open>
  \<open>null\<close> is \<open>None\<close>. \<open>cl_keyTimer\<close> is the pending callback of \<open>setTimeout\<close> in
  \<open>onIdentityAssigned\<close>, by the identity it closes over; \<open>cl_destroyed\<close> is
  \<open>socket.destroyed\<close>; \<open>cl_isTTY\<close> and \<open>cl_server\<close> (the text \<open>HOST:PORT\<close>) do not change.
\<close>

record 'r client =
  cl_myId :: "jsstring option"
  cl_identity :: "identity option"
  cl_session :: "peer_session option"
  cl_peerPresent :: bool
  cl_closing :: bool
  cl_queue :: "jsval list"
  cl_generatingKeys :: bool
  cl_keyTimer :: "jsstring option"
  cl_buffer :: line_buffer
  cl_destroyed :: bool
  cl_isTTY :: bool
  cl_server :: jsstring
  cl_world :: "'r world"

datatype client_effect =
    ClearLine
  | Print jsstring
  | PrintError jsstring
  | Prompt
  | SocketWrite jsstring
  | SocketEnd
  | CloseInput
  | StartExitTimer
  | Exit nat

type_synonym 'r client_result = "(js_error + 'r client) \<times> client_effect list"

definition client_start :: "bool \<Rightarrow> jsstring \<Rightarrow> 'r world \<Rightarrow> 'r client \<times> client_effect list" where
  "client_start tty server w =
     (\<lparr>cl_myId = None, cl_identity = None, cl_session = None, cl_peerPresent = False, cl_closing = False,
       cl_queue = [], cl_generatingKeys = False, cl_keyTimer = None,
       cl_buffer = new_LineBuffer MAX_FRAME_SIZE, cl_destroyed = False, cl_isTTY = tty, cl_server = server,
       cl_world = w\<rparr>,
      [Print (js ''Connecting to CipherLink server at '' @ server @ js ''...'')])"

section \<open>Output\<close>

definition showPrompt :: "'r client \<Rightarrow> client_effect list" where
  "showPrompt cl = (if cl_isTTY cl \<and> \<not> cl_closing cl then [Prompt] else [])"

definition client_log :: "'r client \<Rightarrow> jsstring list \<Rightarrow> client_effect list" where
  "client_log cl ls =
     (if cl_isTTY cl then [ClearLine] else []) @ [Print (join_with nl ls)] @ showPrompt cl"

text \<open>A fingerprint in a template literal; \<open>null\<close> if there is no key.\<close>

definition fingerprint_text :: "'r node_crypto \<Rightarrow> peer_session \<Rightarrow> 'r world \<Rightarrow> js_error + jsstring" where
  "fingerprint_text C s w =
     try_bind (ps_sessionKeyFingerprint C s w) (\<lambda>f. Inr (case f of None \<Rightarrow> js ''null'' | Some t \<Rightarrow> t))"

definition sessionSummaryLines :: "'r node_crypto \<Rightarrow> peer_session \<Rightarrow> 'r world \<Rightarrow> js_error + jsstring list" where
  "sessionSummaryLines C s w =
     try_bind (to_string (ps_peerId s)) (\<lambda>peer.
     try_bind (to_string (ps_sessionId s)) (\<lambda>sid.
     try_bind (fingerprint_text C s w) (\<lambda>fp.
       Inr [js ''[SESSION] Established with '' @ peer,
            js ''[SESSION] ID: '' @ sid,
            js ''[SESSION] Key fingerprint (diagnostic only): '' @ fp,
            js ''[SESSION] Chat is still plaintext in this phase (message encryption is not implemented yet)''])))"

definition status_block ::
  "'r client \<Rightarrow> jsstring \<Rightarrow> jsstring \<Rightarrow> jsstring \<Rightarrow> jsstring \<Rightarrow> jsstring list" where
  "status_block cl peer state sid fp =
     [js ''CipherLink Session Status'',
      [],
      js ''Identity: '' @ (case or_null (cl_myId cl) of Some i \<Rightarrow> i | None \<Rightarrow> js ''(not assigned yet)''),
      js ''Peer: '' @ peer,
      js ''State: '' @ state,
      js ''Session ID: '' @ sid,
      js ''Session key fingerprint: '' @ fp]"

definition statusLines :: "'r node_crypto \<Rightarrow> 'r client \<Rightarrow> js_error + jsstring list" where
  "statusLines C cl =
     (case cl_session cl of
        None \<Rightarrow>
          Inr (status_block cl (js ''-'')
            (if cl_generatingKeys cl then js ''GENERATING_KEYS'' else js ''NO_SESSION'') (js ''-'') (js ''-''))
      | Some s \<Rightarrow>
          let established = ps_state s = ESTABLISHED in
          try_bind (to_string (ps_peerId s)) (\<lambda>peer.
          try_bind (if established then to_string (ps_sessionId s) else Inr (js ''-'')) (\<lambda>sid.
          try_bind (if established then fingerprint_text C s (cl_world cl) else Inr (js ''-'')) (\<lambda>fp.
            Inr (status_block cl
              (peer @ (if cl_peerPresent cl then js '' (connected)'' else js '' (not connected)''))
              (state_name (ps_state s)) sid fp)))))"

text \<open>The type of a message a factory made, in a template literal.\<close>

definition sent_line :: "jsval \<Rightarrow> jsstring" where
  "sent_line out = js ''[HANDSHAKE] '' @ text_of (field out ''type'') @ js '' sent''"

text \<open>The arguments: the session and the world after the message, the message and its result.\<close>

definition describeHandshake ::
  "'r node_crypto \<Rightarrow> peer_session \<Rightarrow> 'r world \<Rightarrow> jsval \<Rightarrow> outcome \<Rightarrow> js_error + jsstring list" where
  "describeHandshake C s w msg result =
     (let ty = text_of (field msg ''type''); established = oc_event result = Some (js ''ESTABLISHED'') in
      try_bind (to_string (field msg ''sender'')) (\<lambda>sender.
        let received = [js ''[HANDSHAKE] '' @ ty @ js '' received from '' @ sender] in
        case oc_error result of
          Some err \<Rightarrow>
            Inr (received @ [js ''[HANDSHAKE] '' @ ty @ js '' rejected: '' @ err]
              @ (if ps_state s = FAILED then [js ''[SESSION] Handshake failed; no session established.''] else []))
        | None \<Rightarrow>
            let details =
                  (if ty = HELLO then
                     [js ''[HANDSHAKE] Peer public keys accepted'']
                     @ (if oc_event result = Some (js ''KEY_EXCHANGE_SENT'')
                        then [js ''[HANDSHAKE] Generating session key''] else [])
                   else if established then
                     [js ''[HANDSHAKE] Signature verified'']
                     @ (if ty = KEY_EXCHANGE then [js ''[HANDSHAKE] Session key decrypted''] else [])
                   else []);
                ls = received @ details @ map sent_line (oc_outgoing result)
            in if established then try_bind (sessionSummaryLines C s w) (\<lambda>summary. Inr (ls @ summary))
               else Inr ls))"

section \<open>Networking\<close>

definition sendMessage :: "jsval \<Rightarrow> client_effect" where
  "sendMessage m = SocketWrite (encode m)"

text \<open>\<open>rl.close()\<close> calls the \<open>close\<close> listener, whose \<open>shutdown\<close> finds \<open>closing\<close> set and returns.\<close>

definition client_shutdown :: "jsstring \<Rightarrow> 'r client \<Rightarrow> 'r client \<times> client_effect list" where
  "client_shutdown message cl =
     (if cl_closing cl then (cl, [])
      else (cl\<lparr>cl_closing := True\<rparr>, [Print message, SocketEnd, CloseInput, StartExitTimer]))"

definition connected_as :: jsstring where "connected_as = js ''Connected as ''"

definition onIdentityAssigned :: "jsstring \<Rightarrow> 'r client \<Rightarrow> 'r client \<times> client_effect list" where
  "onIdentityAssigned i cl =
     (let cl1 = cl\<lparr>cl_myId := Some i, cl_generatingKeys := True, cl_keyTimer := Some i\<rparr>
      in (cl1, client_log cl1 [js ''Connected to CipherLink server'', js ''Identity: '' @ i,
            js ''Generating identity keys...'']))"

text \<open>The error of reading a property of \<open>null\<close>.\<close>

definition null_read :: "string \<Rightarrow> js_error" where
  "null_read p = TypeError (js ''Cannot read properties of null (reading '' @ [39] @ js p @ [39] @ js '')'')"

definition client_system :: "'r node_crypto \<Rightarrow> jsval \<Rightarrow> 'r client \<Rightarrow> 'r client_result" where
  "client_system C msg cl =
     (let txt = text_of (field msg ''text''); line = js ''[SYSTEM] '' @ txt in
      if startsWith txt connected_as
      then (let (cl1, es) = onIdentityAssigned (slice_from (length connected_as) txt) cl in (Inr cl1, es))
      else if field msg ''event'' = VStr PEER_JOINED then
        (case cl_session cl of
           None \<Rightarrow> (Inl (null_read ''onPeerJoined''), [])
         | Some s \<Rightarrow>
             case onPeerJoined C s (cl_world cl) of
               (Inl e, _) \<Rightarrow> (Inl e, [])
             | (Inr result, s', w') \<Rightarrow>
                 let cl1 = cl\<lparr>cl_peerPresent := True, cl_session := Some s', cl_world := w'\<rparr>
                 in (Inr cl1, client_log cl1 (line # map sent_line (oc_outgoing result))
                       @ map sendMessage (oc_outgoing result)))
      else if field msg ''event'' = VStr PEER_LEFT then
        (case cl_session cl of
           None \<Rightarrow> (Inl (null_read ''onPeerLeft''), [])
         | Some s \<Rightarrow>
             let (s', w') = onPeerLeft s (cl_world cl);
                 cl1 = cl\<lparr>cl_peerPresent := False, cl_session := Some s', cl_world := w'\<rparr>
             in (Inr cl1, client_log cl1 [line,
                   js ''[SESSION] Ended: the peer left, session state cleared. A new peer will trigger a new handshake.'']))
      else (Inr cl, client_log cl [line]))"

text \<open>The default case: a handshake message.\<close>

definition client_handshake :: "'r node_crypto \<Rightarrow> jsval \<Rightarrow> 'r client \<Rightarrow> 'r client_result" where
  "client_handshake C msg cl =
     (case cl_session cl of
        None \<Rightarrow> (Inr cl, [])
      | Some s \<Rightarrow>
          case handleMessage C msg s (cl_world cl) of
            (Inl e, _) \<Rightarrow> (Inl e, [])
          | (Inr result, s', w') \<Rightarrow>
              let cl1 = cl\<lparr>cl_session := Some s', cl_world := w'\<rparr>;
                  sends = map sendMessage (oc_outgoing result)
              in case describeHandshake C s' w' msg result of
                   Inl e \<Rightarrow> (Inl e, sends)
                 | Inr ls \<Rightarrow> (Inr cl1, sends @ client_log cl1 ls))"

text \<open>\<open>handleMessage(msg)\<close> of the client; the sender of a CHAT message is not validated.\<close>

definition client_handleMessage :: "'r node_crypto \<Rightarrow> jsval \<Rightarrow> 'r client \<Rightarrow> 'r client_result" where
  "client_handleMessage C msg cl =
     (let ty = text_of (field msg ''type''); txt = text_of (field msg ''text'') in
      if ty = SYSTEM then client_system C msg cl
      else if ty = ERROR then (Inr cl, client_log cl [js ''[ERROR] '' @ txt])
      else if ty = CHAT then
        (case to_string (field msg ''sender'') of
           Inl e \<Rightarrow> (Inl e, [])
         | Inr sender \<Rightarrow> (Inr cl, client_log cl [sender @ js '': '' @ txt]))
      else if ty \<in> set HANDSHAKE_TYPES then client_handshake C msg cl
      else (Inr cl, []))"

text \<open>
  The handlers of a message leave the queue alone, so \<open>drain\<close> ends: each turn takes one
  message off it.
\<close>

lemma client_system_queue: "client_system C msg cl = (Inr cl', es) \<Longrightarrow> cl_queue cl' = cl_queue cl"
  unfolding client_system_def onIdentityAssigned_def Let_def
  by (auto split: if_splits option.splits sum.splits prod.splits)

lemma client_handshake_queue: "client_handshake C msg cl = (Inr cl', es) \<Longrightarrow> cl_queue cl' = cl_queue cl"
  unfolding client_handshake_def Let_def
  by (auto split: option.splits sum.splits prod.splits)

lemma client_handleMessage_queue:
  "client_handleMessage C msg cl = (Inr cl', es) \<Longrightarrow> cl_queue cl' = cl_queue cl"
  unfolding client_handleMessage_def Let_def
  by (auto dest: client_system_queue client_handshake_queue split: if_splits sum.splits)

function drain :: "'r node_crypto \<Rightarrow> 'r client \<Rightarrow> 'r client_result" where
  "drain C cl =
     (case cl_queue cl of
        [] \<Rightarrow> (Inr cl, [])
      | msg # msgs \<Rightarrow>
          if cl_generatingKeys cl then (Inr cl, [])
          else case client_handleMessage C msg (cl\<lparr>cl_queue := msgs\<rparr>) of
            (Inl e, es) \<Rightarrow> (Inl e, es)
          | (Inr cl', es) \<Rightarrow> let (r, es') = drain C cl' in (r, es @ es'))"
  by pat_completeness auto

termination
  by (relation "measure (\<lambda>(C, cl). length (cl_queue cl))") (auto dest!: client_handleMessage_queue [OF sym])

declare drain.simps [simp del]

text \<open>The loop over the lines of a chunk: what is pushed to the queue, or the error of validation.\<close>

fun accept_lines :: "'r node_crypto \<Rightarrow> jsstring list \<Rightarrow> js_error + jsval list" where
  "accept_lines C [] = Inr []"
| "accept_lines C (line # ls) =
     (if trim line = [] then accept_lines C ls
      else case decode line of
        Inl e \<Rightarrow> accept_lines C ls
      | Inr msg \<Rightarrow>
          try_bind (validateMessage C msg) (\<lambda>v.
            if v = Valid then try_bind (accept_lines C ls) (\<lambda>ms. Inr (msg # ms))
            else accept_lines C ls))"

definition client_on_data :: "'r node_crypto \<Rightarrow> bytes \<Rightarrow> 'r client \<Rightarrow> 'r client_result" where
  "client_on_data C chunk cl =
     (case lb_append (cl_buffer cl) (utf8_decode chunk) of
        (Inl e, lb) \<Rightarrow>
          let cl1 = cl\<lparr>cl_buffer := lb\<rparr>; (cl2, es) = client_shutdown (js ''Disconnected.'') cl1
          in (Inr cl2, client_log cl1 [js ''[ERROR] The server sent a frame larger than ''
                @ nat_to_string MAX_FRAME_SIZE @ js '' bytes. Disconnecting.''] @ es)
      | (Inr ls, lb) \<Rightarrow>
          case accept_lines C ls of
            Inl e \<Rightarrow> (Inl e, [])
          | Inr ms \<Rightarrow> drain C (cl\<lparr>cl_buffer := lb, cl_queue := cl_queue cl @ ms\<rparr>))"

text \<open>The callback of \<open>onIdentityAssigned\<close>.\<close>

definition client_on_keys :: "'r node_crypto \<Rightarrow> jsstring \<Rightarrow> 'r client \<Rightarrow> 'r client_result" where
  "client_on_keys C selfId cl =
     (let (i, r) = createIdentity C (w_entropy (cl_world cl)) in
      case new_PeerSession selfId i of
        Inl e \<Rightarrow> (Inl e, [])
      | Inr s \<Rightarrow>
          let cl1 = cl\<lparr>cl_identity := Some i, cl_session := Some s, cl_generatingKeys := False,
                cl_keyTimer := None, cl_world := (cl_world cl)\<lparr>w_entropy := r\<rparr>\<rparr>;
              peerAlreadyHere = list_ex (\<lambda>m. field m ''event'' = VStr PEER_JOINED) (cl_queue cl1);
              (r', es) = drain C cl1
          in (r', client_log cl1 (js ''Identity keys ready'' #
                (if peerAlreadyHere then []
                 else [js ''Waiting for peer... (HELLO is sent when the other client joins)''])) @ es))"

section \<open>User input\<close>

text \<open>
  \<open>text.toLowerCase() === command\<close>. No character outside ASCII has a lower case that is
  one of the letters of the four commands.
\<close>

definition is_command :: "jsstring \<Rightarrow> string \<Rightarrow> bool" where
  "is_command txt c \<longleftrightarrow> map ascii_lower txt = js c"

definition runCommand :: "'r node_crypto \<Rightarrow> jsstring \<Rightarrow> 'r client \<Rightarrow> 'r client_result" where
  "runCommand C txt cl =
     (if is_command txt ''/status'' then
        (case statusLines C cl of Inl e \<Rightarrow> (Inl e, []) | Inr ls \<Rightarrow> (Inr cl, client_log cl ls))
      else if is_command txt ''/help'' then
        (Inr cl, client_log cl [js ''Commands:'', js ''  /status  show identity, peer and session state'',
           js ''  /quit    disconnect and exit'', js ''  anything else is sent as a (plaintext) chat message''])
      else if is_command txt ''/quit'' \<or> is_command txt ''/exit'' then
        (let (cl1, es) = client_shutdown (js ''Disconnecting...'') cl in (Inr cl1, es))
      else (Inr cl, client_log cl [js ''Unknown command '' @ quoted txt @ js ''. Type /help for the list of commands.'']))"

definition client_on_line :: "'r node_crypto \<Rightarrow> jsstring \<Rightarrow> 'r client \<Rightarrow> 'r client_result" where
  "client_on_line C line cl =
     (let txt = trim line in
      if txt = [] then (Inr cl, showPrompt cl)
      else if startsWith txt (js ''/'') then runCommand C txt cl
      else case cl_myId cl of
        None \<Rightarrow> (Inr cl, client_log cl [js ''Not connected to the server.''])
      | Some myId \<Rightarrow>
          if cl_destroyed cl then (Inr cl, client_log cl [js ''Not connected to the server.''])
          else
            let encoded = encode (createChatMessage (VStr myId) (VStr txt) PROTOCOL_VERSION) in
            if MAX_FRAME_SIZE < byteLength encoded
            then (Inr cl, client_log cl [js ''[ERROR] Message too long (limit is ''
                    @ nat_to_string MAX_FRAME_SIZE @ js '' bytes per message). Not sent.''])
            else (Inr cl, SocketWrite encoded # showPrompt cl))"

section \<open>One event\<close>

datatype client_event =
    DataChunk bytes
  | KeysDue
  | UserLine jsstring
  | Interrupt
  | InputClosed
  | Destroyed_socket
  | ServerClosed
  | SocketFailed bool jsstring
  | ExitDue

fun client_step :: "'r node_crypto \<Rightarrow> client_event \<Rightarrow> 'r client \<Rightarrow> 'r client_result" where
  "client_step C (DataChunk chunk) cl = client_on_data C chunk cl"
| "client_step C KeysDue cl =
     (case cl_keyTimer cl of None \<Rightarrow> (Inr cl, []) | Some i \<Rightarrow> client_on_keys C i cl)"
| "client_step C (UserLine line) cl = client_on_line C line cl"
| "client_step C Interrupt cl =
     (let (cl1, es) = client_shutdown (nl @ js ''Disconnecting...'') cl in (Inr cl1, es))"
| "client_step C InputClosed cl =
     (let (cl1, es) = client_shutdown (js ''Input closed. Disconnecting...'') cl in (Inr cl1, es))"
| "client_step C Destroyed_socket cl = (Inr (cl\<lparr>cl_destroyed := True\<rparr>), [])"
| "client_step C ServerClosed cl =
     (Inr cl, (if cl_closing cl then [] else [Print (nl @ js ''Disconnected from server.'')]) @ [Exit 0])"
| "client_step C (SocketFailed refused m) cl =
     (Inr cl, [PrintError (if refused
        then js ''Could not connect to '' @ cl_server cl @ js ''. Is the server running? Start it with: npm run server''
        else js ''Connection error: '' @ m), Exit 1])"
| "client_step C ExitDue cl = (Inr cl, [Exit 0])"

end
