(* ===== verification/ClientLaws.thy ===== *)
theory ClientLaws
  imports Client TwoParty SessionProperties
begin

text \<open>
  What the client promises: its handlers keep an invariant that covers its session and
  every buffer that held a session key, a message can end it only in the cases listed, and
  the end of the connection is announced once.
\<close>

section \<open>Handshake messages do not throw\<close>

lemma ps_fail_Inr: "\<exists>oc. fst (ps_fail e s w) = Inr oc"
  by (simp add: ps_fail_def)

lemma onHello_returns:
  assumes "session_inv s w" "validateMessage C msg = Inr Valid" "text_of (field msg ''type'') = HELLO"
  shows "\<exists>oc. fst (onHello C msg s w) = Inr oc"
proof -
  obtain enc sig where keys: "importPublicKey C (field msg ''encryptionPublicKey'') = Inr enc"
    "importPublicKey C (field msg ''signingPublicKey'') = Inr sig"
    by (rule hello_keys [OF assms(2,3)])
  show ?thesis
    using session_invD(1) [OF assms(1)]
    by (simp add: onHello_def keys ownHelloOnce_ok Let_def ps_fail_Inr split: sum.split prod.split)
qed

lemma onKeyExchange_returns: "\<exists>oc. fst (onKeyExchange C msg s w) = Inr oc"
  by (simp add: onKeyExchange_def Let_def ps_fail_Inr split: sum.split prod.split)

lemma onKeyExchangeAck_returns: "\<exists>oc. fst (onKeyExchangeAck C msg s w) = Inr oc"
  by (simp add: onKeyExchangeAck_def ps_fail_Inr split: sum.split)

lemma handleMessage_returns:
  assumes "session_inv s w" "validateMessage C msg = Inr Valid"
  shows "\<exists>oc. fst (handleMessage C msg s w) = Inr oc"
  using onHello_returns [OF assms] onKeyExchange_returns [of C msg s w]
    onKeyExchangeAck_returns [of C msg s w] assms(2)
  by (simp add: handleMessage_def Let_def)

lemma event_established:
  "handleMessage C msg s w = (Inr oc, s', w') \<Longrightarrow> oc_event oc = Some (js ''ESTABLISHED'') \<Longrightarrow>
    ps_state s' = ESTABLISHED"
  by (auto simp: handleMessage_def onHello_def onKeyExchange_def onKeyExchangeAck_def ps_fail_def
      ps_reject_def ps_result_def Let_def js_def
      split: sum.splits prod.splits validation.splits if_splits)

section \<open>Descriptions do not throw\<close>

lemma peer_id_string: "session_inv s w \<Longrightarrow> \<exists>p. ps_peerId s = VStr p"
  by (auto simp: session_inv_def client_A_def client_B_def)

lemma established_texts:
  assumes "session_inv s w" "ps_state s = ESTABLISHED"
  shows "\<exists>sid. ps_sessionId s = VStr sid" "\<exists>f. fingerprint_text C s w = Inr f"
  using session_invD(2) [OF assms(1)] assms(2)
  by (auto simp: live_key_def fingerprint_text_def ps_sessionKeyFingerprint_def sessionKey_def
      sessionKeyFingerprint_def SESSION_KEY_BYTES_def sha256_def Let_def)

lemma summary_returns:
  assumes "session_inv s w" "ps_state s = ESTABLISHED"
  shows "\<exists>ls. sessionSummaryLines C s w = Inr ls"
proof -
  obtain p sid f where "ps_peerId s = VStr p" "ps_sessionId s = VStr sid" "fingerprint_text C s w = Inr f"
    using peer_id_string [OF assms(1)] established_texts(1) [OF assms]
      established_texts(2) [OF assms, of C] by blast
  then show ?thesis by (simp add: sessionSummaryLines_def)
qed

definition session_ok :: "'r client \<Rightarrow> bool" where
  "session_ok cl \<longleftrightarrow> (\<forall>s. cl_session cl = Some s \<longrightarrow> session_inv s (cl_world cl))"

lemma status_returns:
  assumes "session_ok cl"
  shows "\<exists>ls. statusLines C cl = Inr ls"
proof (cases "cl_session cl")
  case None
  then show ?thesis by (simp add: statusLines_def)
next
  case (Some s)
  with assms have inv: "session_inv s (cl_world cl)" by (simp add: session_ok_def)
  obtain p where p: "ps_peerId s = VStr p" using peer_id_string [OF inv] by blast
  show ?thesis
  proof (cases "ps_state s = ESTABLISHED")
    case True
    then obtain sid f where "ps_sessionId s = VStr sid" "fingerprint_text C s (cl_world cl) = Inr f"
      using established_texts(1) [OF inv]
        established_texts(2) [OF inv, of C] by blast
    with True Some p show ?thesis by (simp add: statusLines_def)
  next
    case False
    with Some p show ?thesis by (simp add: statusLines_def)
  qed
qed

lemma handshake_sender:
  assumes "validateMessage C msg = Inr Valid" "text_of (field msg ''type'') \<in> set HANDSHAKE_TYPES"
  shows "\<exists>t. field msg ''sender'' = VStr t"
proof -
  let ?ty = "text_of (field msg ''type'')"
  have o: "\<not> not_object msg" by (rule valid_not_not_object [OF assms(1)])
  have ty: "field msg ''type'' = VStr ?ty"
    using assms(1) by (auto simp: validateMessage_def Let_def is_string_iff split: if_splits)
  have "hello_schema C msg \<or> exchange_schema ?ty msg"
  proof (cases "?ty = HELLO")
    case True
    with ty validate_hello_iff [OF o, of C] assms(1) show ?thesis by simp
  next
    case False
    with assms(2) have "?ty = KEY_EXCHANGE \<or> ?ty = KEY_EXCHANGE_ACK" by (auto simp: HANDSHAKE_TYPES_def)
    with validate_exchange_iff [OF o ty, of C] assms(1) show ?thesis by simp
  qed
  then show ?thesis
    by (auto simp: hello_schema_def exchange_schema_def handshake_envelope_def isIdentityString_def is_string_iff)
qed

lemma handshake_returns:
  assumes "session_ok cl" "module_total C" "validateMessage C msg = Inr Valid"
    and "text_of (field msg ''type'') \<in> set HANDSHAKE_TYPES"
  shows "\<exists>cl'. fst (client_handshake C msg cl) = Inr cl' \<and> session_ok cl'"
proof (cases "cl_session cl")
  case None
  with assms(1) show ?thesis by (simp add: client_handshake_def)
next
  case (Some s)
  with assms(1) have inv: "session_inv s (cl_world cl)" by (simp add: session_ok_def)
  obtain oc where oc: "fst (handleMessage C msg s (cl_world cl)) = Inr oc"
    using handleMessage_returns [OF inv assms(3)] by blast
  obtain s' w' where run: "handleMessage C msg s (cl_world cl) = (Inr oc, s', w')"
    using oc by (metis prod.collapse)
  have inv': "session_inv s' w'"
    using handleMessage_good [OF inv assms(2), of msg] by (simp add: run good_step_def)
  obtain t where t: "field msg ''sender'' = VStr t" using handshake_sender [OF assms(3,4)] by blast
  have "\<exists>ls. describeHandshake C s' w' msg oc = Inr ls"
  proof (cases "oc_event oc = Some (js ''ESTABLISHED'')")
    case True
    then obtain ls where "sessionSummaryLines C s' w' = Inr ls"
      using summary_returns [OF inv' event_established [OF run True], of C] by blast
    then show ?thesis by (simp add: describeHandshake_def t Let_def split: option.split)
  next
    case False
    then show ?thesis by (simp add: describeHandshake_def t Let_def split: option.split)
  qed
  then show ?thesis
    using inv' by (auto simp: client_handshake_def Some run Let_def session_ok_def)
qed

section \<open>The invariant\<close>

text \<open>The session is sound and is the one of the client's keys; without one, no key is left in memory.\<close>

definition session_part :: "'r client \<Rightarrow> bool" where
  "session_part cl \<longleftrightarrow>
     (cl_session cl = None \<longrightarrow> (\<forall>a < length (w_heap (cl_world cl)). zeroed (cl_world cl) a))
     \<and> (\<forall>s. cl_session cl = Some s \<longrightarrow> session_inv s (cl_world cl) \<and> cl_identity cl = Some (ps_identity s))"

definition client_core :: "'r client \<Rightarrow> bool" where
  "client_core cl \<longleftrightarrow>
     (cl_generatingKeys cl \<longleftrightarrow> cl_keyTimer cl \<noteq> None) \<and> session_part cl
     \<and> lb_inv (cl_buffer cl) \<and> lb_maxFrameSize (cl_buffer cl) = MAX_FRAME_SIZE"

definition client_inv :: "'r client \<Rightarrow> bool" where
  "client_inv cl \<longleftrightarrow> client_core cl \<and> (\<not> cl_generatingKeys cl \<longrightarrow> cl_queue cl = [])"

lemma session_part_ok: "session_part cl \<Longrightarrow> session_ok cl"
  by (auto simp: session_part_def session_ok_def)

lemma good_step_part:
  assumes "good_step C ev (s, cl_world cl) (s', w')" "session_part cl" "cl_session cl = Some s"
  shows "session_part (cl\<lparr>cl_session := Some s', cl_world := w'\<rparr>)"
  using assms by (simp add: good_step_def session_part_def same_client_def)

lemma client_inv_start: "w_heap w = [] \<Longrightarrow> client_inv (fst (client_start tty server w))"
  by (simp add: client_start_def client_inv_def client_core_def session_part_def lb_inv_new)
    (simp add: new_LineBuffer_def)

lemma client_core_flags:
  "client_core (cl\<lparr>cl_peerPresent := b\<rparr>) = client_core cl"
  "client_core (cl\<lparr>cl_queue := ms\<rparr>) = client_core cl"
  "client_core (cl\<lparr>cl_closing := b\<rparr>) = client_core cl"
  "client_core (cl\<lparr>cl_destroyed := b\<rparr>) = client_core cl"
  by (simp_all add: client_core_def session_part_def)

lemma client_core_session:
  assumes "client_core cl" "session_part (cl\<lparr>cl_session := s, cl_world := w\<rparr>)"
  shows "client_core (cl\<lparr>cl_session := s, cl_world := w\<rparr>)"
  using assms by (simp add: client_core_def)

lemma client_system_core:
  assumes "client_core cl" "client_system C msg cl = (Inr cl', es)"
  shows "client_core cl'"
proof -
  let ?txt = "text_of (field msg ''text'')"
  have part: "session_part cl" using assms(1) by (simp add: client_core_def)
  have assigned: "client_core (fst (onIdentityAssigned i cl))" for i
    using assms(1) by (simp add: onIdentityAssigned_def client_core_def session_part_def Let_def)
  have good: "good_step C ev (s, cl_world cl) (s', w') \<Longrightarrow> cl_session cl = Some s \<Longrightarrow>
      client_core (cl\<lparr>cl_peerPresent := b, cl_session := Some s', cl_world := w'\<rparr>)" for ev s s' w' b
    using client_core_session [of "cl\<lparr>cl_peerPresent := b\<rparr>" w' "Some s'"]
      good_step_part [of C ev s "cl\<lparr>cl_peerPresent := b\<rparr>" s' w'] assms(1) part
    by (simp add: client_core_flags session_part_def)
  consider "startsWith ?txt connected_as"
    | s where "\<not> startsWith ?txt connected_as" "cl_session cl = Some s" "field msg ''event'' = VStr PEER_JOINED"
    | s where "\<not> startsWith ?txt connected_as" "cl_session cl = Some s"
        "field msg ''event'' \<noteq> VStr PEER_JOINED" "field msg ''event'' = VStr PEER_LEFT"
    | "cl' = cl"
    using assms(2)
    by (auto simp: client_system_def Let_def split: if_splits option.splits)
  then show ?thesis
  proof cases
    case 1
    with assms(2) assigned [of "slice_from (length connected_as) ?txt"] show ?thesis
      by (auto simp: client_system_def Let_def case_prod_beta)
  next
    case (2 s)
    have inv: "session_inv s (cl_world cl)" using part 2 by (simp add: session_part_def)
    have "good_step C PeerJoined (s, cl_world cl) (s\<lparr>ps_helloSent := True\<rparr>, cl_world cl)"
      using onPeerJoined_good [OF inv, of C] by (simp add: onPeerJoined_eq session_invD(1) [OF inv])
    from good [OF this 2(2)] 2 assms(2) session_invD(1) [OF inv] show ?thesis
      by (auto simp: client_system_def Let_def onPeerJoined_eq)
  next
    case (3 s)
    have inv: "session_inv s (cl_world cl)" using part 3 by (simp add: session_part_def)
    obtain s' w' where left: "onPeerLeft s (cl_world cl) = (s', w')" by fastforce
    from good [OF onPeerLeft_good [OF inv, of C, unfolded left] 3(2)] 3 assms(2) left show ?thesis
      by (auto simp: client_system_def Let_def)
  next
    case 4
    with assms(1) show ?thesis by simp
  qed
qed

lemma client_handshake_core:
  assumes "module_total C" "client_core cl" "client_handshake C msg cl = (Inr cl', es)"
  shows "client_core cl'"
proof (cases "cl_session cl")
  case None
  with assms show ?thesis by (simp add: client_handshake_def)
next
  case (Some s)
  have part: "session_part cl" using assms(2) by (simp add: client_core_def)
  then have inv: "session_inv s (cl_world cl)" using Some by (simp add: session_part_def)
  obtain r s' w' where run: "handleMessage C msg s (cl_world cl) = (r, s', w')" by (metis prod.exhaust)
  then have "good_step C (Received msg) (s, cl_world cl) (s', w')"
    using handleMessage_good [OF inv assms(1), of msg] by simp
  then have "client_core (cl\<lparr>cl_session := Some s', cl_world := w'\<rparr>)"
    by (intro client_core_session assms(2) good_step_part [OF _ part Some])
  with assms(3) Some run show ?thesis
    by (auto simp: client_handshake_def Let_def split: sum.splits)
qed

lemma client_handleMessage_core:
  assumes "module_total C" "client_core cl" "client_handleMessage C msg cl = (Inr cl', es)"
  shows "client_core cl'"
  using assms(3) client_system_core [OF assms(2), of C msg] client_handshake_core [OF assms(1,2), of msg] assms(2)
  by (auto simp: client_handleMessage_def Let_def split: if_splits sum.splits)

lemma drain_core:
  "module_total C \<Longrightarrow> client_core cl \<Longrightarrow> drain C cl = (Inr cl', es) \<Longrightarrow> client_inv cl'"
proof (induction C cl arbitrary: cl' es rule: drain.induct)
  case (1 C cl)
  show ?case
  proof (cases "cl_queue cl")
    case Nil
    with "1.prems" show ?thesis by (auto simp: drain.simps [of C cl] client_inv_def)
  next
    case (Cons msg msgs)
    show ?thesis
    proof (cases "cl_generatingKeys cl")
      case True
      with Cons "1.prems" show ?thesis by (auto simp: drain.simps [of C cl] client_inv_def)
    next
      case False
      obtain r es1 where h: "client_handleMessage C msg (cl\<lparr>cl_queue := msgs\<rparr>) = (r, es1)" by fastforce
      with Cons False "1.prems"(3) obtain cl1 where r: "r = Inr cl1"
        by (cases r) (auto simp: drain.simps [of C cl])
      then obtain es2 where d: "drain C cl1 = (Inr cl', es2)"
        using Cons False "1.prems"(3) h by (auto simp: drain.simps [of C cl] split: prod.splits)
      have "client_core cl1"
        by (rule client_handleMessage_core [OF "1.prems"(1) _ h [unfolded r]])
          (simp add: client_core_flags "1.prems"(2))
      with "1.IH" [OF Cons False h [symmetric] r "1.prems"(1) _ d] show ?thesis by simp
    qed
  qed
qed

section \<open>Every event\<close>

text \<open>What Node documents for \<open>generateKeyPairSync\<close>: a pair of RSA keys of the size asked for.\<close>

definition keygen_ok :: "'r node_crypto \<Rightarrow> bool" where
  "keygen_ok C \<longleftrightarrow>
     (\<forall>r. let ((pub, priv), r') = generateKeyPair C r in good_key PublicKey pub \<and> good_key PrivateKey priv)"

lemma createIdentity_ok: "keygen_ok C \<Longrightarrow> identity_ok (fst (createIdentity C r))"
  by (simp add: keygen_ok_def createIdentity_def identity_ok_def Let_def case_prod_beta)

text \<open>
  The events of a run with a server that assigns the identity once and assigns one of the
  two slots. The exit timer runs only after \<open>shutdown\<close>.
\<close>

fun admissible :: "'r client \<Rightarrow> client_event \<Rightarrow> bool" where
  "admissible cl KeysDue \<longleftrightarrow> cl_session cl = None
     \<and> (case cl_keyTimer cl of None \<Rightarrow> False | Some i \<Rightarrow> VStr i = client_A \<or> VStr i = client_B)"
| "admissible cl ExitDue \<longleftrightarrow> cl_closing cl"
| "admissible cl _ \<longleftrightarrow> True"

lemma new_session_inv:
  assumes "new_PeerSession selfId i = Inr s" "VStr selfId = client_A \<or> VStr selfId = client_B" "identity_ok i"
    and "\<forall>a < length (w_heap w). zeroed w a"
  shows "session_inv s w \<and> ps_identity s = i"
proof -
  have "session_inv s \<lparr>w_entropy = w_entropy w, w_heap = []\<rparr>"
    using fresh_inv [of s "\<lparr>w_entropy = w_entropy w, w_heap = []\<rparr>"] assms(1-3)
    by (auto simp: fresh_session_def)
  moreover have "ps_state s = NO_SESSION" "ps_identity s = i"
    using assms(1) by (auto simp: new_PeerSession_def split: if_splits)
  ultimately show ?thesis using assms(4) by (simp add: session_inv_def)
qed

lemma client_shutdown_inv: "client_inv cl \<Longrightarrow> client_inv (fst (client_shutdown m cl))"
  by (simp add: client_shutdown_def client_inv_def client_core_flags)

lemma client_on_keys_inv:
  assumes "module_total C" "keygen_ok C" "client_inv cl" "cl_session cl = None"
    and "VStr i = client_A \<or> VStr i = client_B" "client_on_keys C i cl = (Inr cl', es)"
  shows "client_inv cl'"
proof -
  obtain ident r where ident: "createIdentity C (w_entropy (cl_world cl)) = (ident, r)" by fastforce
  then have ok: "identity_ok ident" using createIdentity_ok [OF assms(2), of "w_entropy (cl_world cl)"] by simp
  let ?w = "(cl_world cl)\<lparr>w_entropy := r\<rparr>"
  obtain s where s: "new_PeerSession i ident = Inr s"
    using assms(6) ident by (cases "new_PeerSession i ident") (auto simp: client_on_keys_def)
  let ?cl1 = "cl\<lparr>cl_identity := Some ident, cl_session := Some s, cl_generatingKeys := False,
    cl_keyTimer := None, cl_world := ?w\<rparr>"
  have "\<forall>a < length (w_heap ?w). zeroed ?w a"
    using assms(3,4) by (simp add: client_inv_def client_core_def session_part_def zeroed_def)
  from new_session_inv [OF s assms(5) ok this] assms(3) have "client_core ?cl1"
    by (simp add: client_inv_def client_core_def session_part_def)
  moreover obtain es' where "drain C ?cl1 = (Inr cl', es')"
    using assms(6) ident s by (auto simp: client_on_keys_def Let_def split: prod.splits)
  ultimately show ?thesis using drain_core [OF assms(1)] by blast
qed

lemma client_on_data_inv:
  assumes "module_total C" "client_inv cl" "client_on_data C chunk cl = (Inr cl', es)"
  shows "client_inv cl'"
proof -
  obtain x lb where app: "lb_append (cl_buffer cl) (utf8_decode chunk) = (x, lb)" by fastforce
  have lb: "lb_inv lb" "lb_maxFrameSize lb = MAX_FRAME_SIZE"
    using lb_inv_append [of "cl_buffer cl" "utf8_decode chunk"] assms(2) app
    by (auto simp: client_inv_def client_core_def lb_append_eq Let_def split: if_splits)
  have buf: "client_core (cl\<lparr>cl_buffer := lb\<rparr>)"
    using assms(2) lb by (simp add: client_inv_def client_core_def session_part_def)
  show ?thesis
  proof (cases x)
    case (Inl e)
    have "client_inv (fst (client_shutdown (js ''Disconnected.'') (cl\<lparr>cl_buffer := lb\<rparr>)))"
      using buf assms(2) by (intro client_shutdown_inv) (simp add: client_inv_def)
    with assms(3) app Inl show ?thesis by (auto simp: client_on_data_def Let_def case_prod_beta)
  next
    case (Inr ls)
    then obtain ms where "accept_lines C ls = Inr ms"
      using assms(3) app by (cases "accept_lines C ls") (auto simp: client_on_data_def)
    with assms(3) app Inr have "drain C ((cl\<lparr>cl_buffer := lb\<rparr>)\<lparr>cl_queue := cl_queue cl @ ms\<rparr>) = (Inr cl', es)"
      by (simp add: client_on_data_def)
    then show ?thesis by (rule drain_core [OF assms(1), rotated]) (simp only: client_core_flags buf)
  qed
qed

lemma client_on_line_inv:
  assumes "client_inv cl" "client_on_line C line cl = (Inr cl', es)"
  shows "client_inv cl'"
proof -
  have "client_inv cl1" if "runCommand C t cl = (Inr cl1, es1)" for t cl1 es1
    using that assms(1) client_shutdown_inv [OF assms(1), where m = "js ''Disconnecting...''"]
    by (auto simp: runCommand_def case_prod_beta split: if_splits sum.splits)
  with assms show ?thesis
    by (auto simp: client_on_line_def Let_def split: if_splits option.splits)
qed

lemma client_step_inv:
  assumes "module_total C" "keygen_ok C" "client_inv cl" "admissible cl ev" "client_step C ev cl = (Inr cl', es)"
  shows "client_inv cl'"
proof (cases ev)
  case (DataChunk chunk)
  with client_on_data_inv [OF assms(1,3)] assms(5) show ?thesis by simp
next
  case KeysDue
  with assms(4) obtain i where i: "cl_keyTimer cl = Some i" "cl_session cl = None"
    "VStr i = client_A \<or> VStr i = client_B" by (auto split: option.splits)
  with client_on_keys_inv [OF assms(1-3) i(2,3)] assms(5) KeysDue show ?thesis by simp
next
  case (UserLine line)
  with client_on_line_inv [OF assms(3)] assms(5) show ?thesis by simp
next
  case Destroyed_socket
  with assms(3,5) show ?thesis by (auto simp: client_inv_def client_core_flags)
next
  case Interrupt
  with assms(5) client_shutdown_inv [OF assms(3)] show ?thesis by (auto simp: case_prod_beta)
next
  case InputClosed
  with assms(5) client_shutdown_inv [OF assms(3)] show ?thesis by (auto simp: case_prod_beta)
qed (use assms(3,5) in auto)

text \<open>A run: events that are not admissible are skipped, and nothing happens after a crash or an exit.\<close>

fun is_exit :: "client_effect \<Rightarrow> bool" where
  "is_exit (Exit n) \<longleftrightarrow> True"
| "is_exit _ \<longleftrightarrow> False"

fun client_next :: "'r node_crypto \<Rightarrow> client_event \<Rightarrow> 'r client option \<Rightarrow> 'r client option" where
  "client_next C ev None = None"
| "client_next C ev (Some cl) =
     (if admissible cl ev
      then (case client_step C ev cl of
          (Inl e, es) \<Rightarrow> None
        | (Inr cl', es) \<Rightarrow> if list_ex is_exit es then None else Some cl')
      else Some cl)"

interpretation terminal: machine "client_next C"
    "\<lambda>r. module_total C \<and> keygen_ok C \<and> (case r of None \<Rightarrow> True | Some cl \<Rightarrow> client_inv cl)"
  for C :: "'r node_crypto"
proof unfold_locales
  fix r :: "'r client option" and ev
  assume "module_total C \<and> keygen_ok C \<and> (case r of None \<Rightarrow> True | Some cl \<Rightarrow> client_inv cl)"
  then show "module_total C \<and> keygen_ok C
      \<and> (case client_next C ev r of None \<Rightarrow> True | Some cl \<Rightarrow> client_inv cl)"
    using client_step_inv [of C _ ev] by (cases r) (auto split: prod.split sum.split)
qed

end
