(* ===== verification/ClientProperties.thy ===== *)
theory ClientProperties
  imports ClientLaws
begin

text \<open>The properties of the client over its handlers, its runs and the lines of its user.\<close>

section \<open>A concrete client\<close>

definition sample_start :: "nat client" where
  "sample_start = fst (client_start True (js ''127.0.0.1:5000'') \<lparr>w_entropy = 1, w_heap = []\<rparr>)"

lemma sample_keygen: "keygen_ok sample_crypto"
  by (simp add: keygen_ok_def generateKeyPair_def) (simp add: sample_crypto_def)

lemma sample_start_inv: "client_inv sample_start"
  by (simp add: sample_start_def client_inv_start)

section \<open>Which messages end the client\<close>

lemma system_throws:
  assumes "session_ok cl"
  shows "(\<exists>e es. client_system C msg cl = (Inl e, es)) \<longleftrightarrow>
    \<not> startsWith (text_of (field msg ''text'')) connected_as \<and> cl_session cl = None
    \<and> (field msg ''event'' = VStr PEER_JOINED \<or> field msg ''event'' = VStr PEER_LEFT)"
proof (cases "cl_session cl")
  case None
  then show ?thesis by (auto simp: client_system_def Let_def case_prod_beta)
next
  case (Some s)
  with assms have "identity_ok (ps_identity s)" by (simp add: session_ok_def session_invD(1))
  with Some show ?thesis by (auto simp: client_system_def Let_def case_prod_beta onPeerJoined_eq)
qed



section \<open>Runs\<close>

text \<open>
  The effects of a run, and the client at its end, or \<open>None\<close> when it crashed or exited.
\<close>

fun client_run :: "'r node_crypto \<Rightarrow> client_event list \<Rightarrow> 'r client \<Rightarrow> 'r client option \<times> client_effect list" where
  "client_run C [] cl = (Some cl, [])"
| "client_run C (ev # evs) cl =
     (case client_step C ev cl of
        (Inl e, es) \<Rightarrow> (None, es)
      | (Inr cl', es) \<Rightarrow>
          if list_ex is_exit es then (None, es)
          else let (r, es') = client_run C evs cl' in (r, es @ es'))"



section \<open>The end of the connection\<close>

lemma shutdown_effects:
  "client_shutdown m cl = (cl', es) \<Longrightarrow>
    cl_closing cl' \<and> count_list es SocketEnd = (if cl_closing cl then 0 else 1)
    \<and> count_list es StartExitTimer = count_list es SocketEnd \<and> Prompt \<notin> set es"
  by (auto simp: client_shutdown_def)

text \<open>What an ordinary handler does to the end of the connection: nothing, and no prompt once closing.\<close>

definition no_end :: "'r client \<Rightarrow> client_effect list \<Rightarrow> bool" where
  "no_end cl es \<longleftrightarrow> SocketEnd \<notin> set es \<and> StartExitTimer \<notin> set es \<and> \<not> list_ex is_exit es
     \<and> (cl_closing cl \<longrightarrow> Prompt \<notin> set es)"

lemma no_end_simps [simp]:
  "no_end cl []" "no_end cl (es @ fs) \<longleftrightarrow> no_end cl es \<and> no_end cl fs" "no_end cl (map sendMessage ms)"
  "no_end cl (client_log cl ls)" "no_end cl (showPrompt cl)" "no_end cl (SocketWrite t # es) \<longleftrightarrow> no_end cl es"
  by (auto simp: no_end_def client_log_def showPrompt_def sendMessage_def list_ex_iff)

lemma client_log_cong [simp]:
  "client_log (cl\<lparr>cl_session := s, cl_world := w\<rparr>) ls = client_log cl ls"
  "client_log (cl\<lparr>cl_peerPresent := b\<rparr>) ls = client_log cl ls"
  "client_log (cl\<lparr>cl_queue := ms\<rparr>) ls = client_log cl ls"
  "client_log (cl\<lparr>cl_buffer := lb\<rparr>) ls = client_log cl ls"
  by (simp_all add: client_log_def showPrompt_def)

lemma no_end_closing: "cl_closing cl' = cl_closing cl \<Longrightarrow> no_end cl' es = no_end cl es"
  by (simp add: no_end_def)

lemma handleMessage_no_end:
  assumes "client_handleMessage C msg cl = (r, es)"
  shows "no_end cl es \<and> (\<forall>cl'. r = Inr cl' \<longrightarrow> cl_closing cl' = cl_closing cl)"
proof -
  have "no_end cl es \<and> (\<forall>cl'. r = Inr cl' \<longrightarrow> cl_closing cl' = cl_closing cl)"
    if "client_system C msg cl = (r, es)" for r es
    using that
    by (auto simp: client_system_def onIdentityAssigned_def Let_def client_log_def no_end_def showPrompt_def
        sendMessage_def list_ex_iff split: if_splits option.splits sum.splits prod.splits)
  moreover have "no_end cl es \<and> (\<forall>cl'. r = Inr cl' \<longrightarrow> cl_closing cl' = cl_closing cl)"
    if "client_handshake C msg cl = (r, es)" for r es
    using that by (auto simp: client_handshake_def Let_def split: option.splits sum.splits prod.splits)
  ultimately show ?thesis
    using assms by (auto simp: client_handleMessage_def Let_def split: if_splits sum.splits)
qed

lemma drain_no_end:
  "drain C cl = (r, es) \<Longrightarrow> no_end cl es \<and> (\<forall>cl'. r = Inr cl' \<longrightarrow> cl_closing cl' = cl_closing cl)"
proof (induction C cl arbitrary: r es rule: drain.induct)
  case (1 C cl)
  show ?case
  proof (cases "cl_queue cl = [] \<or> cl_generatingKeys cl")
    case True
    with "1.prems" show ?thesis by (auto simp: drain.simps [of C cl] split: list.splits)
  next
    case False
    then obtain msg msgs where q: "cl_queue cl = msg # msgs" by (cases "cl_queue cl") auto
    obtain x es1 where h: "client_handleMessage C msg (cl\<lparr>cl_queue := msgs\<rparr>) = (x, es1)" by fastforce
    from handleMessage_no_end [OF h] have one: "no_end cl es1"
      "\<And>cl1. x = Inr cl1 \<Longrightarrow> cl_closing cl1 = cl_closing cl"
      by (simp_all add: no_end_def)
    show ?thesis
    proof (cases x)
      case (Inl e)
      with "1.prems" q False h one show ?thesis by (auto simp: drain.simps [of C cl])
    next
      case (Inr cl1)
      obtain r2 es2 where d: "drain C cl1 = (r2, es2)" by fastforce
      with "1.prems" q False h Inr have "r = r2" "es = es1 @ es2" by (auto simp: drain.simps [of C cl])
      moreover have "\<not> cl_generatingKeys cl" using False by simp
      ultimately show ?thesis
        using "1.IH" [OF q _ h [symmetric] Inr d] one Inr no_end_closing [of cl1 cl] by auto
    qed
  qed
qed

text \<open>What a step does to the end of the connection.\<close>

definition ends_once :: "'r client \<Rightarrow> bool \<Rightarrow> client_effect list \<Rightarrow> bool" where
  "ends_once cl closing' es \<longleftrightarrow>
     count_list es SocketEnd = (if closing' \<and> \<not> cl_closing cl then 1 else 0)
     \<and> count_list es StartExitTimer = count_list es SocketEnd
     \<and> (cl_closing cl \<longrightarrow> closing' \<and> Prompt \<notin> set es)"

lemma no_end_once: "no_end cl es \<Longrightarrow> ends_once cl (cl_closing cl) es"
  by (auto simp: no_end_def ends_once_def)

lemma ends_once_append:
  "no_end cl es \<Longrightarrow> ends_once cl b fs \<Longrightarrow> ends_once cl b (es @ fs)"
  by (auto simp: no_end_def ends_once_def)

lemma ends_once_trans:
  "ends_once cl (cl_closing cl1) es \<Longrightarrow> ends_once cl1 b fs \<Longrightarrow> ends_once cl b (es @ fs)"
  by (cases "cl_closing cl"; cases "cl_closing cl1"; cases b) (simp_all add: ends_once_def)

lemma ends_once_closing: "ends_once cl b es \<Longrightarrow> b \<longleftrightarrow> cl_closing cl \<or> SocketEnd \<in> set es"
  using count_list_0_iff [of es SocketEnd] by (auto simp: ends_once_def split: if_splits)

lemma shutdown_once_step:
  "ends_once cl (cl_closing (fst (client_shutdown m cl))) (snd (client_shutdown m cl))"
  by (simp add: client_shutdown_def ends_once_def)

lemma keys_drained:
  assumes "createIdentity C (w_entropy (cl_world cl)) = (ident, e)" "new_PeerSession i ident = Inr s"
    and "cl1 = cl\<lparr>cl_identity := Some ident, cl_session := Some s, cl_generatingKeys := False,
      cl_keyTimer := None, cl_world := (cl_world cl)\<lparr>w_entropy := e\<rparr>\<rparr>"
    and "drain C cl1 = (r, es)"
  shows "\<exists>ls. client_on_keys C i cl = (r, client_log cl1 ls @ es)"
  unfolding client_on_keys_def Let_def assms(1) prod.case assms(2) sum.case assms(3) [symmetric] assms(4)
  by blast

lemma on_keys_no_end:
  assumes "client_on_keys C i cl = (r, es)"
  shows "no_end cl es \<and> (\<forall>cl'. r = Inr cl' \<longrightarrow> cl_closing cl' = cl_closing cl)"
proof -
  obtain ident e where ident: "createIdentity C (w_entropy (cl_world cl)) = (ident, e)" by fastforce
  show ?thesis
  proof (cases "new_PeerSession i ident")
    case (Inl x)
    with assms ident show ?thesis by (auto simp: client_on_keys_def)
  next
    case (Inr s)
    let ?cl1 = "cl\<lparr>cl_identity := Some ident, cl_session := Some s, cl_generatingKeys := False,
      cl_keyTimer := None, cl_world := (cl_world cl)\<lparr>w_entropy := e\<rparr>\<rparr>"
    obtain r' es' where d: "drain C ?cl1 = (r', es')" by fastforce
    have same: "no_end cl xs = no_end ?cl1 xs" for xs by (rule no_end_closing) simp
    obtain ls where "r = r'" "es = client_log ?cl1 ls @ es'"
      using keys_drained [OF ident Inr refl d] assms by (metis prod.inject)
    with drain_no_end [OF d] show ?thesis by (simp add: same)
  qed
qed

lemma on_data_once:
  assumes "client_on_data C chunk cl = (r, es)"
  shows "\<not> list_ex is_exit es \<and> ends_once cl (case r of Inr cl' \<Rightarrow> cl_closing cl' | Inl e \<Rightarrow> cl_closing cl) es"
proof -
  obtain x lb where app: "lb_append (cl_buffer cl) (utf8_decode chunk) = (x, lb)" by fastforce
  show ?thesis
  proof (cases x)
    case (Inl e)
    let ?cl1 = "cl\<lparr>cl_buffer := lb\<rparr>"
    have log: "no_end cl (client_log ?cl1 ls)" for ls by simp
    have once: "ends_once cl (cl_closing (fst (client_shutdown m ?cl1))) (snd (client_shutdown m ?cl1))"
      "\<not> list_ex is_exit (snd (client_shutdown m ?cl1))" for m
      by (simp_all add: client_shutdown_def ends_once_def)
    with Inl assms app ends_once_append [OF log once(1)] log show ?thesis
      by (auto simp: client_on_data_def Let_def case_prod_beta no_end_def)
  next
    case (Inr ls)
    show ?thesis
    proof (cases "accept_lines C ls")
      case (Inl e)
      with Inr assms app show ?thesis by (auto simp: client_on_data_def ends_once_def)
    next
      case ms: (Inr ms)
      let ?cl1 = "cl\<lparr>cl_buffer := lb, cl_queue := cl_queue cl @ ms\<rparr>"
      have "drain C ?cl1 = (r, es)" using Inr ms assms app by (simp add: client_on_data_def)
      from drain_no_end [OF this] have "no_end cl es" "\<forall>cl'. r = Inr cl' \<longrightarrow> cl_closing cl' = cl_closing cl"
        by (simp_all add: no_end_def)
      with no_end_once [OF this(1)] show ?thesis by (cases r) (simp_all add: no_end_def)
    qed
  qed
qed

lemma step_ends_once:
  assumes "client_step C ev cl = (r, es)"
  shows "ends_once cl (case r of Inr cl' \<Rightarrow> cl_closing cl' | Inl e \<Rightarrow> cl_closing cl) es"
proof (cases ev)
  case (DataChunk chunk)
  with on_data_once assms show ?thesis by fastforce
next
  case KeysDue
  have "no_end cl es \<and> (\<forall>cl'. r = Inr cl' \<longrightarrow> cl_closing cl' = cl_closing cl)"
    using assms KeysDue on_keys_no_end [of C _ cl r es] by (auto split: option.splits)
  with no_end_once [of cl es] show ?thesis by (cases r) simp_all
next
  case (UserLine line)
  have cmd: "ends_once cl (case r of Inr cl' \<Rightarrow> cl_closing cl' | Inl e \<Rightarrow> cl_closing cl) es"
    if "runCommand C t cl = (r, es)" for t
    using that shutdown_once_step [of cl "js ''Disconnecting...''"]
      no_end_once [OF no_end_simps(4)] no_end_once [OF no_end_simps(1)]
    by (auto simp: runCommand_def case_prod_beta split: if_splits sum.splits)
  have "ends_once cl (cl_closing cl) (SocketWrite x # showPrompt cl)" for x by (rule no_end_once) simp
  with UserLine assms cmd no_end_once [OF no_end_simps(4)] no_end_once [OF no_end_simps(5)] show ?thesis
    by (auto simp: client_on_line_def Let_def intro: no_end_once split: if_splits option.splits)
next
  case Interrupt
  with assms shutdown_once_step [of cl "nl @ js ''Disconnecting...''"] show ?thesis
    by (auto simp: case_prod_beta)
next
  case InputClosed
  with assms shutdown_once_step [of cl "js ''Input closed. Disconnecting...''"] show ?thesis
    by (auto simp: case_prod_beta)
next
  case Destroyed_socket
  with assms show ?thesis by (auto simp: ends_once_def)
next
  case ServerClosed
  with assms show ?thesis by (auto simp: ends_once_def)
next
  case (SocketFailed refused m)
  with assms show ?thesis by (auto simp: ends_once_def)
next
  case ExitDue
  with assms show ?thesis by (auto simp: ends_once_def)
qed

text \<open>
  The connection is ended once. Over every run from the start, whatever ends
  it (a command, an interrupt, the end of the input, an oversized frame, several of them),
  the client ends its socket and starts the exit timer at most once, and does so exactly
  when it becomes closing; a closing client shows no prompt any more.
\<close>

theorem shutdown_once:
  assumes "client_run C evs cl = (r, es)" "\<not> cl_closing cl"
  shows "count_list es SocketEnd \<le> 1 \<and> count_list es StartExitTimer = count_list es SocketEnd
    \<and> (\<forall>cl'. r = Some cl' \<longrightarrow> (cl_closing cl' \<longleftrightarrow> SocketEnd \<in> set es))
    \<and> (\<forall>cl'. r = Some cl' \<longrightarrow> cl_closing cl' \<longrightarrow>
         (\<forall>more. Prompt \<notin> set (snd (client_run C more cl')) \<and> SocketEnd \<notin> set (snd (client_run C more cl'))))"
proof -
  have run: "ends_once cl (case r of Some cl' \<Rightarrow> cl_closing cl' | None \<Rightarrow> cl_closing cl \<or> SocketEnd \<in> set es) es"
    if "client_run C evs cl = (r, es)" for evs and cl :: "'a client" and r es
    using that
  proof (induction evs arbitrary: cl r es)
    case Nil
    then show ?case by (auto simp: ends_once_def)
  next
    case (Cons ev evs)
    obtain x es1 where st: "client_step C ev cl = (x, es1)" by fastforce
    note one = step_ends_once [OF st]
    show ?case
    proof (cases "\<exists>cl1. x = Inr cl1 \<and> \<not> list_ex is_exit es1")
      case False
      then have "r = None" "es = es1" using Cons.prems st by (cases x; auto)+
      moreover have "SocketEnd \<in> set es1 \<longleftrightarrow> count_list es1 SocketEnd \<noteq> 0" by (metis count_list_0_iff)
      ultimately show ?thesis using one by (cases x) (auto simp: ends_once_def split: if_splits)
    next
      case True
      then obtain cl1 r2 es2 where x: "x = Inr cl1" "\<not> list_ex is_exit es1" "client_run C evs cl1 = (r2, es2)"
        by (metis prod.exhaust)
      then have "r = r2" "es = es1 @ es2" using Cons.prems st by auto
      moreover have one: "ends_once cl (cl_closing cl1) es1" using one x(1) by simp
      note ends_once_trans [OF one Cons.IH [OF x(3)]] ends_once_closing [OF one]
      ultimately show ?thesis by (cases r2) (auto simp: disj_assoc)
    qed
  qed
  have more: "Prompt \<notin> set (snd (client_run C evs cl)) \<and> SocketEnd \<notin> set (snd (client_run C evs cl))"
    if "cl_closing cl" for evs and cl :: "'a client"
  proof -
    obtain r es where "client_run C evs cl = (r, es)" by fastforce
    with run [OF this] that show ?thesis by (auto simp: ends_once_def count_list_0_iff)
  qed
  from run [OF assms(1)] assms(2) have
    "count_list es SocketEnd \<le> 1 \<and> count_list es StartExitTimer = count_list es SocketEnd"
    by (auto simp: ends_once_def)
  moreover have "cl_closing cl' \<longleftrightarrow> SocketEnd \<in> set es" if "r = Some cl'" for cl'
    using ends_once_closing [OF run [OF assms(1)]] assms(2) that by simp
  ultimately show ?thesis using more by blast
qed

theorem shutdown_once_witness:
  "count_list (snd (client_run sample_crypto [Interrupt, InputClosed, UserLine (js ''/quit'')] sample_start)) SocketEnd \<le> 1"
proof -
  have "\<not> cl_closing sample_start" by (simp add: sample_start_def client_start_def)
  with shutdown_once [OF prod.collapse [symmetric] this] show ?thesis by blast
qed

section \<open>Messages that arrive while keys are generated\<close>

definition on_result :: "('r client \<Rightarrow> 'r client) \<Rightarrow> 'r client_result \<Rightarrow> 'r client_result" where
  "on_result f = (\<lambda>(r, es). (map_sum id f r, es))"

text \<open>The handlers of a message neither read nor change the queue and the buffer.\<close>

lemma handleMessage_frame:
  "client_handleMessage C msg (cl\<lparr>cl_queue := qs, cl_buffer := lb\<rparr>) =
    on_result (\<lambda>cl. cl\<lparr>cl_queue := qs, cl_buffer := lb\<rparr>) (client_handleMessage C msg cl)"
proof -
  let ?f = "\<lambda>cl :: 'a client. cl\<lparr>cl_queue := qs, cl_buffer := lb\<rparr>"
  have sys: "client_system C msg (?f cl) = on_result ?f (client_system C msg cl)"
    by (auto simp: client_system_def on_result_def Let_def case_prod_beta onIdentityAssigned_def
        client_log_def showPrompt_def split: option.split sum.split)
  have hs: "client_handshake C msg (?f cl) = on_result ?f (client_handshake C msg cl)"
    by (auto simp: client_handshake_def on_result_def Let_def client_log_def showPrompt_def
        split: option.split sum.split prod.split)
  show ?thesis
    unfolding client_handleMessage_def sys hs Let_def
    by (auto simp: on_result_def split: sum.split)
qed

lemma handleMessage_queue:
  "client_handleMessage C msg (cl\<lparr>cl_queue := qs\<rparr>) =
    on_result (\<lambda>cl'. cl'\<lparr>cl_queue := qs, cl_buffer := cl_buffer cl\<rparr>) (client_handleMessage C msg cl)"
  using handleMessage_frame [where C = C and msg = msg and cl = cl and qs = qs and lb = "cl_buffer cl"] by simp

lemma handleMessage_buffer:
  "client_handleMessage C msg (cl\<lparr>cl_buffer := lb\<rparr>) =
    on_result (\<lambda>cl'. cl'\<lparr>cl_queue := cl_queue cl, cl_buffer := lb\<rparr>) (client_handleMessage C msg cl)"
  using handleMessage_frame [where C = C and msg = msg and cl = cl and qs = "cl_queue cl" and lb = lb] by simp

lemma handleMessage_keeps:
  assumes "client_handleMessage C msg cl = (Inr cl', es)"
  shows "cl_queue cl' = cl_queue cl" "cl_buffer cl' = cl_buffer cl"
proof -
  have "cl' = cl'\<lparr>cl_queue := cl_queue cl, cl_buffer := cl_buffer cl\<rparr>"
    using handleMessage_frame [where C = C and msg = msg and cl = cl and qs = "cl_queue cl" and lb = "cl_buffer cl"] assms by (simp add: on_result_def)
  then show "cl_queue cl' = cl_queue cl" "cl_buffer cl' = cl_buffer cl" by (cases cl', simp)+
qed

text \<open>One turn of the loop.\<close>

lemma drain_turn:
  assumes "cl_queue cl = msg # msgs" "\<not> cl_generatingKeys cl"
  shows "drain C cl = (case client_handleMessage C msg (cl\<lparr>cl_queue := msgs\<rparr>) of
      (Inl e, es) \<Rightarrow> (Inl e, es)
    | (Inr cl', es) \<Rightarrow> let (r, es') = drain C cl' in (r, es @ es'))"
  using assms by (subst drain.simps) simp

lemma drain_idle: "cl_queue cl = [] \<or> cl_generatingKeys cl \<Longrightarrow> drain C cl = (Inr cl, [])"
  by (auto simp: drain.simps [of C cl] split: list.split)

lemma drain_buffer:
  "drain C (cl\<lparr>cl_buffer := lb\<rparr>) = on_result (\<lambda>cl'. cl'\<lparr>cl_buffer := lb\<rparr>) (drain C cl)"
proof (induction C cl rule: drain.induct)
  case (1 C cl)
  show ?case
  proof (cases "cl_queue cl = [] \<or> cl_generatingKeys cl")
    case True
    then show ?thesis by (simp add: drain_idle on_result_def)
  next
    case False
    then obtain msg msgs where q: "cl_queue cl = msg # msgs" and g: "\<not> cl_generatingKeys cl"
      by (cases "cl_queue cl") auto
    obtain x es1 where h: "client_handleMessage C msg (cl\<lparr>cl_queue := msgs\<rparr>) = (x, es1)" by fastforce
    have swap: "cl\<lparr>cl_buffer := lb, cl_queue := msgs\<rparr> = cl\<lparr>cl_queue := msgs, cl_buffer := lb\<rparr>"
      by (cases cl) simp
    have h': "client_handleMessage C msg (cl\<lparr>cl_buffer := lb, cl_queue := msgs\<rparr>) =
        on_result (\<lambda>cl'. cl'\<lparr>cl_queue := msgs, cl_buffer := lb\<rparr>) (x, es1)"
      using handleMessage_buffer [where C = C and msg = msg and cl = "cl\<lparr>cl_queue := msgs\<rparr>" and lb = lb] h
      unfolding swap by simp
    have turn: "drain C (cl\<lparr>cl_buffer := lb\<rparr>) =
        (case client_handleMessage C msg (cl\<lparr>cl_buffer := lb, cl_queue := msgs\<rparr>) of
           (Inl e, es) \<Rightarrow> (Inl e, es)
         | (Inr cl', es) \<Rightarrow> let (r, es') = drain C cl' in (r, es @ es'))"
      using drain_turn [of "cl\<lparr>cl_buffer := lb\<rparr>" msg msgs C] q g by simp
    show ?thesis
    proof (cases x)
      case (Inl e)
      then show ?thesis unfolding turn h' drain_turn [OF q g] h by (simp add: on_result_def)
    next
      case (Inr cl1)
      have "cl_queue cl1 = msgs" using handleMessage_keeps [OF h [unfolded Inr]] by simp
      then have "cl1\<lparr>cl_queue := msgs, cl_buffer := lb\<rparr> = cl1\<lparr>cl_buffer := lb\<rparr>" by (cases cl1) simp
      with "1.IH" [OF q g h [symmetric] Inr] Inr show ?thesis
        unfolding turn h' drain_turn [OF q g] h by (simp add: on_result_def case_prod_beta Let_def)
    qed
  qed
qed

lemma drain_append:
  "drain C (cl\<lparr>cl_queue := cl_queue cl @ ms\<rparr>) =
    (case drain C cl of
       (Inl e, es) \<Rightarrow> (Inl e, es)
     | (Inr cl', es) \<Rightarrow> let (r, es') = drain C (cl'\<lparr>cl_queue := cl_queue cl' @ ms\<rparr>) in (r, es @ es'))"
proof (induction C cl rule: drain.induct)
  case (1 C cl)
  show ?case
  proof (cases "cl_queue cl = [] \<or> cl_generatingKeys cl")
    case True
    then show ?thesis by (simp add: drain_idle)
  next
    case False
    then obtain msg msgs where q: "cl_queue cl = msg # msgs" and g: "\<not> cl_generatingKeys cl"
      by (cases "cl_queue cl") auto
    obtain x es1 where h: "client_handleMessage C msg (cl\<lparr>cl_queue := msgs\<rparr>) = (x, es1)" by fastforce
    have h': "client_handleMessage C msg (cl\<lparr>cl_queue := msgs @ ms\<rparr>) =
        on_result (\<lambda>cl'. cl'\<lparr>cl_queue := msgs @ ms, cl_buffer := cl_buffer cl\<rparr>) (x, es1)"
      using handleMessage_queue [where C = C and msg = msg and cl = "cl\<lparr>cl_queue := msgs\<rparr>" and qs = "msgs @ ms"] h by simp
    have turn: "drain C (cl\<lparr>cl_queue := cl_queue cl @ ms\<rparr>) =
        (case client_handleMessage C msg (cl\<lparr>cl_queue := msgs @ ms\<rparr>) of
           (Inl e, es) \<Rightarrow> (Inl e, es)
         | (Inr cl', es) \<Rightarrow> let (r, es') = drain C cl' in (r, es @ es'))"
      using drain_turn [of "cl\<lparr>cl_queue := cl_queue cl @ ms\<rparr>" msg "msgs @ ms" C] q g by simp
    show ?thesis
    proof (cases x)
      case (Inl e)
      then show ?thesis unfolding turn h' drain_turn [OF q g] h by (simp add: on_result_def)
    next
      case (Inr cl1)
      have "cl_queue cl1 = msgs" "cl_buffer cl1 = cl_buffer cl"
        using handleMessage_keeps [OF h [unfolded Inr]] by simp_all
      then have "cl1\<lparr>cl_queue := msgs @ ms, cl_buffer := cl_buffer cl\<rparr> = cl1\<lparr>cl_queue := cl_queue cl1 @ ms\<rparr>"
        by (cases cl1) simp
      then have turn': "drain C (cl\<lparr>cl_queue := cl_queue cl @ ms\<rparr>) =
          (let (r, es') = drain C (cl1\<lparr>cl_queue := cl_queue cl1 @ ms\<rparr>) in (r, es1 @ es'))"
        unfolding turn h' Inr by (simp add: on_result_def)
      show ?thesis
        unfolding turn' drain_turn [OF q g] h Inr "1.IH" [OF q g h [symmetric] Inr]
        by (auto simp: case_prod_beta Let_def split: sum.split)
    qed
  qed
qed

definition is_write :: "client_effect \<Rightarrow> bool" where
  "is_write e \<longleftrightarrow> (case e of SocketWrite t \<Rightarrow> True | _ \<Rightarrow> False)"

lemma log_no_write [simp]: "filter is_write (client_log cl ls) = []"
  by (simp add: client_log_def showPrompt_def is_write_def)

text \<open>
  Property C26: messages that arrive while the keys are generated are neither lost nor
  treated differently. If a chunk of valid frames arrives during the key generation, the
  client ends in the same state, or crashes alike, and sends the same frames in the same
  order, as if it had arrived afterwards; until the keys exist, it handles none of them.
\<close>

theorem keygen_order:
  assumes "cl_generatingKeys cl" "cl_keyTimer cl = Some i"
    and "lb_append (cl_buffer cl) (utf8_decode chunk) = (Inr ls, lb)" "accept_lines C ls = Inr ms"
  shows "fst (client_run C [DataChunk chunk, KeysDue] cl) = fst (client_run C [KeysDue, DataChunk chunk] cl)
    \<and> filter is_write (snd (client_run C [DataChunk chunk, KeysDue] cl))
      = filter is_write (snd (client_run C [KeysDue, DataChunk chunk] cl))
    \<and> client_step C (DataChunk chunk) cl = (Inr (cl\<lparr>cl_buffer := lb, cl_queue := cl_queue cl @ ms\<rparr>), [])"
proof -
  let ?clq = "cl\<lparr>cl_buffer := lb, cl_queue := cl_queue cl @ ms\<rparr>"
  have data: "client_step C (DataChunk chunk) cl = (Inr ?clq, [])"
    using assms by (simp add: client_on_data_def drain_idle)
  obtain ident e where ident: "createIdentity C (w_entropy (cl_world cl)) = (ident, e)" by fastforce
  have due: "client_step C KeysDue cl = client_on_keys C i cl" "client_step C KeysDue ?clq = client_on_keys C i ?clq"
    using assms(2) by simp_all
  show ?thesis
  proof (cases "new_PeerSession i ident")
    case (Inl x)
    then have "client_on_keys C i cl = (Inl x, [])" "client_on_keys C i ?clq = (Inl x, [])"
      using ident by (simp_all add: client_on_keys_def)
    then show ?thesis using data due by simp
  next
    case (Inr s)
    let ?K = "cl\<lparr>cl_identity := Some ident, cl_session := Some s, cl_generatingKeys := False,
      cl_keyTimer := None, cl_world := (cl_world cl)\<lparr>w_entropy := e\<rparr>\<rparr>"
    let ?Kq = "?clq\<lparr>cl_identity := Some ident, cl_session := Some s, cl_generatingKeys := False,
      cl_keyTimer := None, cl_world := (cl_world ?clq)\<lparr>w_entropy := e\<rparr>\<rparr>"
    let ?X = "?K\<lparr>cl_buffer := lb\<rparr>"
    obtain r1 es1 where d: "drain C ?K = (r1, es1)" by fastforce
    have K0: "?Kq = ?X\<lparr>cl_queue := cl_queue ?X @ ms\<rparr>" by (rule client.equality) simp_all
    have dX: "drain C ?X = on_result (\<lambda>c. c\<lparr>cl_buffer := lb\<rparr>) (r1, es1)"
      unfolding drain_buffer d ..
    have dq: "drain C ?Kq = (case drain C ?X of
        (Inl e, es) \<Rightarrow> (Inl e, es)
      | (Inr cl', es) \<Rightarrow> let (r, es') = drain C (cl'\<lparr>cl_queue := cl_queue cl' @ ms\<rparr>) in (r, es @ es'))"
      unfolding K0 by (rule drain_append)
    obtain ls1 where late1: "client_on_keys C i cl = (r1, client_log ?K ls1 @ es1)"
      using keys_drained [OF ident Inr refl d] by blast
    have ident0: "createIdentity C (w_entropy (cl_world ?clq)) = (ident, e)" using ident by simp
    obtain r0 es0 where d0: "drain C ?Kq = (r0, es0)" by fastforce
    obtain ls0 where early: "client_on_keys C i ?clq = (r0, client_log ?Kq ls0 @ es0)"
      using keys_drained [OF ident0 Inr refl d0] by blast
    note exits = on_keys_no_end [OF late1] on_keys_no_end [OF early]
    show ?thesis
    proof (cases r1)
      case (Inl x)
      then have "r0 = Inl x" "es0 = es1"
        using d0 unfolding dq dX by (simp_all add: on_result_def)
      with Inl late1 early data due show ?thesis by simp
    next
      case r1: (Inr cl1)
      let ?Y = "cl1\<lparr>cl_buffer := lb, cl_queue := cl_queue cl1 @ ms\<rparr>"
      obtain r2 es2 where d2: "drain C ?Y = (r2, es2)" by fastforce
      then have d0': "r0 = r2" "es0 = es1 @ es2"
        using d0 unfolding dq dX r1 by (simp_all add: on_result_def)
      have "drain C (?K\<lparr>cl_buffer := cl_buffer cl\<rparr>) = on_result (\<lambda>c. c\<lparr>cl_buffer := cl_buffer cl\<rparr>) (r1, es1)"
        unfolding drain_buffer d ..
      moreover have "?K\<lparr>cl_buffer := cl_buffer cl\<rparr> = ?K" by (cases cl) simp
      ultimately have "cl1\<lparr>cl_buffer := cl_buffer cl\<rparr> = cl1" using d r1 by (simp add: on_result_def)
      then have "cl_buffer cl1 = cl_buffer cl" by (cases cl1) simp
      then have late2: "client_step C (DataChunk chunk) cl1 = (r2, es2)"
        using assms(3,4) d2 by (simp add: client_on_data_def)
      have nx: "\<not> list_ex is_exit (client_log ?K ls1 @ es1)" "\<not> list_ex is_exit (client_log ?Kq ls0 @ es0)"
        "\<not> list_ex is_exit es2"
        using exits drain_no_end [OF d2] by (simp_all add: no_end_def)
      show ?thesis
        using data due late1 early late2 nx d0' r1
        by (cases r2) simp_all
    qed
  qed
qed

text \<open>A line that is a valid message is accepted.\<close>

lemma valid_frame:
  assumes "json_ok m" "validateMessage C m = Inr Valid"
  shows "trim (json_text m) \<noteq> []" "decode (json_text m) = Inr m"
proof -
  have "\<not> not_object m" by (rule valid_not_not_object [OF assms(2)])
  with assms(1) obtain kvs where "m = VObj kvs" by (cases m) auto
  with assms(1) object_text_nonblank show "trim (json_text m) \<noteq> []" by blast
  show "decode (json_text m) = Inr m" by (rule decode_text [OF assms(1)])
qed

lemma accept_frame:
  "json_ok m \<Longrightarrow> validateMessage C m = Inr Valid \<Longrightarrow> accept_lines C [json_text m] = Inr [m]"
  by (simp add: valid_frame)

definition sample_notice :: jsval where
  "sample_notice = createErrorMessage (VStr (js ''hi'')) PROTOCOL_VERSION"

lemma sample_notice_ok: "json_ok sample_notice" "validateMessage C sample_notice = Inr Valid"
proof -
  show "json_ok sample_notice"
    by (simp add: sample_notice_def createErrorMessage_def obj_def array_index_def js_def unit_of_def is_digit_def
        PROTOCOL_VERSION_def)
  have "trim (js ''hi'') \<noteq> []" by (simp add: trim_eq_Nil_iff js_def unit_of_def is_js_space_def)
  then show "validateMessage C sample_notice = Inr Valid"
    using validate_plain_iff [of sample_notice ERROR C]
    by (simp add: sample_notice_def createErrorMessage_def optional_version_def nonblank_def)
qed

lemma sample_notice_fits: "byteLength (json_text sample_notice) \<le> MAX_FRAME_SIZE"
proof -
  have "stringify (VNum (num_lit 1)) = Some (js ''1'')"
    by (simp only: stringify.simps num_one jsnum.case num_one_string [unfolded num_one])
  then have "length (json_text sample_notice) = 40"
    by (simp del: One_nat_def add: sample_notice_def createErrorMessage_def obj_def PROTOCOL_VERSION_def json_text_def quote_json_def js_def unit_of_def
        quote_unit_def is_high_def is_low_def)
  with byteLength_bounds [of "json_text sample_notice"] show ?thesis by (simp add: MAX_FRAME_SIZE_def)
qed

theorem keygen_order_witness:
  "let cl = sample_start\<lparr>cl_generatingKeys := True, cl_keyTimer := Some (js ''Client A'')\<rparr>;
       chunk = utf8_encode (encode sample_notice)
   in fst (client_run sample_crypto [DataChunk chunk, KeysDue] cl)
      = fst (client_run sample_crypto [KeysDue, DataChunk chunk] cl)"
proof -
  let ?cl = "sample_start\<lparr>cl_generatingKeys := True, cl_keyTimer := Some (js ''Client A'')\<rparr>"
  have g: "cl_generatingKeys ?cl" "cl_keyTimer ?cl = Some (js ''Client A'')"
    "cl_buffer ?cl = new_LineBuffer MAX_FRAME_SIZE"
    by (simp_all add: sample_start_def client_start_def)
  have "accept_lines sample_crypto [json_text sample_notice] = Inr [sample_notice]"
    by (rule accept_frame [OF sample_notice_ok])
  with keygen_order [OF g(1,2), of "utf8_encode (encode sample_notice)"] frame_arrives [OF sample_notice_ok(1) sample_notice_fits]
  show ?thesis unfolding Let_def g(3) by blast
qed

section \<open>Lines of the user\<close>

lemma nonspace_in_trim: "u \<in> set s \<Longrightarrow> \<not> is_js_space u \<Longrightarrow> u \<in> set (trim s)"
proof -
  have keep: "u \<in> set xs \<Longrightarrow> \<not> P u \<Longrightarrow> u \<in> set (dropWhile P xs)" for P and xs :: jsstring
    by (induction xs) auto
  assume "u \<in> set s" "\<not> is_js_space u"
  then show ?thesis unfolding trim_def by (simp add: keep)
qed

lemma trim_twice: "trim s \<noteq> [] \<Longrightarrow> trim (trim s) \<noteq> []"
  using nonspace_in_trim by (auto simp: trim_eq_Nil_iff)

lemma chat_ok: "json_ok (createChatMessage (VStr myId) (VStr t) PROTOCOL_VERSION)"
  by (simp add: createChatMessage_def obj_def array_index_def js_def unit_of_def is_digit_def PROTOCOL_VERSION_def)

lemma chat_valid:
  "trim t \<noteq> [] \<Longrightarrow> validateMessage C (createChatMessage (VStr myId) (VStr t) PROTOCOL_VERSION) = Inr Valid"
  using validate_plain_iff [of "createChatMessage (VStr myId) (VStr t) PROTOCOL_VERSION" CHAT C]
  by (simp add: createChatMessage_def optional_version_def nonblank_def)

lemma line_sends:
  assumes "client_step C (UserLine line) cl = (r, es)" "SocketWrite t \<in> set es"
  shows "r = Inr cl \<and> es = SocketWrite t # showPrompt cl
    \<and> trim line \<noteq> [] \<and> \<not> startsWith (trim line) (js ''/'') \<and> \<not> cl_destroyed cl
    \<and> byteLength t \<le> MAX_FRAME_SIZE
    \<and> (\<exists>myId m. cl_myId cl = Some myId
         \<and> m = createChatMessage (VStr myId) (VStr (trim line)) PROTOCOL_VERSION \<and> t = encode m
         \<and> lb_append (new_LineBuffer MAX_FRAME_SIZE) (utf8_decode (utf8_encode t))
             = (Inr [json_text m], new_LineBuffer MAX_FRAME_SIZE)
         \<and> decode (json_text m) = Inr m \<and> validateMessage C m = Inr Valid)"
proof -
  have log: "SocketWrite x \<notin> set (client_log cl ls)" "SocketWrite x \<notin> set (showPrompt cl)" for x ls
    by (simp_all add: client_log_def showPrompt_def)
  have cmd: "SocketWrite x \<notin> set fs" if "runCommand C txt' cl = (q, fs)" for txt' q fs x
    using that log by (auto simp: runCommand_def client_shutdown_def split: if_splits sum.splits)
  obtain myId where sent: "cl_myId cl = Some myId" "r = Inr cl" "es = SocketWrite t # showPrompt cl"
    "t = encode (createChatMessage (VStr myId) (VStr (trim line)) PROTOCOL_VERSION)"
    "trim line \<noteq> []" "\<not> startsWith (trim line) (js ''/'')" "\<not> cl_destroyed cl" "byteLength t \<le> MAX_FRAME_SIZE"
    using assms log cmd
    by (auto simp: client_on_line_def Let_def not_less split: if_splits option.splits)
  let ?m = "createChatMessage (VStr myId) (VStr (trim line)) PROTOCOL_VERSION"
  have "byteLength (json_text ?m) \<le> byteLength t"
    using byteLength_prefix [of "json_text ?m" "[10]"] by (simp add: sent(4) encode_text [OF chat_ok])
  then have "byteLength (json_text ?m) \<le> MAX_FRAME_SIZE" using sent(8) by simp
  note frame = frame_arrives [OF chat_ok this]
  have "validateMessage C ?m = Inr Valid" by (rule chat_valid [OF trim_twice [OF sent(5)]])
  with sent frame decode_text [OF chat_ok] show ?thesis by blast
qed

text \<open>A user of client A types two letters.\<close>

definition sample_A :: "nat client" where
  "sample_A = sample_start\<lparr>cl_myId := Some (js ''Client A'')\<rparr>"

lemma sample_types:
  "client_step sample_crypto (UserLine (js ''hi'')) sample_A = (Inr sample_A,
    SocketWrite (encode (createChatMessage (VStr (js ''Client A'')) (VStr (js ''hi'')) PROTOCOL_VERSION))
      # showPrompt sample_A)" and trim_hi: "trim (js ''hi'') = js ''hi''"
proof -
  let ?m = "createChatMessage (VStr (js ''Client A'')) (VStr (js ''hi'')) PROTOCOL_VERSION"
  have "stringify (VNum (num_lit 1)) = Some (js ''1'')"
    by (simp only: stringify.simps num_one jsnum.case num_one_string [unfolded num_one])
  then have "length (encode ?m) = 60"
    by (simp del: One_nat_def add: createChatMessage_def obj_def PROTOCOL_VERSION_def encode_def quote_json_def
        js_def unit_of_def quote_unit_def is_high_def is_low_def)
  then have fits: "\<not> MAX_FRAME_SIZE < byteLength (encode ?m)"
    using byteLength_bounds [of "encode ?m"] by (simp add: MAX_FRAME_SIZE_def)
  show hi: "trim (js ''hi'') = js ''hi''" by (simp add: trim_def js_def unit_of_def is_js_space_def)
  have "\<not> startsWith (js ''hi'') (js ''/'')" "js ''hi'' \<noteq> []"
    by (simp_all add: startsWith_def js_def unit_of_def)
  then show "client_step sample_crypto (UserLine (js ''hi'')) sample_A = (Inr sample_A, SocketWrite (encode ?m) # showPrompt sample_A)"
    using fits hi by (simp add: client_on_line_def sample_A_def sample_start_def client_start_def)
qed

text \<open>
  What a line of the user sends. Whenever a line makes the client write to its
  socket, it writes one frame and changes nothing: the CHAT message with its own identity
  and the trimmed line, at most 65536 bytes with its newline, which a receiver's empty
  buffer gives back as one line, and which parses to the same message and is valid. Blank
  lines, commands, lines without a connection and lines too long write nothing.
\<close>

theorem user_line_sends:
  assumes "client_step C (UserLine line) cl = (r, es)" "SocketWrite t \<in> set es"
  shows "r = Inr cl \<and> es = SocketWrite t # showPrompt cl
    \<and> trim line \<noteq> [] \<and> \<not> startsWith (trim line) (js ''/'') \<and> \<not> cl_destroyed cl
    \<and> byteLength t \<le> MAX_FRAME_SIZE
    \<and> (\<exists>myId m. cl_myId cl = Some myId
         \<and> m = createChatMessage (VStr myId) (VStr (trim line)) PROTOCOL_VERSION \<and> t = encode m
         \<and> lb_append (new_LineBuffer MAX_FRAME_SIZE) (utf8_decode (utf8_encode t))
             = (Inr [json_text m], new_LineBuffer MAX_FRAME_SIZE)
         \<and> decode (json_text m) = Inr m \<and> validateMessage C m = Inr Valid)"
  using assms by (rule line_sends)

theorem user_line_sends_witness:
  "lb_append (new_LineBuffer MAX_FRAME_SIZE) (utf8_decode (utf8_encode
      (encode (createChatMessage (VStr (js ''Client A'')) (VStr (js ''hi'')) PROTOCOL_VERSION))))
    = (Inr [json_text (createChatMessage (VStr (js ''Client A'')) (VStr (js ''hi'')) PROTOCOL_VERSION)],
       new_LineBuffer MAX_FRAME_SIZE)"
  using user_line_sends [OF sample_types] by (simp add: trim_hi sample_A_def)

section \<open>What is shown of the keys\<close>

text \<open>The same client with other private keys and with other bytes in the session keys' buffers.\<close>

definition other_secrets :: "identity \<Rightarrow> 'r world \<Rightarrow> 'r client \<Rightarrow> 'r client" where
  "other_secrets i w cl =
     cl\<lparr>cl_identity := Some i, cl_session := map_option (\<lambda>s. s\<lparr>ps_identity := i\<rparr>) (cl_session cl), cl_world := w\<rparr>"

definition same_digests :: "'r node_crypto \<Rightarrow> 'r world \<Rightarrow> 'r world \<Rightarrow> bool" where
  "same_digests C w w' \<longleftrightarrow>
     (\<forall>a. length (w_heap w' ! a) = length (w_heap w ! a) \<and> nc_sha256 C (w_heap w' ! a) = nc_sha256 C (w_heap w ! a))"

lemma fingerprint_digest:
  "same_digests C w w' \<Longrightarrow> fingerprint_text C (s\<lparr>ps_identity := i\<rparr>) w' = fingerprint_text C s w"
  by (auto simp: fingerprint_text_def ps_sessionKeyFingerprint_def sessionKey_def sessionKeyFingerprint_def
      sha256_def same_digests_def split: option.split)

lemma other_secrets_log [simp]:
  "client_log (other_secrets i w cl) ls = client_log cl ls" "showPrompt (other_secrets i w cl) = showPrompt cl"
  by (simp_all add: other_secrets_def client_log_def showPrompt_def)

lemma status_digest:
  assumes "same_digests C (cl_world cl) w"
  shows "statusLines C (other_secrets i w cl) = statusLines C cl"
proof (cases "cl_session cl")
  case None
  then show ?thesis by (simp add: statusLines_def other_secrets_def status_block_def)
next
  case (Some s)
  then show ?thesis
    by (simp add: statusLines_def other_secrets_def status_block_def fingerprint_digest [OF assms] Let_def)
qed

text \<open>
  Property C34: what is shown depends on the keys only through SHA-256. Two clients that
  differ in their private keys and in the bytes of their session keys, but not in the
  SHA-256 digests of the latter, react to every line of the user, commands included, with
  exactly the same output and frames, and describe every handshake message in the same
  words.
\<close>

theorem shows_digests_only:
  assumes "same_digests C (cl_world cl) w"
  shows "snd (client_step C (UserLine line) (other_secrets i w cl)) = snd (client_step C (UserLine line) cl)
    \<and> describeHandshake C (s\<lparr>ps_identity := i\<rparr>) w msg result = describeHandshake C s (cl_world cl) msg result"
proof
  have shut: "snd (client_shutdown m (other_secrets i w cl)) = snd (client_shutdown m cl)" for m
    by (simp add: client_shutdown_def other_secrets_def)
  have cmd: "snd (runCommand C x (other_secrets i w cl)) = snd (runCommand C x cl)" for x
    by (auto simp: runCommand_def status_digest [OF assms] shut case_prod_beta split: sum.split)
  have sel: "cl_myId (other_secrets i w cl) = cl_myId cl" "cl_destroyed (other_secrets i w cl) = cl_destroyed cl"
    by (simp_all add: other_secrets_def)
  show "snd (client_step C (UserLine line) (other_secrets i w cl)) = snd (client_step C (UserLine line) cl)"
    by (auto simp: client_on_line_def Let_def cmd sel split: option.split)
  have summary: "sessionSummaryLines C (s\<lparr>ps_identity := i\<rparr>) w = sessionSummaryLines C s (cl_world cl)"
    by (simp add: sessionSummaryLines_def fingerprint_digest [OF assms])
  have state: "ps_state (s\<lparr>ps_identity := i\<rparr>) = ps_state s" by simp
  show "describeHandshake C (s\<lparr>ps_identity := i\<rparr>) w msg result = describeHandshake C s (cl_world cl) msg result"
    unfolding describeHandshake_def summary state ..
qed

theorem shows_digests_only_witness:
  "let w = \<lparr>w_entropy = 1, w_heap = [replicate 32 7]\<rparr>; w' = \<lparr>w_entropy = 1, w_heap = [replicate 32 8]\<rparr>
   in snd (client_step sample_crypto (UserLine (js ''/status'')) (other_secrets (sample_identity 1 2) w' (sample_start\<lparr>cl_world := w\<rparr>)))
    = snd (client_step sample_crypto (UserLine (js ''/status'')) (sample_start\<lparr>cl_world := w\<rparr>))"
proof -
  let ?w = "\<lparr>w_entropy = 1 :: nat, w_heap = [replicate 32 7]\<rparr>" and ?v = "\<lparr>w_entropy = 1 :: nat, w_heap = [replicate 32 8]\<rparr>"
  have "length ([replicate 32 (8 :: 8 word)] ! a) = length ([replicate 32 (7 :: 8 word)] ! a)" for a
    by (cases a) simp_all
  then have "same_digests sample_crypto (cl_world (sample_start\<lparr>cl_world := ?w\<rparr>)) ?v"
    by (simp add: same_digests_def sample_crypto_def)
  from shows_digests_only [OF this] show ?thesis unfolding Let_def by blast
qed

end
