(* ===== verification/FrameSize.thy ===== *)
theory FrameSize
  imports Transport TwoParty
begin

text \<open>
  How long the frames of messages are. The printed text of a string takes at most six bytes
  per code unit, so the length limits that validation puts on the fields of a handshake
  message bound its frame: every valid handshake message fits under \<open>MAX_FRAME_SIZE\<close>.
\<close>

section \<open>Bytes of a concatenation\<close>

lemma byteLength_append: "byteLength (s @ t) \<le> byteLength s + byteLength t"
proof (induction s rule: scalars.induct)
  case 1
  then show ?case by simp
next
  case (2 u)
  show ?case
  proof (cases t)
    case Nil
    then show ?thesis by simp
  next
    case (Cons v us)
    show ?thesis
    proof (cases "is_high u \<and> is_low v")
      case True
      have "\<not> is_high v" using True not_high_low by blast
      then have "byteLength us + 1 \<le> byteLength (v # us)"
        using byteLength_single_bounds [of v] by (cases us) (simp_all add: byteLength_step)
      with True Cons show ?thesis by (simp add: byteLength_pair byteLength_single)
    next
      case False
      with Cons show ?thesis by (simp add: byteLength_step)
    qed
  qed
next
  case (3 u v us)
  show ?case
  proof (cases "is_high u \<and> is_low v")
    case True
    with 3 show ?thesis by (simp add: byteLength_pair)
  next
    case False
    with 3 have "byteLength (v # us @ t) \<le> byteLength (v # us) + byteLength t" by simp
    with False show ?thesis by (simp add: byteLength_step)
  qed
qed

lemma byteLength_append3: "byteLength (a @ b @ c) \<le> byteLength a + byteLength b + byteLength c"
  using byteLength_append [of a "b @ c"] byteLength_append [of b c] by linarith

lemma byteLength_ascii_unit: "unat u < 128 \<Longrightarrow> byteLength [u] = 1"
  using ascii_byteLength [of "[u]"] by simp

section \<open>Printed strings\<close>

lemma unicode_escape_bytes: "byteLength (unicode_escape u) = 6"
proof -
  have "unat u < 65536" using unsigned_less [of u] by simp
  then have "unat u div 4096 < 16" by (simp add: div_less_iff_less_mult)
  then have "ascii (unicode_escape u)" by (simp add: unicode_escape_def Let_def hex_digit_ascii)
  then show ?thesis by (simp add: ascii_byteLength unicode_escape_def Let_def)
qed

lemma quote_unit_bytes: "byteLength (quote_unit u) \<le> 6"
  using byteLength_single_bounds [of u]
  by (auto simp: quote_unit_def unicode_escape_bytes ascii_byteLength)

lemma quote_units_bytes: "byteLength (quote_units s) \<le> 6 * length s"
proof (induction s rule: quote_units.induct)
  case (2 u)
  then show ?case by (simp add: unicode_escape_bytes quote_unit_bytes)
next
  case (3 u v us)
  show ?case
  proof (cases "is_high u \<and> is_low v")
    case True
    with 3 show ?thesis by (simp add: byteLength_pair)
  next
    case False
    let ?q = "if is_high u \<or> is_low u then unicode_escape u else quote_unit u"
    have "byteLength ?q \<le> 6" by (simp add: unicode_escape_bytes quote_unit_bytes)
    moreover have "byteLength (quote_units (v # us)) \<le> 6 * length (v # us)" using False 3 by blast
    moreover have "quote_units (u # v # us) = ?q @ quote_units (v # us)" using False by auto
    ultimately show ?thesis using byteLength_append [of ?q "quote_units (v # us)"] by simp
  qed
qed simp

lemma quote_json_bytes: "byteLength (quote_json s) \<le> 6 * length s + 2"
  using byteLength_append3 [of "[34]" "quote_units s" "[34]"] quote_units_bytes [of s]
  by (simp add: quote_json_def byteLength_ascii_unit)

lemma json_text_bytes:
  "byteLength (json_text (VStr s)) \<le> 6 * length s + 2"
  "byteLength (json_text (VNum (num_lit 1))) = 1"
proof -
  show "byteLength (json_text (VStr s)) \<le> 6 * length s + 2"
    using quote_json_bytes by (simp add: json_text_def)
  have "json_text (VNum (num_lit 1)) = js ''1''"
    by (simp only: json_text_def stringify.simps num_one jsnum.case num_one_string [unfolded num_one] option.sel)
  then show "byteLength (json_text (VNum (num_lit 1))) = 1"
    by (simp add: ascii_byteLength ascii_js)
qed

section \<open>Printed objects\<close>

text \<open>The bytes of one property, its comma included.\<close>

definition entry_bytes :: "jsstring \<times> jsval \<Rightarrow> nat" where
  "entry_bytes kv = byteLength (quote_json (fst kv) @ [58] @ json_text (snd kv)) + 1"

lemma entry_bytes_le: "entry_bytes (k, v) \<le> 6 * length k + 4 + byteLength (json_text v)"
  using byteLength_append3 [of "quote_json k" "[58]" "json_text v"] quote_json_bytes [of k]
  by (simp add: entry_bytes_def byteLength_ascii_unit)

lemma join_bytes: "byteLength (join_with [44] ts) \<le> sum_list (map (\<lambda>t. byteLength t + 1) ts)"
proof (induction ts rule: induct_list012)
  case (3 t t' ts)
  then show ?case
    using byteLength_append3 [of t "[44]" "join_with [44] (t' # ts)"] by (simp add: byteLength_ascii_unit)
qed simp_all

lemma object_bytes:
  assumes "json_ok (VObj kvs)"
  shows "byteLength (json_text (VObj kvs)) \<le> 2 + sum_list (map entry_bytes kvs)"
proof -
  have "stringify v = Some (json_text v)" if "(k, v) \<in> set kvs" for k v
    using assms that by (intro json_text_Some) auto
  then have "map (\<lambda>(k, v). case stringify v of Some t \<Rightarrow> [quote_json k @ [58] @ t] | None \<Rightarrow> []) kvs
      = map (\<lambda>kv. [quote_json (fst kv) @ [58] @ json_text (snd kv)]) kvs"
    by (intro map_cong) auto
  then have parts: "concat (map (\<lambda>(k, v). case stringify v of Some t \<Rightarrow> [quote_json k @ [58] @ t] | None \<Rightarrow> []) kvs)
      = map (\<lambda>kv. quote_json (fst kv) @ [58] @ json_text (snd kv)) kvs"
    by (simp only: concat_map_singleton)
  let ?ts = "map (\<lambda>kv. quote_json (fst kv) @ [58] @ json_text (snd kv)) kvs"
  have "json_text (VObj kvs) = [123] @ join_with [44] ?ts @ [125]"
    unfolding json_text_def stringify.simps parts by simp
  moreover have "byteLength (join_with [44] ?ts) \<le> sum_list (map entry_bytes kvs)"
    using join_bytes [of ?ts] by (simp add: entry_bytes_def cong: map_cong)
  ultimately show ?thesis
    using byteLength_append3 [of "[123]" "join_with [44] ?ts" "[125]"] by (simp add: byteLength_ascii_unit)
qed

text \<open>Properties with different names out of a set, each within the weight of its name.\<close>

lemma entries_bounded:
  assumes "distinct (map fst kvs)" "fst ` set kvs \<subseteq> K" "finite K"
    and "\<And>k v. (k, v) \<in> set kvs \<Longrightarrow> entry_bytes (k, v) \<le> weight k"
  shows "sum_list (map entry_bytes kvs) \<le> (\<Sum>k \<in> K. weight k)"
proof -
  have "sum_list (map entry_bytes kvs) \<le> sum_list (map (\<lambda>kv. weight (fst kv)) kvs)"
    using assms(4) by (intro sum_list_mono) auto
  also have "\<dots> = sum_list (map weight (map fst kvs))" by (simp add: comp_def)
  also have "\<dots> = (\<Sum>k \<in> fst ` set kvs. weight k)"
    using sum_list_distinct_conv_sum_set [OF assms(1), of weight] by simp
  also have "\<dots> \<le> (\<Sum>k \<in> K. weight k)" using assms(2,3) by (intro sum_mono2) auto
  finally show ?thesis .
qed

section \<open>Handshake messages\<close>

definition is_pem_field :: "jsstring \<Rightarrow> bool" where
  "is_pem_field k \<longleftrightarrow> k = js ''encryptionPublicKey'' \<or> k = js ''signingPublicKey''"

text \<open>The weight of a property: 4096 code units for a PEM text, 1368 for base64.\<close>

definition field_weight :: "jsstring \<Rightarrow> jsstring \<Rightarrow> nat" where
  "field_weight ty k = (if ty = HELLO then if is_pem_field k then 24700 else 510 else 8330)"

lemma field_weights:
  "ty \<in> set HANDSHAKE_TYPES \<Longrightarrow> 2 + (\<Sum>k \<in> js ` set (HANDSHAKE_FIELDS ty). field_weight ty k) \<le> MAX_FRAME_SIZE"
  by (auto simp: HANDSHAKE_TYPES_def HANDSHAKE_FIELDS_def field_weight_def is_pem_field_def MAX_FRAME_SIZE_def)

lemma map_of_field: "VObj kvs = m \<Longrightarrow> distinct (map fst kvs) \<Longrightarrow> (js f, v) \<in> set kvs \<Longrightarrow> field m f = v"
  by auto

lemma string_entry:
  "entry_bytes (k, VStr s) \<le> 6 * length k + 6 * length s + 6"
  "entry_bytes (k, VNum (num_lit 1)) \<le> 6 * length k + 5"
  using entry_bytes_le [of k "VStr s"] json_text_bytes(1) [of s] entry_bytes_le [of k "VNum (num_lit 1)"]
    json_text_bytes(2) by linarith+

lemma field_name_length: "f \<in> set (HANDSHAKE_FIELDS ty) \<Longrightarrow> length f \<le> 19"
  by (auto simp: HANDSHAKE_FIELDS_def split: if_splits)

lemma base64_short: "length bs \<le> 1024 \<Longrightarrow> length (base64_encode bs) \<le> 1368"
proof -
  assume "length bs \<le> 1024"
  then have "(length bs + 2) div 3 \<le> 1026 div 3" by (intro div_le_mono) simp
  then show ?thesis by (simp add: base64_encode_length)
qed

text \<open>The value of a field of a valid handshake message: the number 1 or a short text.\<close>

lemma handshake_field:
  assumes "hello_schema C msg \<and> ty = HELLO \<or> exchange_schema ty msg \<and> ty \<in> {KEY_EXCHANGE, KEY_EXCHANGE_ACK}"
    and "f \<in> set (HANDSHAKE_FIELDS ty)"
  obtains "field msg f = VNum (num_lit 1)"
  | t where "field msg f = VStr t"
      "length t \<le> (if ty = HELLO then if is_pem_field (js f) then 4096 else 64 else 1368)"
proof -
  from assms(1) have env: "handshake_envelope ty msg" by (auto simp: hello_schema_def exchange_schema_def)
  then have common: "field msg ''type'' = VStr ty" "field msg ''version'' = VNum (num_lit 1)"
    and "isIdentityString (field msg ''sender'')"
    by (simp_all add: handshake_envelope_def PROTOCOL_VERSION_def)
  then obtain sn where sn: "field msg ''sender'' = VStr sn" "length sn \<le> 64"
    by (auto simp: isIdentityString_def is_string_iff MAX_IDENTITY_LENGTH_def)
  have len: "length HELLO \<le> 64" "length KEY_EXCHANGE \<le> 1368" "length KEY_EXCHANGE_ACK \<le> 1368" by simp_all
  show thesis
  proof (cases "ty = HELLO")
    case True
    with assms(1) have "hello_schema C msg" by auto
    then obtain pem pem' where "field msg ''encryptionPublicKey'' = VStr pem" "length pem \<le> 4096"
      "field msg ''signingPublicKey'' = VStr pem'" "length pem' \<le> 4096" by (auto simp: hello_schema_def)
    note pems = this
    have "f = ''type'' \<or> f = ''version'' \<or> f = ''sender'' \<or> f = ''encryptionPublicKey'' \<or> f = ''signingPublicKey''"
      using assms(2) True by (simp add: HANDSHAKE_FIELDS_def)
    then show thesis
    proof (elim disjE)
      assume "f = ''type''"
      with common(1) True that(2) [of HELLO] show thesis by (simp add: is_pem_field_def)
    next
      assume "f = ''version''"
      with common(2) that(1) show thesis by simp
    next
      assume "f = ''sender''"
      with sn True that(2) [of sn] show thesis by (simp add: is_pem_field_def)
    next
      assume "f = ''encryptionPublicKey''"
      with pems True that(2) [of pem] show thesis by (simp add: is_pem_field_def)
    next
      assume "f = ''signingPublicKey''"
      with pems True that(2) [of pem'] show thesis by (simp add: is_pem_field_def)
    qed
  next
    case False
    with assms(1) have ex: "exchange_schema ty msg" "ty \<in> {KEY_EXCHANGE, KEY_EXCHANGE_ACK}" by auto
    then obtain rc where rc: "field msg ''recipient'' = VStr rc" "length rc \<le> 64"
      by (auto simp: exchange_schema_def isIdentityString_def is_string_iff MAX_IDENTITY_LENGTH_def)
    from ex obtain sid sg where sg: "field msg ''sessionId'' = VStr sid" "length sid = 32"
      "field msg ''signature'' = VStr (base64_encode sg)" "length (base64_encode sg) \<le> 1368"
      by (auto simp: exchange_schema_def matches_session_id_def base64_short)
    have ek: "\<exists>t. field msg ''encryptedSessionKey'' = VStr t \<and> length t \<le> 1368" if "ty = KEY_EXCHANGE"
      using ex that by (auto simp: exchange_schema_def base64_short)
    have "f = ''type'' \<or> f = ''version'' \<or> f = ''sender'' \<or> f = ''recipient'' \<or> f = ''sessionId''
        \<or> f = ''encryptedSessionKey'' \<and> ty = KEY_EXCHANGE \<or> f = ''signature''"
      using assms(2) ex(2) False by (simp add: HANDSHAKE_FIELDS_def split: if_splits)
    then show thesis
    proof (elim disjE)
      assume "f = ''type''"
      moreover have "length ty \<le> 1368" using ex(2) len by (elim insertE emptyE) simp_all
      ultimately show thesis using common(1) False that(2) [of ty] by simp
    next
      assume "f = ''version''"
      with common(2) that(1) show thesis by simp
    next
      assume "f = ''sender''"
      with sn False that(2) [of sn] show thesis by simp
    next
      assume "f = ''recipient''"
      with rc False that(2) [of rc] show thesis by simp
    next
      assume "f = ''sessionId''"
      with sg False that(2) [of sid] show thesis by simp
    next
      assume "f = ''signature''"
      with sg False that(2) [of "base64_encode sg"] show thesis by simp
    next
      assume "f = ''encryptedSessionKey'' \<and> ty = KEY_EXCHANGE"
      moreover from this ek obtain t where "field msg ''encryptedSessionKey'' = VStr t" "length t \<le> 1368" by blast
      ultimately show thesis using False that(2) [of t] by simp
    qed
  qed
qed

lemma handshake_entry:
  assumes "hello_schema C msg \<and> ty = HELLO \<or> exchange_schema ty msg \<and> ty \<in> {KEY_EXCHANGE, KEY_EXCHANGE_ACK}"
    and "f \<in> set (HANDSHAKE_FIELDS ty)"
  shows "entry_bytes (js f, field msg f) \<le> field_weight ty (js f)"
proof (cases rule: handshake_field [OF assms])
  case 1
  have "entry_bytes (js f, VNum (num_lit 1)) \<le> 6 * 19 + 5"
    using string_entry(2) [of "js f"] field_name_length [OF assms(2)] by simp
  with 1 show ?thesis by (simp add: field_weight_def)
next
  case (2 t)
  have "entry_bytes (js f, VStr t) \<le> 6 * 19 + 6 * length t + 6"
    using string_entry(1) [of "js f" t] field_name_length [OF assms(2)] by simp
  with 2 show ?thesis by (auto simp: field_weight_def split: if_splits)
qed

lemma valid_handshake_size:
  assumes "validateMessage C msg = Inr Valid" and ty: "field msg ''type'' = VStr ty" "ty \<in> set HANDSHAKE_TYPES"
    and "json_ok msg"
  shows "byteLength (json_text msg) \<le> MAX_FRAME_SIZE"
proof -
  have o: "\<not> not_object msg"
    using assms(1) by (auto simp: validateMessage_def Let_def split: if_splits)
  then obtain kvs where m: "msg = VObj kvs" using assms(4) by (cases msg) auto
  from ty(2) consider "ty = HELLO" | "ty \<in> {KEY_EXCHANGE, KEY_EXCHANGE_ACK}" by (auto simp: HANDSHAKE_TYPES_def)
  then have schema: "hello_schema C msg \<and> ty = HELLO \<or> exchange_schema ty msg \<and> ty \<in> {KEY_EXCHANGE, KEY_EXCHANGE_ACK}"
  proof cases
    case 1
    with validate_hello_iff [OF o, of C] ty(1) assms(1) show ?thesis by simp
  next
    case 2
    with validate_exchange_iff [OF o ty(1), of C] assms(1) show ?thesis by simp
  qed
  then have keys: "fst ` set kvs \<subseteq> js ` set (HANDSHAKE_FIELDS ty)"
    by (auto simp: hello_schema_def exchange_schema_def handshake_envelope_def object_keys_def m)
  have dist: "distinct (map fst kvs)" using assms(4) m by simp
  have "entry_bytes (k, v) \<le> field_weight ty k" if kv: "(k, v) \<in> set kvs" for k v
  proof -
    from keys kv obtain f where f: "k = js f" "f \<in> set (HANDSHAKE_FIELDS ty)" by force
    then have "field msg f = v" using kv dist by (simp add: m)
    with handshake_entry [OF schema f(2)] f(1) show ?thesis by simp
  qed
  from entries_bounded [OF dist keys _ this] have
    "sum_list (map entry_bytes kvs) \<le> (\<Sum>k \<in> js ` set (HANDSHAKE_FIELDS ty). field_weight ty k)"
    by simp
  with object_bytes [of kvs] assms(4) field_weights [OF ty(2)] show ?thesis by (simp add: m)
qed

text \<open>
  Property C27: every valid handshake message fits in a frame. Whatever its texts contain,
  the JSON line of a handshake message that passes validation is at most 65536 bytes long:
  the limits on its fields bound it, so that neither the server nor a client ever refuses
  one for its size.
\<close>

theorem handshake_fits:
  assumes "validateMessage C msg = Inr Valid" "field msg ''type'' \<in> VStr ` set HANDSHAKE_TYPES" "json_ok msg"
  shows "byteLength (json_text msg) \<le> MAX_FRAME_SIZE"
  using assms valid_handshake_size [of C msg] by blast

text \<open>A client's own HELLO.\<close>

lemma hello_ok: "json_ok (own_hello C (VStr self) i)"
  by (simp add: own_hello_def createHelloMessage_def obj_def array_index_def js_def unit_of_def is_digit_def
      PROTOCOL_VERSION_def)

theorem handshake_fits_witness:
  "byteLength (json_text (own_hello sample_crypto client_A (sample_identity 1 2))) \<le> MAX_FRAME_SIZE"
proof -
  have "validateMessage sample_crypto (own_hello sample_crypto client_A (sample_identity 1 2)) = Inr Valid"
    using client_names(1) by (intro own_hello_valid sample_client) (simp_all add: parties_ok_def)
  from handshake_fits [OF this] show ?thesis
    by (simp add: HANDSHAKE_TYPES_def hello_ok client_A_def)
qed

end
