(* ===== verification/EndToEnd.thy ===== *)
theory EndToEnd
  imports ServerProperties ClientProperties FrameSize
begin

text \<open>
  The server and the clients together: what one client writes, the server relays, and the
  other client makes of it. The handshake frames arrive as the messages that were sent,
  which is the network that \<open>TwoParty\<close> assumes; a chat line of a user is shown to the peer
  under the sender's slot; and the one way in which the relay changes a frame lets a client
  disconnect its peer.
\<close>

section \<open>One frame at a client and at the server\<close>

text \<open>A client between two messages: nothing queued or buffered, no keys being generated.\<close>

definition ready :: "'r client \<Rightarrow> bool" where
  "ready cl \<longleftrightarrow> cl_buffer cl = new_LineBuffer MAX_FRAME_SIZE \<and> cl_queue cl = [] \<and> \<not> cl_generatingKeys cl"

lemma client_receives:
  assumes "ready cl" "json_ok m" "validateMessage C m = Inr Valid" "byteLength (json_text m) \<le> MAX_FRAME_SIZE"
  shows "client_step C (DataChunk (utf8_encode (encode m))) cl = client_handleMessage C m cl"
proof -
  let ?cl = "cl\<lparr>cl_buffer := new_LineBuffer MAX_FRAME_SIZE, cl_queue := [m]\<rparr>"
  have same: "?cl\<lparr>cl_queue := []\<rparr> = cl" using assms(1) by (cases cl) (simp add: ready_def)
  have "client_step C (DataChunk (utf8_encode (encode m))) cl = drain C ?cl"
    using assms(1) frame_arrives [OF assms(2,4)] accept_frame [OF assms(2,3)]
    by (simp add: client_on_data_def ready_def)
  also have "\<dots> = (case client_handleMessage C m cl of
      (Inl e, es) \<Rightarrow> (Inl e, es)
    | (Inr cl', es) \<Rightarrow> let (r, es') = drain C cl' in (r, es @ es'))"
    using drain_turn [of ?cl m "[]" C] assms(1) unfolding same by (simp add: ready_def)
  also have "\<dots> = client_handleMessage C m cl"
  proof -
    obtain x es where h: "client_handleMessage C m cl = (x, es)" by fastforce
    show ?thesis
    proof (cases x)
      case (Inl e)
      with h show ?thesis by simp
    next
      case (Inr cl')
      then have "cl_queue cl' = []"
        using client_handleMessage_queue [of C m cl cl' es] h assms(1) by (simp add: ready_def)
      then have "drain C cl' = (Inr cl', [])" by (simp add: drain_idle)
      with h Inr show ?thesis by simp
    qed
  qed
  finally show ?thesis .
qed

text \<open>A connection of the server between two lines, whose peer is connected.\<close>

definition linked :: "server \<Rightarrow> nat \<Rightarrow> jsstring \<Rightarrow> nat \<Rightarrow> bool" where
  "linked sv k slot j \<longleftrightarrow>
     sv_conns sv k = Some \<lparr>cn_slot = slot, cn_buffer = new_LineBuffer MAX_FRAME_SIZE, cn_closing = False\<rparr>
     \<and> sv_clients sv (otherSlot slot) = Some j \<and> \<not> is_destroyed sv j"

lemma server_relays_handshake:
  assumes "linked sv k slot j" "json_ok m" "validateMessage C m = Inr Valid"
    and "field m ''type'' = VStr ty" "ty \<in> set HANDSHAKE_TYPES" "byteLength (json_text m) \<le> MAX_FRAME_SIZE"
    and "field m ''sender'' = VStr slot" "ty = HELLO \<or> field m ''recipient'' = VStr (otherSlot slot)"
  shows "\<exists>logged. server_step C (DataIn k (utf8_encode (encode m))) sv = (Inr sv, [Log logged, Write j (encode m)])"
proof -
  let ?c = "\<lparr>cn_slot = slot, cn_buffer = new_LineBuffer MAX_FRAME_SIZE, cn_closing = False\<rparr>"
  have conn: "sv_conns sv k = Some ?c" and peer: "sv_clients sv (otherSlot slot) = Some j" "\<not> is_destroyed sv j"
    using assms(1) by (simp_all add: linked_def)
  have "handle_line C sv k slot (json_text m) = Inr (relay sv k slot (json_text m) m)"
    by (simp add: handle_line_def valid_frame [OF assms(2,3)] assms(3))
  moreover have "\<exists>logged. relay sv k slot (json_text m) m = [Log logged, Write j (encode m)]"
    using assms(4,5,7,8) peer
    by (auto simp: relay_def Let_def writeTo_def encode_text [OF assms(2)])
  moreover have "server_step C (DataIn k (utf8_encode (encode m))) sv =
    (let (es, r) = handle_lines C sv k slot [json_text m]
     in (case r of None \<Rightarrow> Inr sv | Some e \<Rightarrow> Inl e, es))"
    using first_line [OF conn _ _ assms(2,6)] by simp
  ultimately show ?thesis by auto
qed

section \<open>Handshake messages\<close>

text \<open>
  Property C9: handshake messages are delivered, and the client is its session. A valid
  handshake message that a client writes under its own slot reaches the peer's client
  through the server byte for byte, and the peer's client reacts exactly as its
  \<open>PeerSession\<close> does to the message: same session and memory afterwards, the same messages
  sent, in order, and no crash.
\<close>

theorem handshake_delivered:
  assumes "linked sv k slot j" "ready cl" "cl_session cl = Some s" "session_inv s (cl_world cl)" "module_total C"
    and "json_ok m" "validateMessage C m = Inr Valid"
    and "field m ''type'' = VStr ty" "ty \<in> set HANDSHAKE_TYPES"
    and "field m ''sender'' = VStr slot" "ty = HELLO \<or> field m ''recipient'' = VStr (otherSlot slot)"
  shows "\<exists>logged oc s' w' es.
    server_step C (DataIn k (utf8_encode (encode m))) sv = (Inr sv, [Log logged, Write j (encode m)])
    \<and> handleMessage C m s (cl_world cl) = (Inr oc, s', w') \<and> session_inv s' w'
    \<and> client_step C (DataChunk (utf8_encode (encode m))) cl
        = (Inr (cl\<lparr>cl_session := Some s', cl_world := w'\<rparr>), es)
    \<and> filter is_write es = map sendMessage (oc_outgoing oc)"
proof -
  have fits: "byteLength (json_text m) \<le> MAX_FRAME_SIZE"
    by (rule valid_handshake_size [OF assms(7,8,9,6)])
  have ty: "text_of (field m ''type'') = ty" using assms(8) by simp
  have hs: "client_handleMessage C m cl = client_handshake C m cl"
    using assms(9) unfolding client_handleMessage_def Let_def ty by (auto simp: type_sets)
  obtain oc where "fst (handleMessage C m s (cl_world cl)) = Inr oc"
    using handleMessage_returns [OF assms(4,7)] by blast
  then obtain s' w' where run: "handleMessage C m s (cl_world cl) = (Inr oc, s', w')" by (metis prod.collapse)
  have inv: "session_inv s' w'"
    using handleMessage_good [OF assms(4,5), of m] by (simp add: run good_step_def)
  have "session_ok cl" using assms(3,4) by (simp add: session_ok_def)
  from handshake_returns [OF this assms(5,7)] assms(9) obtain cl' where
    cl': "fst (client_handshake C m cl) = Inr cl'" by (auto simp: ty)
  obtain ls where "describeHandshake C s' w' m oc = Inr ls"
    using cl' by (cases "describeHandshake C s' w' m oc") (simp_all add: client_handshake_def assms(3) run Let_def)
  then have client: "client_step C (DataChunk (utf8_encode (encode m))) cl =
      (Inr (cl\<lparr>cl_session := Some s', cl_world := w'\<rparr>),
       map sendMessage (oc_outgoing oc) @ client_log (cl\<lparr>cl_session := Some s', cl_world := w'\<rparr>) ls)"
    unfolding client_receives [OF assms(2,6,7) fits] hs by (simp add: client_handshake_def assms(3) run Let_def)
  have "filter is_write (map sendMessage ms) = map sendMessage ms" for ms
    by (simp add: is_write_def sendMessage_def filter_map comp_def)
  then have writes: "filter is_write (map sendMessage (oc_outgoing oc) @ client_log x ls)
      = map sendMessage (oc_outgoing oc)" for x :: "'a client" by simp
  obtain logged where "server_step C (DataIn k (utf8_encode (encode m))) sv = (Inr sv, [Log logged, Write j (encode m)])"
    using server_relays_handshake [OF assms(1,6,7,8,9) fits assms(10,11)] by blast
  with run inv client writes show ?thesis by blast
qed

text \<open>A client B with a new session, its two connections at the server, and the HELLO of a client A.\<close>

definition sample_client_B :: "nat client" where
  "sample_client_B = sample_start\<lparr>cl_myId := Some nameB, cl_session := Some sample_B, cl_world := empty_world\<rparr>"

lemma sample_ready: "ready sample_client_B" "cl_session sample_client_B = Some sample_B"
  "cl_world sample_client_B = empty_world"
  by (simp_all add: sample_client_B_def ready_def sample_start_def client_start_def)

lemma sample_linked: "linked sample_server 1 CLIENT_A 2"
  using slot_names
  by (simp add: linked_def sample_server_def sample_conn_def otherSlot_def is_destroyed_def)

theorem handshake_delivered_witness:
  "\<exists>cl es. client_step sample_crypto
      (DataChunk (utf8_encode (encode (own_hello sample_crypto client_A (sample_identity 1 2))))) sample_client_B
    = (Inr cl, es)"
proof -
  let ?m = "own_hello sample_crypto client_A (sample_identity 1 2)"
  have v: "validateMessage sample_crypto ?m = Inr Valid"
    using client_names(1) by (intro own_hello_valid sample_client) (simp_all add: parties_ok_def)
  have inv: "session_inv sample_B (cl_world sample_client_B)"
    using fresh_inv [OF sample_B_fresh] by (simp add: sample_ready)
  have A: "client_A = VStr CLIENT_A" by (simp add: client_A_def CLIENT_A_def)
  have "json_ok ?m" by (simp add: A hello_ok)
  from handshake_delivered [OF sample_linked sample_ready(1,2) inv sample_total this v own_hello_fields(1)]
  show ?thesis by (auto simp: HANDSHAKE_TYPES_def A)
qed

section \<open>Chat\<close>

lemma server_relays_chat:
  assumes "linked sv k slot j" "json_ok m" "validateMessage C m = Inr Valid"
    and "field m ''type'' = VStr CHAT" "byteLength (json_text m) \<le> MAX_FRAME_SIZE"
  shows "\<exists>logged. server_step C (DataIn k (utf8_encode (encode m))) sv =
    (Inr sv, [Log logged, Write j (encode (createChatMessage (VStr slot) (field m ''text'') PROTOCOL_VERSION))])"
proof -
  let ?c = "\<lparr>cn_slot = slot, cn_buffer = new_LineBuffer MAX_FRAME_SIZE, cn_closing = False\<rparr>"
  have conn: "sv_conns sv k = Some ?c" and peer: "sv_clients sv (otherSlot slot) = Some j" "\<not> is_destroyed sv j"
    using assms(1) by (simp_all add: linked_def)
  have "handle_line C sv k slot (json_text m) = Inr (relay sv k slot (json_text m) m)"
    by (simp add: handle_line_def valid_frame [OF assms(2,3)] assms(3))
  moreover have "\<exists>logged. relay sv k slot (json_text m) m =
      [Log logged, Write j (encode (createChatMessage (VStr slot) (field m ''text'') PROTOCOL_VERSION))]"
    using assms(4) peer by (simp add: relay_def Let_def type_sets send_def writeTo_def)
  moreover have "server_step C (DataIn k (utf8_encode (encode m))) sv =
    (let (es, r) = handle_lines C sv k slot [json_text m]
     in (case r of None \<Rightarrow> Inr sv | Some e \<Rightarrow> Inl e, es))"
    using first_line [OF conn _ _ assms(2,5)] by simp
  ultimately show ?thesis by auto
qed

lemma chat_fields:
  "field (createChatMessage v t u) ''type'' = VStr CHAT" "field (createChatMessage v t u) ''text'' = t"
  "field (createChatMessage v t u) ''sender'' = v"
  by (simp_all add: createChatMessage_def)

text \<open>
  Property C21: a chat line arrives. What a user types, if the client sends it at all,
  passes the server unchanged to the last byte, and the peer's client prints it under the
  sender's slot and changes no state.
\<close>

theorem chat_delivered:
  assumes "client_step C (UserLine line) clA = (r, es)" "SocketWrite t \<in> set es" "cl_myId clA = Some slot"
    and "linked sv k slot j" "ready clB"
  shows "\<exists>logged. server_step C (DataIn k (utf8_encode t)) sv = (Inr sv, [Log logged, Write j t])
    \<and> client_step C (DataChunk (utf8_encode t)) clB = (Inr clB, client_log clB [slot @ js '': '' @ trim line])"
proof -
  let ?m = "createChatMessage (VStr slot) (VStr (trim line)) PROTOCOL_VERSION"
  from line_sends [OF assms(1,2)] assms(3) have t: "t = encode ?m" and v: "validateMessage C ?m = Inr Valid"
    and size: "byteLength t \<le> MAX_FRAME_SIZE" by auto
  have "byteLength (json_text ?m) \<le> byteLength t"
    using byteLength_prefix [of "json_text ?m" "[10]"] by (simp add: t encode_text [OF chat_ok])
  with size have fits: "byteLength (json_text ?m) \<le> MAX_FRAME_SIZE" by simp
  have "client_handleMessage C ?m clB = (Inr clB, client_log clB [slot @ js '': '' @ trim line])"
    by (simp add: client_handleMessage_def chat_fields)
  with client_receives [OF assms(5) chat_ok v fits] server_relays_chat [OF assms(4) chat_ok v chat_fields(1) fits]
  show ?thesis by (simp add: t chat_fields)
qed

theorem chat_delivered_witness:
  "\<exists>t. client_step sample_crypto (DataChunk (utf8_encode t)) sample_client_B
    = (Inr sample_client_B, client_log sample_client_B [CLIENT_A @ js '': '' @ js ''hi''])"
proof -
  have "cl_myId sample_A = Some CLIENT_A" by (simp add: sample_A_def CLIENT_A_def)
  from chat_delivered [OF sample_types(1) _ this sample_linked sample_ready(1)] show ?thesis
    by (auto simp: trim_hi)
qed

section \<open>The frame that grows\<close>

lemma ascii_bytes_append: "ascii s \<Longrightarrow> byteLength (s @ t) = length s + byteLength t"
  by (simp add: byteLength_def ascii_encode_append)

lemma bytes_append_ascii: "ascii t \<Longrightarrow> byteLength (s @ t) = byteLength s + length t"
proof (induction s rule: scalars.induct)
  case 1
  then show ?case by (simp add: ascii_byteLength)
next
  case (2 u)
  show ?case
  proof (cases t)
    case (Cons v us)
    then have "\<not> is_low v" using 2 ascii_not_surrogate by simp
    with Cons 2 show ?thesis by (simp add: byteLength_step ascii_byteLength del: ascii_simps(2))
  qed simp
next
  case (3 u v us)
  show ?case
  proof (cases "is_high u \<and> is_low v")
    case True
    with 3 show ?thesis by (simp add: byteLength_pair)
  next
    case False
    with 3 have "byteLength (v # us @ t) = byteLength (v # us) + length t" by simp
    with False show ?thesis by (simp add: byteLength_step)
  qed
qed

lemma stamped_text:
  "json_text (createChatMessage (VStr slot) (VStr t) PROTOCOL_VERSION) =
    jsq ''{`type`:`CHAT`,`version`:1,`sender`:'' @ quote_json slot @ jsq '',`text`:'' @ quote_json t @ js ''}''"
proof -
  have "stringify (VNum (num_lit 1)) = Some (js ''1'')"
    by (simp only: stringify.simps num_one jsnum.case num_one_string [unfolded num_one])
  then show ?thesis
    by (simp del: One_nat_def add: createChatMessage_def obj_def PROTOCOL_VERSION_def json_text_def quote_json_def
        js_def jsq_def unit_of_def quote_unit_def is_high_def is_low_def)
qed

text \<open>The server adds the version and the sender: 32 bytes.\<close>

lemma stamp_bytes:
  assumes "slot \<in> set SLOTS"
  shows "byteLength (json_text (createChatMessage (VStr slot) (VStr t) PROTOCOL_VERSION))
    = byteLength (json_text (chat_in t)) + 32"
proof -
  let ?z = "js ''}''"
  have z: "ascii ?z" "length ?z = 1" by (simp_all add: ascii_js)
  have sl: "ascii (quote_json slot)" "length (quote_json slot) = 10"
    using assms by (auto simp: SLOTS_def CLIENT_A_def CLIENT_B_def quote_json_def js_def unit_of_def
        quote_unit_def is_high_def is_low_def)
  have "byteLength (json_text (chat_in t)) = 22 + (byteLength (quote_json t) + 1)"
    unfolding chat_in_text using z
    by (subst ascii_bytes_append) (simp_all add: ascii_jsq bytes_append_ascii)
  moreover have "byteLength (json_text (createChatMessage (VStr slot) (VStr t) PROTOCOL_VERSION))
      = 36 + (10 + (8 + (byteLength (quote_json t) + 1)))"
    unfolding stamped_text using z sl
    by (simp add: ascii_bytes_append ascii_jsq bytes_append_ascii)
  ultimately show ?thesis by simp
qed

text \<open>
  Property C35: a client can disconnect its peer with a chat message. A CHAT frame without
  version and sender whose line is among the 32 longest the server accepts is valid and is
  relayed, and the version and sender the server adds make the frame longer than the limit:
  the peer's client refuses it, logs an error and closes its connection.
\<close>

theorem chat_outgrows_frame:
  assumes "linked sv k slot j" "slot \<in> set SLOTS" "trim t \<noteq> []"
    and "byteLength (json_text (chat_in t)) \<le> MAX_FRAME_SIZE" "MAX_FRAME_SIZE < byteLength (json_text (chat_in t)) + 32"
    and "cl_buffer cl = new_LineBuffer MAX_FRAME_SIZE" "\<not> cl_closing cl"
  shows "\<exists>logged u cl' es.
    server_step C (DataIn k (utf8_encode (encode (chat_in t)))) sv = (Inr sv, [Log logged, Write j u])
    \<and> client_step C (DataChunk (utf8_encode u)) cl = (Inr cl', es) \<and> cl_closing cl' \<and> SocketEnd \<in> set es"
proof -
  let ?m = "createChatMessage (VStr slot) (VStr t) PROTOCOL_VERSION"
  have type: "field (chat_in t) ''type'' = VStr CHAT" "field (chat_in t) ''text'' = VStr t"
    by (simp_all add: chat_in_def)
  obtain logged where server: "server_step C (DataIn k (utf8_encode (encode (chat_in t)))) sv
      = (Inr sv, [Log logged, Write j (encode ?m)])"
    using server_relays_chat [OF assms(1) chat_in_ok chat_in_valid [OF assms(3)] type(1) assms(4)] type(2) by auto
  have "MAX_FRAME_SIZE < byteLength (json_text ?m)" using stamp_bytes [OF assms(2)] assms(5) by simp
  then have "\<exists>lb. lb_append (cl_buffer cl) (encode ?m) = (Inl (FrameTooLargeError MAX_FRAME_SIZE), lb)"
    using split_nl_terminated [of "[json_text ?m]" "[]"] json_text_no_newline [OF chat_ok]
    by (simp add: assms(6) new_LineBuffer_def lb_append_eq encode_text [OF chat_ok] nl_def Let_def)
  then have "\<exists>cl' es. client_step C (DataChunk (utf8_encode (encode ?m))) cl = (Inr cl', es)
      \<and> cl_closing cl' \<and> SocketEnd \<in> set es"
    using assms(7) by (auto simp: client_on_data_def utf8_encode_text [OF chat_ok] client_shutdown_def Let_def)
  with server show ?thesis by blast
qed

lemma plain_units: "\<forall>u \<in> set s. u = 120 \<Longrightarrow> quote_units s = s"
  by (induction s rule: quote_units.induct) (auto simp: is_high_def is_low_def quote_unit_def)

theorem chat_outgrows_frame_witness:
  "\<exists>u cl es. client_step sample_crypto (DataChunk (utf8_encode u)) sample_client_B = (Inr cl, es) \<and> cl_closing cl"
proof -
  let ?t = "replicate 65500 (120 :: 16 word)"
  have "ascii ?t" by (simp add: ascii_def list_all_iff)
  moreover have "quote_units ?t = ?t" by (rule plain_units) simp
  ultimately have "byteLength (json_text (chat_in ?t)) = 65525"
    unfolding chat_in_text quote_json_def by (subst ascii_byteLength) (simp_all add: ascii_jsq ascii_js)
  moreover have "trim ?t \<noteq> []" by (simp add: trim_eq_Nil_iff is_js_space_def)
  moreover have "CLIENT_A \<in> set SLOTS" by (simp add: SLOTS_def)
  moreover have "\<not> cl_closing sample_client_B" "cl_buffer sample_client_B = new_LineBuffer MAX_FRAME_SIZE"
    by (simp_all add: sample_client_B_def sample_start_def client_start_def)
  ultimately show ?thesis
    using chat_outgrows_frame [OF sample_linked, of ?t sample_client_B sample_crypto] by (auto simp: MAX_FRAME_SIZE_def)
qed

end
