(* ===== verification/ClientScript.thy ===== *)
theory ClientScript
  imports EndToEnd
begin

text \<open>
  A client over a known sequence of messages. Between the notice that assigns its identity
  and its keys, a client only queues; afterwards it handles one message after the other. So
  if the states it goes through are known message by message, its state and what it has
  sent are known at every moment, whenever the keys arrive. The two sequences of the
  handshake are of this kind.
\<close>

section \<open>What a client has written\<close>

fun frame_of :: "client_effect \<Rightarrow> jsstring list" where
  "frame_of (SocketWrite t) = [t]"
| "frame_of _ = []"

definition writes :: "client_effect list \<Rightarrow> jsstring list" where
  "writes es = concat (map frame_of es)"

lemma writes_simps [simp]:
  "writes [] = []" "writes (es @ es') = writes es @ writes es'" "writes (e # es) = frame_of e @ writes es"
  by (simp_all add: writes_def)

lemma writes_log [simp]: "writes (client_log cl ls) = []"
  by (simp add: client_log_def showPrompt_def)

lemma writes_messages [simp]: "writes (map sendMessage ms) = map encode ms"
  by (induction ms) (simp_all add: sendMessage_def)

section \<open>A plan\<close>

text \<open>
  The client goes through the states \<open>L\<close> while it handles the messages \<open>M\<close>, and has sent the
  first \<open>e n\<close> messages of \<open>D\<close> after \<open>n\<close> of them.
\<close>

definition client_plan ::
  "'r node_crypto \<Rightarrow> jsval list \<Rightarrow> (nat \<Rightarrow> 'r client) \<Rightarrow> jsval list \<Rightarrow> (nat \<Rightarrow> nat) \<Rightarrow> bool" where
  "client_plan C M L D e \<longleftrightarrow>
     (\<forall>n \<le> length M. ready (L n)) \<and> e 0 = 0 \<and> mono e
     \<and> (\<forall>n < length M. \<exists>es. client_handleMessage C (M ! n) (L n) = (Inr (L (Suc n)), es)
          \<and> writes es = map encode (drop (e n) (take (e (Suc n)) D)))"

lemma ready_simps: "ready cl \<Longrightarrow> cl\<lparr>cl_queue := []\<rparr> = cl" "ready cl \<Longrightarrow> cl_queue cl = []"
  "ready cl \<Longrightarrow> \<not> cl_generatingKeys cl"
  by (cases cl, simp_all add: ready_def)

lemma drop_take_split:
  assumes "i \<le> j" "j \<le> k"
  shows "drop i (take k xs) = drop i (take j xs) @ drop j (take k xs)"
proof -
  have "take k xs = take j xs @ drop j (take k xs)"
    using assms(2) by (metis append_take_drop_id min.absorb1 take_take)
  then have "drop i (take k xs) = drop i (take j xs @ drop j (take k xs))" by simp
  also have "\<dots> = drop i (take j xs) @ drop j (take k xs)" using assms(1) by (cases "i \<le> length xs") simp_all
  finally show ?thesis .
qed

lemma plan_single:
  assumes "client_plan C M L D e" "n < length M"
  shows "\<exists>es. drain C ((L n)\<lparr>cl_queue := [M ! n]\<rparr>) = (Inr (L (Suc n)), es)
    \<and> writes es = map encode (drop (e n) (take (e (Suc n)) D))"
proof -
  have r: "ready (L n)" "ready (L (Suc n))" using assms by (auto simp: client_plan_def)
  obtain es where h: "client_handleMessage C (M ! n) (L n) = (Inr (L (Suc n)), es)"
    "writes es = map encode (drop (e n) (take (e (Suc n)) D))"
    using assms unfolding client_plan_def by blast
  have "drain C (L (Suc n)) = (Inr (L (Suc n)), [])" using r(2) by (simp add: drain_idle ready_simps)
  then have "drain C ((L n)\<lparr>cl_queue := [M ! n]\<rparr>) = (Inr (L (Suc n)), es)"
    using drain_turn [of "(L n)\<lparr>cl_queue := [M ! n]\<rparr>" "M ! n" "[]" C] h(1) r(1) by (simp add: ready_simps)
  with h(2) show ?thesis by blast
qed

text \<open>Draining a queue that holds the first \<open>k\<close> messages.\<close>

lemma plan_drain:
  assumes "client_plan C M L D e" "k \<le> length M"
  shows "\<exists>es. drain C ((L 0)\<lparr>cl_queue := take k M\<rparr>) = (Inr (L k), es) \<and> writes es = map encode (take (e k) D)"
  using assms(2)
proof (induction k)
  case 0
  have "ready (L 0)" using assms(1) by (simp add: client_plan_def)
  then show ?case using assms(1) by (simp add: drain_idle ready_simps client_plan_def)
next
  case (Suc k)
  then obtain es where es: "drain C ((L 0)\<lparr>cl_queue := take k M\<rparr>) = (Inr (L k), es)"
    "writes es = map encode (take (e k) D)" by auto
  have "ready (L k)" using assms(1) Suc.prems by (simp add: client_plan_def)
  then have q: "(L k)\<lparr>cl_queue := cl_queue (L k) @ [M ! k]\<rparr> = (L k)\<lparr>cl_queue := [M ! k]\<rparr>"
    by (simp add: ready_simps)
  obtain es' where es': "drain C ((L k)\<lparr>cl_queue := [M ! k]\<rparr>) = (Inr (L (Suc k)), es')"
    "writes es' = map encode (drop (e k) (take (e (Suc k)) D))"
    using plan_single [OF assms(1), of k] Suc.prems by auto
  have "e k \<le> e (Suc k)" using assms(1) by (simp add: client_plan_def monoD)
  then have "take (e (Suc k)) D = take (e k) D @ drop (e k) (take (e (Suc k)) D)"
    using drop_take_split [of 0 "e k" "e (Suc k)" D] by simp
  then have w: "writes (es @ es') = map encode (take (e (Suc k)) D)"
    using es(2) es'(2) by (metis map_append writes_simps(2))
  have "take (Suc k) M = take k M @ [M ! k]" using Suc.prems by (simp add: take_Suc_conv_app_nth)
  then have "drain C ((L 0)\<lparr>cl_queue := take (Suc k) M\<rparr>) = (Inr (L (Suc k)), es @ es')"
    using drain_append [of C "(L 0)\<lparr>cl_queue := take k M\<rparr>" "[M ! k]"] by (simp add: es(1) q es'(1))
  with w show ?case by blast
qed

section \<open>From the start to the first message\<close>

text \<open>The client between its identity and its keys, with the queue \<open>q\<close>, and with its keys.\<close>

definition named :: "jsstring \<Rightarrow> jsval list \<Rightarrow> 'r client \<Rightarrow> 'r client" where
  "named slot q cl =
     cl\<lparr>cl_myId := Some slot, cl_generatingKeys := True, cl_keyTimer := Some slot, cl_queue := q\<rparr>"

definition live :: "jsstring \<Rightarrow> bool \<Rightarrow> peer_session \<Rightarrow> 'r world \<Rightarrow> 'r client \<Rightarrow> 'r client" where
  "live slot present s w cl =
     cl\<lparr>cl_myId := Some slot, cl_identity := Some (ps_identity s), cl_session := Some s,
        cl_peerPresent := present, cl_world := w\<rparr>"

definition unassigned :: "'r client \<Rightarrow> bool" where
  "unassigned cl \<longleftrightarrow> ready cl \<and> cl_keyTimer cl = None \<and> \<not> cl_peerPresent cl"

lemma started_unassigned: "unassigned (fst (client_start tty server w))"
  by (simp add: unassigned_def ready_def client_start_def)

lemma live_ready: "unassigned cl \<Longrightarrow> ready (live slot present s w cl)"
  by (simp add: unassigned_def ready_def live_def)

definition assigned :: "jsstring \<Rightarrow> jsval" where
  "assigned slot = system_msg (js ''Connected as '' @ slot)"

lemma notice_fields:
  "field (system_msg t) ''type'' = VStr SYSTEM" "field (system_msg t) ''text'' = VStr t"
  "field (system_msg t) ''event'' = VUndef"
  "field (peer_event_msg e p t) ''type'' = VStr SYSTEM" "field (peer_event_msg e p t) ''text'' = VStr t"
  "field (peer_event_msg e p t) ''event'' = VStr e" "field (peer_event_msg e p t) ''peer'' = VStr p"
  by (simp_all add: system_msg_def createSystemMessage_def peer_event_msg_def createPeerEventMessage_def)

lemma notice_ok:
  "json_ok (system_msg t)" "json_ok (peer_event_msg e p t)"
  by (simp_all add: system_msg_def createSystemMessage_def peer_event_msg_def createPeerEventMessage_def obj_def
      array_index_def js_def unit_of_def is_digit_def PROTOCOL_VERSION_def)

lemma notice_version:
  "field (system_msg t) ''version'' = PROTOCOL_VERSION" "field (peer_event_msg e p t) ''version'' = PROTOCOL_VERSION"
  "\<not> not_object (system_msg t)" "\<not> not_object (peer_event_msg e p t)"
  by (simp_all add: system_msg_def createSystemMessage_def peer_event_msg_def createPeerEventMessage_def)

lemma notice_valid:
  "trim t \<noteq> [] \<Longrightarrow> validateMessage C (system_msg t) = Inr Valid"
  "trim t \<noteq> [] \<Longrightarrow> isIdentityString (VStr p) \<Longrightarrow> validateMessage C (peer_event_msg PEER_JOINED p t) = Inr Valid"
  using validate_plain_iff [of "system_msg t" SYSTEM C] validate_plain_iff [of "peer_event_msg PEER_JOINED p t" SYSTEM C]
  by (simp_all add: notice_fields notice_version optional_version_def nonblank_def event_schema_def)

text \<open>The first and the second client to connect: the slot it gets and the notice about its peer.\<close>

datatype side = First | Second

fun other :: "side \<Rightarrow> side" where
  "other First = Second"
| "other Second = First"

fun slot_of :: "side \<Rightarrow> jsstring" where
  "slot_of First = CLIENT_A"
| "slot_of Second = CLIENT_B"

fun arrival :: "side \<Rightarrow> jsval" where
  "arrival First = peer_event_msg PEER_JOINED CLIENT_B (CLIENT_B @ js '' has joined the chat.'')"
| "arrival Second = peer_event_msg PEER_JOINED CLIENT_A (CLIENT_A @ js '' is already connected.'')"

lemma slot_values: "client_A = VStr CLIENT_A" "client_B = VStr CLIENT_B"
  by (simp_all add: client_A_def client_B_def CLIENT_A_def CLIENT_B_def)

lemma slot_texts:
  "trim (js ''Connected as '' @ slot_of x) \<noteq> []"
  "isIdentityString (VStr CLIENT_A)" "isIdentityString (VStr CLIENT_B)"
  using client_texts(1,2) by (cases x; simp add: slot_values trim_eq_Nil_iff js_def unit_of_def is_js_space_def)+

lemma notice_fits:
  "byteLength (json_text (assigned (slot_of x))) \<le> MAX_FRAME_SIZE" "byteLength (json_text (arrival x)) \<le> MAX_FRAME_SIZE"
proof -
  have "stringify (VNum (num_lit 1)) = Some (js ''1'')"
    by (simp only: stringify.simps num_one jsnum.case num_one_string [unfolded num_one])
  then have "length (json_text (assigned (slot_of x))) \<le> 200" "length (json_text (arrival x)) \<le> 200"
    by (cases x; simp del: One_nat_def add: assigned_def system_msg_def createSystemMessage_def peer_event_msg_def
        createPeerEventMessage_def obj_def PROTOCOL_VERSION_def json_text_def quote_json_def CLIENT_A_def CLIENT_B_def
        js_def unit_of_def quote_unit_def is_high_def is_low_def)+
  with byteLength_bounds [of "json_text (assigned (slot_of x))"] byteLength_bounds [of "json_text (arrival x)"]
  show "byteLength (json_text (assigned (slot_of x))) \<le> MAX_FRAME_SIZE" "byteLength (json_text (arrival x)) \<le> MAX_FRAME_SIZE"
    by (simp_all add: MAX_FRAME_SIZE_def)
qed

lemma arrival_texts:
  "trim (CLIENT_B @ js '' has joined the chat.'') \<noteq> []" "\<not> startsWith (CLIENT_B @ js '' has joined the chat.'') connected_as"
  "trim (CLIENT_A @ js '' is already connected.'') \<noteq> []" "\<not> startsWith (CLIENT_A @ js '' is already connected.'') connected_as"
  by (simp_all add: CLIENT_A_def CLIENT_B_def trim_eq_Nil_iff js_def unit_of_def is_js_space_def
      connected_as_def startsWith_def)

text \<open>The identity is assigned.\<close>

lemma log_no_exit [simp]: "\<not> list_ex is_exit (client_log cl ls)"
  by (simp add: client_log_def showPrompt_def)

lemma assigned_received:
  assumes "ready cl"
  shows "\<exists>es. client_step C (DataChunk (utf8_encode (encode (assigned (slot_of x))))) cl
      = (Inr (named (slot_of x) [] cl), es) \<and> writes es = [] \<and> \<not> list_ex is_exit es"
proof -
  let ?slot = "slot_of x"
  have "client_step C (DataChunk (utf8_encode (encode (assigned ?slot)))) cl
      = client_handleMessage C (assigned ?slot) cl"
    by (rule client_receives [OF assms _ _ notice_fits(1)])
      (simp_all add: assigned_def notice_ok notice_valid slot_texts)
  also have "\<dots> = (let (cl1, es) = onIdentityAssigned ?slot cl in (Inr cl1, es))"
    using slice_from_append [of connected_as ?slot]
    by (simp add: client_handleMessage_def client_system_def assigned_def notice_fields connected_as_def startsWith_def)
  finally have step: "client_step C (DataChunk (utf8_encode (encode (assigned ?slot)))) cl
      = (let (cl1, es) = onIdentityAssigned ?slot cl in (Inr cl1, es))" .
  have "cl_queue cl = []" using assms by (rule ready_simps)
  then have "cl\<lparr>cl_myId := Some ?slot, cl_generatingKeys := True, cl_keyTimer := Some ?slot\<rparr> = named ?slot [] cl"
    by (cases cl) (simp add: named_def)
  with step show ?thesis by (simp add: onIdentityAssigned_def Let_def)
qed

text \<open>A message that arrives before the keys.\<close>

lemma named_queues:
  assumes "ready cl" "json_ok m" "validateMessage C m = Inr Valid" "byteLength (json_text m) \<le> MAX_FRAME_SIZE"
  shows "client_step C (DataChunk (utf8_encode (encode m))) (named slot q cl) = (Inr (named slot (q @ [m]) cl), [])"
proof -
  have "cl_buffer (named slot q cl) = new_LineBuffer MAX_FRAME_SIZE" using assms(1) by (simp add: ready_def named_def)
  then have "client_step C (DataChunk (utf8_encode (encode m))) (named slot q cl) =
      drain C ((named slot q cl)\<lparr>cl_buffer := new_LineBuffer MAX_FRAME_SIZE, cl_queue := q @ [m]\<rparr>)"
    using frame_arrives [OF assms(2,4)] accept_frame [OF assms(2,3)]
    by (simp add: client_on_data_def named_def)
  also have "(named slot q cl)\<lparr>cl_buffer := new_LineBuffer MAX_FRAME_SIZE, cl_queue := q @ [m]\<rparr>
      = named slot (q @ [m]) cl"
    using assms(1) by (cases cl) (simp add: named_def ready_def)
  also have "drain C (named slot (q @ [m]) cl) = (Inr (named slot (q @ [m]) cl), [])"
    by (rule drain_idle) (simp add: named_def)
  finally show ?thesis .
qed

text \<open>The keys arrive.\<close>

lemma keys_arrive:
  assumes "client_plan C M L D e" "k \<le> length M" "unassigned cl"
    and "createIdentity C (w_entropy (cl_world cl)) = (i, r)" "new_PeerSession slot i = Inr s"
    and "L 0 = live slot False s ((cl_world cl)\<lparr>w_entropy := r\<rparr>) cl"
  shows "\<exists>es. client_step C KeysDue (named slot (take k M) cl) = (Inr (L k), es)
    \<and> writes es = map encode (take (e k) D)"
proof -
  obtain es where es: "drain C ((L 0)\<lparr>cl_queue := take k M\<rparr>) = (Inr (L k), es)"
    "writes es = map encode (take (e k) D)"
    using plan_drain [OF assms(1,2)] by blast
  have id: "ps_identity s = i" using assms(5) by (auto simp: new_PeerSession_def split: if_splits)
  have world: "cl_world (named slot (take k M) cl) = cl_world cl" by (simp add: named_def)
  have "(named slot (take k M) cl)\<lparr>cl_identity := Some i, cl_session := Some s, cl_generatingKeys := False,
      cl_keyTimer := None, cl_world := (cl_world cl)\<lparr>w_entropy := r\<rparr>\<rparr> = (L 0)\<lparr>cl_queue := take k M\<rparr>"
    using assms(3) unfolding assms(6) by (cases cl) (simp add: named_def live_def unassigned_def ready_def id)
  moreover have "client_step C KeysDue (named slot (take k M) cl) = client_on_keys C slot (named slot (take k M) cl)"
    by (simp add: named_def)
  ultimately show ?thesis
    using es unfolding client_on_keys_def world assms(4) by (simp add: assms(5) Let_def)
qed

section \<open>One message at a client with its keys\<close>

lemma live_joined:
  assumes "onPeerJoined C s w = (Inr oc, s', w')" "ps_identity s' = ps_identity s"
    and "trim t \<noteq> []" "\<not> startsWith t connected_as"
  shows "\<exists>es. client_handleMessage C (peer_event_msg PEER_JOINED p t) (live slot b s w cl)
      = (Inr (live slot True s' w' cl), es) \<and> writes es = map encode (oc_outgoing oc)"
proof -
  have "client_handleMessage C (peer_event_msg PEER_JOINED p t) (live slot b s w cl)
      = client_system C (peer_event_msg PEER_JOINED p t) (live slot b s w cl)"
    by (simp add: client_handleMessage_def notice_fields)
  moreover have "\<exists>es. client_system C (peer_event_msg PEER_JOINED p t) (live slot b s w cl)
      = (Inr (live slot True s' w' cl), es) \<and> writes es = map encode (oc_outgoing oc)"
    using assms by (simp add: client_system_def notice_fields live_def Let_def)
  ultimately show ?thesis by (simp only:)
qed

lemma describe_returns:
  assumes "field msg ''sender'' = VStr t"
    and "oc_event oc = Some (js ''ESTABLISHED'') \<Longrightarrow> \<exists>ls. sessionSummaryLines C s w = Inr ls"
  shows "\<exists>ls. describeHandshake C s w msg oc = Inr ls"
  using assms by (cases "oc_event oc = Some (js ''ESTABLISHED'')")
    (auto simp: describeHandshake_def Let_def split: option.split)

lemma live_handshake:
  assumes "handleMessage C m s w = (Inr oc, s', w')" "ps_identity s' = ps_identity s"
    and "validateMessage C m = Inr Valid" "field m ''type'' = VStr ty" "ty \<in> set HANDSHAKE_TYPES"
    and "oc_event oc = Some (js ''ESTABLISHED'') \<Longrightarrow> \<exists>ls. sessionSummaryLines C s' w' = Inr ls"
  shows "\<exists>es. client_handleMessage C m (live slot b s w cl) = (Inr (live slot b s' w' cl), es)
    \<and> writes es = map encode (oc_outgoing oc)"
proof -
  have ty: "text_of (field m ''type'') = ty" using assms(4) by simp
  obtain t where "field m ''sender'' = VStr t" using handshake_sender [OF assms(3)] assms(5) ty by blast
  from describe_returns [where C = C and oc = oc and s = s' and w = w', OF this assms(6)] obtain ls where
    ls: "describeHandshake C s' w' m oc = Inr ls" by blast
  have "client_handleMessage C m (live slot b s w cl) = client_handshake C m (live slot b s w cl)"
    using assms(5) unfolding client_handleMessage_def Let_def ty by (auto simp: type_sets)
  moreover have "\<exists>es. client_handshake C m (live slot b s w cl) = (Inr (live slot b s' w' cl), es)
      \<and> writes es = map encode (oc_outgoing oc)"
    using assms(1,2) ls by (simp add: client_handshake_def live_def Let_def)
  ultimately show ?thesis by (simp only:)
qed

lemma live_summary:
  assumes "ps_state s = ESTABLISHED" "ps_peerId s = VStr p" "ps_sessionId s = VStr sid"
    and "ps_sessionKey s = Some a" "length (w_heap w ! a) = 32"
  shows "\<exists>ls. sessionSummaryLines C s w = Inr ls"
proof -
  have "\<exists>f. fingerprint_text C s w = Inr f"
    using assms by (simp add: fingerprint_text_def ps_sessionKeyFingerprint_def sessionKey_def
        sessionKeyFingerprint_def SESSION_KEY_BYTES_def sha256_def Let_def)
  with assms(2,3) show ?thesis by (auto simp: sessionSummaryLines_def)
qed

section \<open>The two sides of the handshake\<close>

text \<open>
  The handshake messages a client sends, how many of them after \<open>n\<close> messages it received, and
  its session and world then.
\<close>

fun sends :: "'r node_crypto \<Rightarrow> 'r script \<Rightarrow> side \<Rightarrow> jsval list" where
  "sends C S First = [helloA C S, sc_kx S]"
| "sends C S Second = [helloB C S, sc_ack S]"

fun sent_after :: "side \<Rightarrow> nat \<Rightarrow> nat" where
  "sent_after First n = min n 2"
| "sent_after Second n = (if n = 0 then 0 else if n < 3 then 1 else 2)"

definition inbox :: "'r node_crypto \<Rightarrow> 'r script \<Rightarrow> side \<Rightarrow> jsval list" where
  "inbox C S x = arrival x # sends C S (other x)"

fun session_at :: "'r script \<Rightarrow> side \<Rightarrow> nat \<Rightarrow> peer_session" where
  "session_at S First n = sessA S n"
| "session_at S Second n = sessB S n"

fun world_at :: "'r script \<Rightarrow> side \<Rightarrow> nat \<Rightarrow> 'r world" where
  "world_at S First n = (if n < 2 then sc_wA S else sc_wA' S)"
| "world_at S Second n = (if n < 3 then sc_wB S else sc_wB' S)"

definition live_at :: "'r script \<Rightarrow> side \<Rightarrow> 'r client \<Rightarrow> nat \<Rightarrow> 'r client" where
  "live_at S x cl n = live (slot_of x) (n \<noteq> 0) (session_at S x n) (world_at S x n) cl"

lemma slot_is_name: "nameA = CLIENT_A" "nameB = CLIENT_B"
  by (simp_all add: nameA_def nameB_def CLIENT_A_def CLIENT_B_def)

lemma session_at_fields:
  "ps_identity (sessA S n) = sc_iA S" "ps_identity (sessB S n) = sc_iB S"
  by (simp_all add: sessA_def sessB_def fresh_def with_peer_keys_def Let_def)

lemma summary_at:
  assumes "scripted C S"
  shows "\<exists>ls. sessionSummaryLines C (sessA S 3) (sc_wA' S) = Inr ls"
    and "\<exists>ls. sessionSummaryLines C (sessB S 3) (sc_wB' S) = Inr ls"
proof -
  show "\<exists>ls. sessionSummaryLines C (sessA S 3) (sc_wA' S) = Inr ls"
    by (rule live_summary [where p = nameB and sid = "sc_sid S" and a = "length (w_heap (sc_wA S))"])
      (use assms in \<open>simp_all add: sessA_def fresh_def with_peer_keys_def Let_def scripted_def names(1,2) [symmetric]\<close>)
  show "\<exists>ls. sessionSummaryLines C (sessB S 3) (sc_wB' S) = Inr ls"
    by (rule live_summary [where p = nameA and sid = "sc_sid S" and a = "length (w_heap (sc_wB S))"])
      (use assms in \<open>simp_all add: sessB_def fresh_def with_peer_keys_def Let_def scripted_def names(1,2) [symmetric]\<close>)
qed

section \<open>The messages of the handshake\<close>

lemma createKeyExchange_form:
  "createKeyExchange C s r sk pk v w = (Inr (m, sid, a), w') \<Longrightarrow>
    \<exists>ek sig. m = createKeyExchangeMessage s r (VStr sid) (VStr ek) (VStr sig) v"
  by (auto simp: createKeyExchange_def Let_def split: prod.splits sum.splits)

lemma createKeyExchangeAck_form:
  "createKeyExchangeAck C s r sid sk v w = (Inr m, w') \<Longrightarrow> \<exists>sig. m = createKeyExchangeAckMessage s r sid (VStr sig) v"
  by (auto simp: createKeyExchangeAck_def split: prod.splits sum.splits)

lemma exchange_message_ok:
  "json_ok (createKeyExchangeMessage (VStr s) (VStr r) (VStr sid) (VStr ek) (VStr sig) PROTOCOL_VERSION)"
  "json_ok (createKeyExchangeAckMessage (VStr s) (VStr r) (VStr sid) (VStr sig) PROTOCOL_VERSION)"
  by (simp_all add: createKeyExchangeMessage_def createKeyExchangeAckMessage_def obj_def array_index_def js_def
      unit_of_def is_digit_def PROTOCOL_VERSION_def)

definition relayable :: "'r node_crypto \<Rightarrow> jsstring \<Rightarrow> jsval \<Rightarrow> bool" where
  "relayable C slot m \<longleftrightarrow> json_ok m \<and> validateMessage C m = Inr Valid
     \<and> (\<exists>ty. field m ''type'' = VStr ty \<and> ty \<in> set HANDSHAKE_TYPES
          \<and> (ty = HELLO \<or> field m ''recipient'' = VStr (otherSlot slot)))
     \<and> field m ''sender'' = VStr slot"

lemma relayable_fits: "relayable C slot m \<Longrightarrow> byteLength (json_text m) \<le> MAX_FRAME_SIZE"
  using valid_handshake_size by (auto simp: relayable_def)

lemma hello_relayable:
  assumes "client_ok C i" "slot = CLIENT_A \<or> slot = CLIENT_B"
  shows "relayable C slot (own_hello C (VStr slot) i)"
  using assms own_hello_valid [OF assms(1)] client_texts hello_ok [of C slot i]
  by (auto simp: relayable_def slot_values HANDSHAKE_TYPES_def)

lemma sends_relayable:
  assumes "scripted C S" "m \<in> set (sends C S x)"
  shows "relayable C (slot_of x) m"
proof -
  have A: "relayable C CLIENT_A (helloA C S)" and B: "relayable C CLIENT_B (helloB C S)"
    using hello_relayable [OF scriptedD(1) [OF assms(1)], of CLIENT_A]
      hello_relayable [OF scriptedD(2) [OF assms(1)], of CLIENT_B]
    by (simp_all add: helloA_def helloB_def slot_values)
  obtain ek sig where kx: "sc_kx S = createKeyExchangeMessage client_A client_B (VStr (sc_sid S)) (VStr ek) (VStr sig) PROTOCOL_VERSION"
    using assms(1) createKeyExchange_form unfolding scripted_def by blast
  obtain sig' where ack: "sc_ack S = createKeyExchangeAckMessage client_B client_A (VStr (sc_sid S)) (VStr sig') PROTOCOL_VERSION"
    using assms(1) createKeyExchangeAck_form unfolding scripted_def by blast
  have "relayable C CLIENT_A (sc_kx S)"
    using schema_valid [OF scriptedD(5) [OF assms(1)], of C] exchange_message_ok(1) [of CLIENT_A CLIENT_B] slot_names
    by (simp add: relayable_def kx slot_values HANDSHAKE_TYPES_def otherSlot_def createKeyExchangeMessage_def)
  moreover have "relayable C CLIENT_B (sc_ack S)"
    using schema_valid [OF scriptedD(6) [OF assms(1)], of C] exchange_message_ok(2) [of CLIENT_B CLIENT_A] slot_names
    by (simp add: relayable_def ack slot_values HANDSHAKE_TYPES_def otherSlot_def createKeyExchangeAckMessage_def)
  ultimately show ?thesis using assms(2) A B by (cases x) auto
qed

section \<open>The plans\<close>

text \<open>One step of each side, for each of the three messages it receives.\<close>

lemma step_arrival:
  assumes "scripted C S"
  shows "\<exists>es. client_handleMessage C (arrival x) (live_at S x cl 0) = (Inr (live_at S x cl 1), es)
    \<and> writes es = map encode (take 1 (sends C S x))"
proof (cases x)
  case First
  have "onPeerJoined C (sessA S 0) (sc_wA S) = (Inr (ps_result [helloA C S] None None), sessA S 1, sc_wA S)"
    using joins(1) [OF assms, of 0 0] by simp
  from live_joined [OF this _ arrival_texts(1,2), of CLIENT_B CLIENT_A False cl] show ?thesis
    by (simp add: First live_at_def session_at_fields)
next
  case Second
  have "onPeerJoined C (sessB S 0) (sc_wB S) = (Inr (ps_result [helloB C S] None None), sessB S 1, sc_wB S)"
    using joins(2) [OF assms, of 0 0] by simp
  from live_joined [OF this _ arrival_texts(3,4), of CLIENT_A CLIENT_B False cl] show ?thesis
    by (simp add: Second live_at_def session_at_fields)
qed

lemma relayable_step:
  assumes "relayable C slot m" "handleMessage C m (session_at S x n) (world_at S x n) =
      (Inr oc, session_at S x (Suc n), world_at S x (Suc n))" "n \<noteq> 0"
    and "oc_event oc = Some (js ''ESTABLISHED'') \<Longrightarrow>
      \<exists>ls. sessionSummaryLines C (session_at S x (Suc n)) (world_at S x (Suc n)) = Inr ls"
  shows "\<exists>es. client_handleMessage C m (live_at S x cl n) = (Inr (live_at S x cl (Suc n)), es)
    \<and> writes es = map encode (oc_outgoing oc)"
proof -
  obtain ty where ty: "field m ''type'' = VStr ty" "ty \<in> set HANDSHAKE_TYPES" "validateMessage C m = Inr Valid"
    using assms(1) by (auto simp: relayable_def)
  have "ps_identity (session_at S x (Suc n)) = ps_identity (session_at S x n)"
    by (cases x) (simp_all add: session_at_fields)
  from live_handshake [OF assms(2) this ty(3,1,2) assms(4), of "slot_of x" True cl] assms(3) show ?thesis
    by (simp add: live_at_def)
qed

lemma step_first_message:
  assumes "scripted C S"
  shows "\<exists>es. client_handleMessage C (sends C S (other x) ! 0) (live_at S x cl 1) = (Inr (live_at S x cl 2), es)
    \<and> writes es = map encode (drop 1 (take (sent_after x 2) (sends C S x)))"
proof (cases x)
  case First
  have "relayable C CLIENT_B (helloB C S)" using sends_relayable [OF assms, of _ Second] by simp
  from relayable_step [OF this, of S First 1, where cl = cl] hello_reaches_A [OF assms, of 1] show ?thesis
    by (simp add: First numeral_2_eq_2 ps_result_def)
next
  case Second
  have "relayable C CLIENT_A (helloA C S)" using sends_relayable [OF assms, of _ First] by simp
  from relayable_step [OF this, of S Second 1, where cl = cl] hello_reaches_B [OF assms, of 1 "sc_wB S"] show ?thesis
    by (simp add: Second numeral_2_eq_2 ps_result_def)
qed

lemma step_second_message:
  assumes "scripted C S"
  shows "\<exists>es. client_handleMessage C (sends C S (other x) ! 1) (live_at S x cl 2) = (Inr (live_at S x cl 3), es)
    \<and> writes es = map encode (drop (sent_after x 2) (take (sent_after x 3) (sends C S x)))"
proof (cases x)
  case First
  have "relayable C CLIENT_B (sc_ack S)" using sends_relayable [OF assms, of _ Second] by simp
  from relayable_step [OF this, of S First 2, where cl = cl] ack_reaches_A [OF assms, of "sc_wA' S"] summary_at(1) [OF assms]
  show ?thesis by (simp add: First eval_nat_numeral ps_result_def)
next
  case Second
  have "relayable C CLIENT_A (sc_kx S)" using sends_relayable [OF assms, of _ First] by simp
  from relayable_step [OF this, of S Second 2, where cl = cl] exchange_reaches_B [OF assms] summary_at(2) [OF assms]
  show ?thesis by (simp add: Second eval_nat_numeral ps_result_def)
qed

lemma side_plan:
  assumes "scripted C S" "unassigned cl"
  shows "client_plan C (inbox C S x) (live_at S x cl) (sends C S x) (sent_after x)"
proof -
  have "length (inbox C S x) = 3" by (cases x) (simp_all add: inbox_def)
  moreover have start: "sent_after x 0 = 0" by (cases x) simp_all
  moreover have "mono (sent_after x)"
  proof (rule monoI)
    fix m n :: nat
    assume "m \<le> n"
    then show "sent_after x m \<le> sent_after x n" by (cases x) auto
  qed
  moreover have "\<exists>es. client_handleMessage C (inbox C S x ! n) (live_at S x cl n) = (Inr (live_at S x cl (Suc n)), es)
      \<and> writes es = map encode (drop (sent_after x n) (take (sent_after x (Suc n)) (sends C S x)))" if "n < 3" for n
  proof -
    from that have "n = 0 \<or> n = 1 \<or> n = 2" by auto
    moreover have "sent_after x 1 = 1" by (cases x) simp_all
    ultimately show ?thesis
      using step_arrival [OF assms(1), of x cl] step_first_message [OF assms(1), of x cl]
        step_second_message [OF assms(1), of x cl] start
      by (elim disjE) (simp_all add: inbox_def eval_nat_numeral)
  qed
  ultimately show ?thesis
    using live_ready [OF assms(2)] by (simp add: client_plan_def live_at_def)
qed

section \<open>A second identity\<close>

text \<open>
  A second identity leaves the key of the first behind. If a server announces
  an identity again, the client generates new keys and puts a new session in the place of the
  old one without ending that: the old session key stays in memory, and no session refers to
  it any more.
\<close>

theorem second_identity_leaks:
  assumes "ready cl" "cl_session cl = Some s" "ps_sessionKey s = Some a" "\<not> zeroed (cl_world cl) a"
    and "client_run C [DataChunk (utf8_encode (encode (assigned (slot_of x)))), KeysDue] cl = (r, es)"
  shows "\<exists>cl' s'. r = Some cl' \<and> cl_session cl' = Some s' \<and> ps_sessionKey s' = None
    \<and> w_heap (cl_world cl') = w_heap (cl_world cl) \<and> \<not> zeroed (cl_world cl') a"
proof -
  let ?slot = "slot_of x" and ?cl = "named (slot_of x) [] cl"
  obtain es1 where first: "client_step C (DataChunk (utf8_encode (encode (assigned ?slot)))) cl = (Inr ?cl, es1)"
    "\<not> list_ex is_exit es1"
    using assigned_received [OF assms(1)] by blast
  obtain i e where id: "createIdentity C (w_entropy (cl_world cl)) = (i, e)" by fastforce
  obtain s' where s': "new_PeerSession ?slot i = Inr s'" "ps_sessionKey s' = None"
    using new_sessions by (cases x) (auto simp: slot_is_name fresh_def)
  let ?cl1 = "?cl\<lparr>cl_identity := Some i, cl_session := Some s', cl_generatingKeys := False, cl_keyTimer := None,
    cl_world := (cl_world cl)\<lparr>w_entropy := e\<rparr>\<rparr>"
  have "drain C ?cl1 = (Inr ?cl1, [])" by (rule drain_idle) (simp add: named_def)
  then have "\<exists>es2. client_step C KeysDue ?cl = (Inr ?cl1, es2) \<and> \<not> list_ex is_exit es2"
    by (simp add: named_def client_on_keys_def id s'(1) Let_def)
  then have "r = Some ?cl1" using assms(5) first by (auto split: prod.splits)
  moreover have "w_heap (cl_world ?cl1) = w_heap (cl_world cl)" by simp
  ultimately show ?thesis using s'(2) assms(4) by (auto simp: zeroed_def)
qed

definition sample_established :: "nat client" where
  "sample_established = sample_client_B\<lparr>cl_session := Some (sample_B\<lparr>ps_state := ESTABLISHED, ps_sessionKey := Some 0\<rparr>),
     cl_world := \<lparr>w_entropy = 5, w_heap = [replicate 32 1]\<rparr>\<rparr>"

theorem second_identity_leaks_witness:
  "\<exists>cl es. client_run sample_crypto [DataChunk (utf8_encode (encode (assigned CLIENT_B))), KeysDue] sample_established
      = (Some cl, es) \<and> \<not> zeroed (cl_world cl) 0"
proof -
  have "ready sample_established"
    using sample_ready(1) by (simp add: ready_def sample_established_def)
  moreover have "\<not> zeroed (cl_world sample_established) 0" by (simp add: sample_established_def zeroed_def)
  moreover obtain r es where
    "client_run sample_crypto [DataChunk (utf8_encode (encode (assigned (slot_of Second)))), KeysDue] sample_established = (r, es)"
    by fastforce
  ultimately show ?thesis
    using second_identity_leaks [of sample_established _ 0 sample_crypto Second r es]
    by (simp add: sample_established_def) blast
qed

end
