(* ===== verification/System.thy ===== *)
theory System
  imports ClientScript
begin

text \<open>
  The whole program: the server of \<open>src/server.js\<close> and two processes of \<open>src/client.js\<close>, with
  a connection between each client and the server that keeps the order of what is written.
  A step is one event of one of the three processes, in any order. From the start of the
  three processes every run reaches, after exactly 17 steps, the state in which both
  sessions are established with the same key; none gets stuck or crashes on the way.
\<close>

section \<open>The system\<close>

fun socket :: "side \<Rightarrow> nat" where
  "socket First = 1"
| "socket Second = 2"

text \<open>
  \<open>sy_up x\<close> is what client \<open>x\<close> has written and the server has not read, \<open>sy_down x\<close> the other
  direction. TCP delivers here each write as one chunk; that other cuts make no difference
  to the server is \<open>cuts_do_not_matter\<close>.
\<close>

record 'r system =
  sy_server :: server
  sy_client :: "side \<Rightarrow> 'r client"
  sy_up :: "side \<Rightarrow> jsstring list"
  sy_down :: "side \<Rightarrow> jsstring list"

fun text_to :: "nat \<Rightarrow> effect \<Rightarrow> jsstring list" where
  "text_to k (Write j t) = (if j = k then [t] else [])"
| "text_to k (End j (Some t)) = (if j = k then [t] else [])"
| "text_to k _ = []"

definition sent_to :: "nat \<Rightarrow> effect list \<Rightarrow> jsstring list" where
  "sent_to k es = concat (map (text_to k) es)"

lemma sent_to_simps [simp]:
  "sent_to k [] = []" "sent_to k (e # es) = text_to k e @ sent_to k es" "sent_to k (es @ es') = sent_to k es @ sent_to k es'"
  by (simp_all add: sent_to_def)

text \<open>The state after an event at the server, and after one at client \<open>x\<close>.\<close>

definition server_did :: "server \<Rightarrow> effect list \<Rightarrow> 'r system \<Rightarrow> 'r system" where
  "server_did sv es n = n\<lparr>sy_server := sv, sy_down := (\<lambda>x. sy_down n x @ sent_to (socket x) es)\<rparr>"

definition client_did :: "side \<Rightarrow> 'r client \<Rightarrow> client_effect list \<Rightarrow> 'r system \<Rightarrow> 'r system" where
  "client_did x cl es n =
     n\<lparr>sy_client := (sy_client n)(x := cl), sy_up := (sy_up n)(x := sy_up n x @ writes es)\<rparr>"

text \<open>The client that connects first is \<open>First\<close>. A crash has no successor.\<close>

inductive sys_step :: "'r node_crypto \<Rightarrow> 'r system \<Rightarrow> 'r system \<Rightarrow> bool" for C :: "'r node_crypto" where
  listen: "possible (sy_server n) Listening \<Longrightarrow> server_step C Listening (sy_server n) = (Inr sv, es) \<Longrightarrow>
    sys_step C n (server_did sv es n)"
| connect: "possible (sy_server n) (Connect (socket x) remote) \<Longrightarrow>
    x = Second \<longrightarrow> sv_sockets (sy_server n) (socket First) \<noteq> Unseen \<Longrightarrow>
    server_step C (Connect (socket x) remote) (sy_server n) = (Inr sv, es) \<Longrightarrow>
    sys_step C n (server_did sv es n)"
| relay: "sy_up n x = t # rest \<Longrightarrow> possible (sy_server n) (DataIn (socket x) (utf8_encode t)) \<Longrightarrow>
    server_step C (DataIn (socket x) (utf8_encode t)) (sy_server n) = (Inr sv, es) \<Longrightarrow>
    sys_step C n (server_did sv es (n\<lparr>sy_up := (sy_up n)(x := rest)\<rparr>))"
| receive: "sy_down n x = t # rest \<Longrightarrow>
    client_step C (DataChunk (utf8_encode t)) (sy_client n x) = (Inr cl, es) \<Longrightarrow>
    sys_step C n (client_did x cl es (n\<lparr>sy_down := (sy_down n)(x := rest)\<rparr>))"
| keys: "cl_keyTimer (sy_client n x) \<noteq> None \<Longrightarrow>
    client_step C KeysDue (sy_client n x) = (Inr cl, es) \<Longrightarrow>
    sys_step C n (client_did x cl es n)"

inductive_cases sys_stepE: "sys_step C n n'"

definition sys_start :: "server \<Rightarrow> (side \<Rightarrow> 'r client) \<Rightarrow> 'r system" where
  "sys_start sv cls = \<lparr>sy_server = sv, sy_client = cls, sy_up = (\<lambda>x. []), sy_down = (\<lambda>x. [])\<rparr>"

section \<open>The server during the handshake\<close>

text \<open>The server after \<open>p\<close> steps of its start: not listening, listening, one client, two clients.\<close>

definition stage :: "jsstring \<Rightarrow> nat \<Rightarrow> nat \<Rightarrow> server" where
  "stage host port p =
     \<lparr>sv_host = host, sv_port = port, sv_listening = (1 \<le> p), sv_stopping = False,
      sv_clients = (\<lambda>slot. if slot = CLIENT_A \<and> 2 \<le> p then Some 1 else if slot = CLIENT_B \<and> 3 \<le> p then Some 2 else None),
      sv_conns = (\<lambda>k. if k = 1 \<and> 2 \<le> p then Some (sample_conn CLIENT_A)
        else if k = 2 \<and> 3 \<le> p then Some (sample_conn CLIENT_B) else None),
      sv_sockets = (\<lambda>k. if k = 1 \<and> 2 \<le> p \<or> k = 2 \<and> 3 \<le> p then Open else Unseen)\<rparr>"

lemma stage_start: "stage host port 0 = server_start host port"
  by (simp add: stage_def server_start_def)

lemma stage_listens: "\<exists>es. server_step C Listening (stage host port 0) = (Inr (stage host port 1), es)
    \<and> (\<forall>k. sent_to k es = [])"
  by (simp add: stage_def on_listening_def)

lemma stage_first:
  "\<exists>es. server_step C (Connect 1 remote) (stage host port 1) = (Inr (stage host port 2), es)
    \<and> sent_to 1 es = [encode (assigned CLIENT_A)] \<and> sent_to 2 es = []"
  using slot_names
  by (auto simp: stage_def on_connect_def freeSlot_def SLOTS_def Let_def sample_conn_def send_def writeTo_def
      is_destroyed_def assigned_def fun_eq_iff otherSlot_def)

lemma stage_second:
  "\<exists>es. server_step C (Connect 2 remote) (stage host port 2) = (Inr (stage host port 3), es)
    \<and> sent_to 1 es = [encode (arrival First)]
    \<and> sent_to 2 es = [encode (assigned CLIENT_B), encode (arrival Second)]"
  using slot_names
  by (auto simp: stage_def on_connect_def freeSlot_def SLOTS_def Let_def sample_conn_def send_def writeTo_def
      is_destroyed_def assigned_def fun_eq_iff otherSlot_def)

lemma stage_linked: "linked (stage host port 3) (socket x) (slot_of x) (socket (other x))"
  using slot_names
  by (cases x) (simp_all add: linked_def stage_def sample_conn_def otherSlot_def is_destroyed_def)

lemma stage_relays:
  assumes "relayable C (slot_of x) m"
  shows "\<exists>es. server_step C (DataIn (socket x) (utf8_encode (encode m))) (stage host port 3) = (Inr (stage host port 3), es)
    \<and> (\<forall>y. sent_to (socket y) es = (if y = other x then [encode m] else []))"
proof -
  obtain ty where "json_ok m" "validateMessage C m = Inr Valid" "field m ''type'' = VStr ty" "ty \<in> set HANDSHAKE_TYPES"
    "field m ''sender'' = VStr (slot_of x)" "ty = HELLO \<or> field m ''recipient'' = VStr (otherSlot (slot_of x))"
    using assms by (auto simp: relayable_def)
  from server_relays_handshake [OF stage_linked this(1-4) relayable_fits [OF assms] this(5,6)] obtain logged where
    "server_step C (DataIn (socket x) (utf8_encode (encode m))) (stage host port 3)
      = (Inr (stage host port 3), [Log logged, Write (socket (other x)) (encode m)])" by blast
  moreover have "sent_to (socket y) [Log logged, Write (socket (other x)) (encode m)]
      = (if y = other x then [encode m] else [])" for y
    by (cases x; cases y) simp_all
  ultimately show ?thesis by blast
qed

section \<open>A client during the handshake\<close>

definition frames :: "'r node_crypto \<Rightarrow> 'r script \<Rightarrow> side \<Rightarrow> jsval list" where
  "frames C S x = assigned (slot_of x) # inbox C S x"

lemma lengths [simp]: "length (sends C S x) = 2" "length (inbox C S x) = 3" "length (frames C S x) = 4"
  by (cases x; simp add: inbox_def frames_def)+

lemma inbox_ok:
  assumes "scripted C S" "m \<in> set (inbox C S x)"
  shows "json_ok m" "validateMessage C m = Inr Valid" "byteLength (json_text m) \<le> MAX_FRAME_SIZE"
proof -
  have "m = arrival x \<or> m \<in> set (sends C S (other x))" using assms(2) by (auto simp: inbox_def)
  moreover have "json_ok (arrival x)" "validateMessage C (arrival x) = Inr Valid"
    using slot_texts(2,3) by (cases x; simp add: notice_ok notice_valid arrival_texts)+
  moreover have "json_ok m \<and> validateMessage C m = Inr Valid \<and> byteLength (json_text m) \<le> MAX_FRAME_SIZE"
    if "m \<in> set (sends C S (other x))"
    using sends_relayable [OF assms(1) that] relayable_fits by (auto simp: relayable_def)
  ultimately show "json_ok m" "validateMessage C m = Inr Valid" "byteLength (json_text m) \<le> MAX_FRAME_SIZE"
    using notice_fits(2) by auto
qed

text \<open>
  The start of the clients fits the script: the keys that client \<open>x\<close> will generate are those
  of the script.
\<close>

definition starts :: "'r node_crypto \<Rightarrow> 'r script \<Rightarrow> (side \<Rightarrow> 'r client) \<Rightarrow> bool" where
  "starts C S cls \<longleftrightarrow>
     (\<forall>x. unassigned (cls x)
        \<and> createIdentity C (w_entropy (cl_world (cls x))) = (ps_identity (session_at S x 0), w_entropy (world_at S x 0))
        \<and> world_at S x 0 = (cl_world (cls x))\<lparr>w_entropy := w_entropy (world_at S x 0)\<rparr>)"

text \<open>Client \<open>x\<close> after \<open>c\<close> frames, with (\<open>kd\<close>) or without its keys, and how much it has sent.\<close>

definition client_after :: "'r node_crypto \<Rightarrow> 'r script \<Rightarrow> side \<Rightarrow> 'r client \<Rightarrow> nat \<Rightarrow> bool \<Rightarrow> 'r client" where
  "client_after C S x cl c kd =
     (if c = 0 then cl else if kd then live_at S x cl (c - 1)
      else named (slot_of x) (take (c - 1) (inbox C S x)) cl)"

definition emitted :: "side \<Rightarrow> nat \<Rightarrow> bool \<Rightarrow> nat" where
  "emitted x c kd = (if kd then sent_after x (c - 1) else 0)"

lemma receive_frame:
  assumes S: "scripted C S" and cl: "unassigned cl" and c: "c < 4" "kd \<longrightarrow> c \<noteq> 0"
  shows "\<exists>es. client_step C (DataChunk (utf8_encode (encode (frames C S x ! c)))) (client_after C S x cl c kd)
      = (Inr (client_after C S x cl (Suc c) kd), es)
    \<and> writes es = map encode (drop (emitted x c kd) (take (emitted x (Suc c) kd) (sends C S x)))"
proof (cases c)
  case 0
  with c have "\<not> kd" by simp
  with 0 assigned_received [of cl C x] cl show ?thesis
    by (auto simp: client_after_def emitted_def frames_def unassigned_def)
next
  case (Suc d)
  then have d: "d < length (inbox C S x)" using c by simp
  then have m: "inbox C S x ! d \<in> set (inbox C S x)" by (rule nth_mem)
  note ok = inbox_ok [OF S m]
  have frame: "frames C S x ! Suc d = inbox C S x ! d" by (simp add: frames_def)
  show ?thesis
  proof (cases kd)
    case False
    have "take (Suc d) (inbox C S x) = take d (inbox C S x) @ [inbox C S x ! d]"
      using d by (rule take_Suc_conv_app_nth)
    with False named_queues [OF _ ok, of cl "slot_of x" "take d (inbox C S x)"] cl show ?thesis
      by (simp add: client_after_def emitted_def frame Suc unassigned_def)
  next
    case True
    have plan: "client_plan C (inbox C S x) (live_at S x cl) (sends C S x) (sent_after x)"
      by (rule side_plan [OF S cl])
    have "ready (live_at S x cl d)" using live_ready [OF cl] by (simp add: live_at_def)
    note step = client_receives [OF this ok]
    from plan d obtain es where
      "client_handleMessage C (inbox C S x ! d) (live_at S x cl d) = (Inr (live_at S x cl (Suc d)), es)"
      "writes es = map encode (drop (sent_after x d) (take (sent_after x (Suc d)) (sends C S x)))"
      unfolding client_plan_def by blast
    with True step show ?thesis by (simp add: client_after_def emitted_def frame Suc)
  qed
qed

lemma keys_frame:
  assumes S: "scripted C S" and st: "starts C S cls" and c: "0 < c" "c \<le> 4"
  shows "\<exists>es. client_step C KeysDue (client_after C S x (cls x) c False) = (Inr (client_after C S x (cls x) c True), es)
    \<and> writes es = map encode (take (emitted x c True) (sends C S x))"
proof -
  let ?cl = "cls x" and ?i = "ps_identity (session_at S x 0)" and ?r = "w_entropy (world_at S x 0)"
  have cl: "unassigned ?cl" "createIdentity C (w_entropy (cl_world ?cl)) = (?i, ?r)"
    "world_at S x 0 = (cl_world ?cl)\<lparr>w_entropy := ?r\<rparr>"
    using st by (simp_all add: starts_def)
  have new: "new_PeerSession (slot_of x) ?i = Inr (session_at S x 0)"
    using new_sessions by (cases x) (simp_all add: slot_is_name [symmetric] sessA_def sessB_def fresh_def)
  have "live_at S x ?cl 0 = live (slot_of x) False (session_at S x 0) ((cl_world ?cl)\<lparr>w_entropy := ?r\<rparr>) ?cl"
    by (simp add: live_at_def flip: cl(3))
  from keys_arrive [OF side_plan [OF S cl(1)] _ cl(1,2) new this, of "c - 1"] c show ?thesis
    by (simp add: client_after_def emitted_def)
qed

lemma keys_pending:
  assumes "unassigned cl"
  shows "cl_keyTimer (client_after C S x cl c kd) \<noteq> None \<longleftrightarrow> c \<noteq> 0 \<and> \<not> kd"
  using assms by (simp add: client_after_def named_def live_at_def live_def unassigned_def)

section \<open>Every order of events\<close>

text \<open>
  How far a run has come: the start of the server, and for each client the frames it has
  received, whether it has its keys, and how many of its messages the server has relayed.
\<close>

record progress =
  pr_stage :: nat
  pr_received :: "side \<Rightarrow> nat"
  pr_keys :: "side \<Rightarrow> bool"
  pr_relayed :: "side \<Rightarrow> nat"

text \<open>How many frames the server has sent to client \<open>x\<close>, and how many messages client \<open>x\<close> has sent.\<close>

fun pr_issued :: "progress \<Rightarrow> side \<Rightarrow> nat" where
  "pr_issued p First = (if pr_stage p < 2 then 0 else if pr_stage p = 2 then 1 else 2 + pr_relayed p Second)"
| "pr_issued p Second = (if pr_stage p < 3 then 0 else 2 + pr_relayed p First)"

definition pr_emitted :: "progress \<Rightarrow> side \<Rightarrow> nat" where
  "pr_emitted p x = emitted x (pr_received p x) (pr_keys p x)"

definition pr_ok :: "progress \<Rightarrow> bool" where
  "pr_ok p \<longleftrightarrow> pr_stage p \<le> 3
     \<and> (\<forall>x. pr_received p x \<le> pr_issued p x \<and> pr_relayed p x \<le> pr_emitted p x
          \<and> (pr_keys p x \<longrightarrow> pr_received p x \<noteq> 0) \<and> (pr_stage p < 3 \<longrightarrow> pr_relayed p x = 0))"

definition pr_steps :: "progress \<Rightarrow> nat" where
  "pr_steps p = pr_stage p + pr_received p First + pr_received p Second + of_bool (pr_keys p First)
     + of_bool (pr_keys p Second) + pr_relayed p First + pr_relayed p Second"

definition pr_start :: progress where
  "pr_start = \<lparr>pr_stage = 0, pr_received = (\<lambda>x. 0), pr_keys = (\<lambda>x. False), pr_relayed = (\<lambda>x. 0)\<rparr>"

text \<open>The state of the system is a function of the progress.\<close>

definition system_at ::
  "'r node_crypto \<Rightarrow> 'r script \<Rightarrow> jsstring \<Rightarrow> nat \<Rightarrow> (side \<Rightarrow> 'r client) \<Rightarrow> progress \<Rightarrow> 'r system" where
  "system_at C S host port cls p =
     \<lparr>sy_server = stage host port (pr_stage p),
      sy_client = (\<lambda>x. client_after C S x (cls x) (pr_received p x) (pr_keys p x)),
      sy_up = (\<lambda>x. map encode (drop (pr_relayed p x) (take (pr_emitted p x) (sends C S x)))),
      sy_down = (\<lambda>x. map encode (drop (pr_received p x) (take (pr_issued p x) (frames C S x))))\<rparr>"

lemma emitted_le: "emitted x c kd \<le> 2"
  by (cases x) (simp_all add: emitted_def)

lemma emitted_mono: "c \<le> c' \<Longrightarrow> emitted x c kd \<le> emitted x c' kd"
  by (cases x) (auto simp: emitted_def)

lemma pr_okD:
  assumes "pr_ok p"
  shows "pr_received p x \<le> pr_issued p x" "pr_relayed p x \<le> pr_emitted p x" "pr_relayed p x \<le> 2"
    "pr_issued p x \<le> 4" "pr_stage p \<le> 3" "pr_keys p x \<Longrightarrow> pr_received p x \<noteq> 0"
    "pr_relayed p x < pr_emitted p x \<Longrightarrow> pr_stage p = 3"
proof -
  have all: "pr_received p y \<le> pr_issued p y" "pr_relayed p y \<le> pr_emitted p y"
    "pr_stage p < 3 \<Longrightarrow> pr_relayed p y = 0" for y
    using assms by (simp_all add: pr_ok_def)
  have two: "pr_relayed p y \<le> 2" for y
    using all(2) [of y] emitted_le [of y "pr_received p y" "pr_keys p y"] by (simp add: pr_emitted_def)
  show "pr_received p x \<le> pr_issued p x" "pr_relayed p x \<le> pr_emitted p x" "pr_relayed p x \<le> 2" "pr_stage p \<le> 3"
    "pr_keys p x \<Longrightarrow> pr_received p x \<noteq> 0"
    using assms two by (simp_all add: pr_ok_def)
  show "pr_issued p x \<le> 4" using two by (cases x) simp_all
  assume "pr_relayed p x < pr_emitted p x"
  then have "1 < pr_received p x"
    by (cases x) (auto simp: pr_emitted_def emitted_def split: if_splits)
  with all(1) [of x] have "1 < pr_issued p x" by simp
  then have "\<not> pr_stage p < 3" by (cases x) (simp_all split: if_splits)
  with assms show "pr_stage p = 3" by (simp add: pr_ok_def)
qed

text \<open>One step of the progress.\<close>

inductive pr_next :: "progress \<Rightarrow> progress \<Rightarrow> bool" where
  next_stage: "pr_stage p < 3 \<Longrightarrow> pr_next p (p\<lparr>pr_stage := Suc (pr_stage p)\<rparr>)"
| next_relay: "pr_relayed p x < pr_emitted p x \<Longrightarrow>
    pr_next p (p\<lparr>pr_relayed := (pr_relayed p)(x := Suc (pr_relayed p x))\<rparr>)"
| next_receive: "pr_received p x < pr_issued p x \<Longrightarrow>
    pr_next p (p\<lparr>pr_received := (pr_received p)(x := Suc (pr_received p x))\<rparr>)"
| next_keys: "pr_received p x \<noteq> 0 \<Longrightarrow> \<not> pr_keys p x \<Longrightarrow>
    pr_next p (p\<lparr>pr_keys := (pr_keys p)(x := True)\<rparr>)"

text \<open>What the server sends to \<open>x\<close> is the next part of the frames of \<open>x\<close>.\<close>

lemma server_did_at:
  assumes "pr_ok p" "\<And>x. pr_issued p x \<le> pr_issued p' x"
    and "\<And>x. sent_to (socket x) es = map encode (drop (pr_issued p x) (take (pr_issued p' x) (frames C S x)))"
    and "n = (system_at C S host port cls p)\<lparr>sy_up := sy_up (system_at C S host port cls p')\<rparr>"
    and "pr_received p' = pr_received p" "pr_keys p' = pr_keys p"
  shows "server_did (stage host port (pr_stage p')) es n = system_at C S host port cls p'"
proof -
  have "map encode (drop (pr_received p x) (take (pr_issued p x) (frames C S x))) @ sent_to (socket x) es
      = map encode (drop (pr_received p x) (take (pr_issued p' x) (frames C S x)))" for x
    using drop_take_split [OF pr_okD(1) [OF assms(1)] assms(2), of x "frames C S x"] by (simp add: assms(3))
  then show ?thesis by (simp add: server_did_def system_at_def assms(4-6))
qed

lemma client_did_at:
  assumes "pr_ok p" "pr_emitted p x \<le> pr_emitted p' x"
    and "writes es = map encode (drop (pr_emitted p x) (take (pr_emitted p' x) (sends C S x)))"
    and "n = (system_at C S host port cls p)\<lparr>sy_down := sy_down (system_at C S host port cls p')\<rparr>"
    and "cl = client_after C S x (cls x) (pr_received p' x) (pr_keys p' x)"
    and "pr_stage p' = pr_stage p" "pr_relayed p' = pr_relayed p"
    and "\<And>y. y \<noteq> x \<Longrightarrow> pr_received p' y = pr_received p y \<and> pr_keys p' y = pr_keys p y"
  shows "client_did x cl es n = system_at C S host port cls p'"
proof -
  have "map encode (drop (pr_relayed p x) (take (pr_emitted p x) (sends C S x))) @ writes es
      = map encode (drop (pr_relayed p x) (take (pr_emitted p' x) (sends C S x)))"
    using drop_take_split [OF pr_okD(2) [OF assms(1)] assms(2), of "sends C S x"] by (simp add: assms(3))
  moreover have "pr_emitted p' y = pr_emitted p y" if "y \<noteq> x" for y
    using assms(8) [OF that] by (simp add: pr_emitted_def)
  ultimately show ?thesis
    using assms(8) by (simp add: client_did_def system_at_def assms(4-7) fun_eq_iff)
qed

lemma frames_simps:
  "take 1 (frames C S x) = [assigned (slot_of x)]" "drop 1 (take 2 (frames C S x)) = [arrival x]"
  "take 2 (frames C S x) = [assigned (slot_of x), arrival x]"
  "j < 2 \<Longrightarrow> drop (2 + j) (take (3 + j) (frames C S x)) = [sends C S (other x) ! j]"
proof -
  show "take 1 (frames C S x) = [assigned (slot_of x)]" "drop 1 (take 2 (frames C S x)) = [arrival x]"
    "take 2 (frames C S x) = [assigned (slot_of x), arrival x]"
    by (simp_all add: frames_def inbox_def)
  assume "j < 2"
  then have "j = 0 \<or> j = 1" by auto
  then show "drop (2 + j) (take (3 + j) (frames C S x)) = [sends C S (other x) ! j]"
    by (cases x) (auto simp: frames_def inbox_def numeral_3_eq_3)
qed

lemma take_cut: "drop i (take j xs) = (if i < j \<and> i < length xs then xs ! i # drop (Suc i) (take j xs) else [])"
  by (auto simp flip: Cons_nth_drop_Suc)

lemma stage_at:
  assumes "pr_ok p" "p' = p\<lparr>pr_stage := Suc (pr_stage p)\<rparr>"
  shows "pr_stage p = 0 \<Longrightarrow> \<exists>es. server_step C Listening (stage host port 0) = (Inr (stage host port 1), es)
      \<and> server_did (stage host port 1) es (system_at C S host port cls p) = system_at C S host port cls p'"
    and "pr_stage p = 1 \<Longrightarrow> \<exists>es. server_step C (Connect 1 remote) (stage host port 1) = (Inr (stage host port 2), es)
      \<and> server_did (stage host port 2) es (system_at C S host port cls p) = system_at C S host port cls p'"
    and "pr_stage p = 2 \<Longrightarrow> \<exists>es. server_step C (Connect 2 remote) (stage host port 2) = (Inr (stage host port 3), es)
      \<and> server_did (stage host port 3) es (system_at C S host port cls p) = system_at C S host port cls p'"
proof -
  have same: "system_at C S host port cls p =
      (system_at C S host port cls p)\<lparr>sy_up := sy_up (system_at C S host port cls p')\<rparr>"
    by (simp add: system_at_def assms(2) pr_emitted_def)
  have sel: "pr_received p' = pr_received p" "pr_keys p' = pr_keys p" "pr_relayed p' = pr_relayed p"
    "pr_stage p' = Suc (pr_stage p)"
    by (simp_all add: assms(2))
  have none: "pr_relayed p x = 0" if "pr_stage p < 3" for x using assms(1) that by (simp add: pr_ok_def)
  note did = server_did_at [OF assms(1) _ _ same sel(1,2)]
  show "\<exists>es. server_step C Listening (stage host port 0) = (Inr (stage host port 1), es)
      \<and> server_did (stage host port 1) es (system_at C S host port cls p) = system_at C S host port cls p'"
    if st: "pr_stage p = 0"
  proof -
    obtain es where es: "server_step C Listening (stage host port 0) = (Inr (stage host port 1), es)"
      "\<And>k. sent_to k es = []" using stage_listens by blast
    have i: "pr_issued p x = 0" "pr_issued p' x = 0" for x using st sel(4) by (cases x; simp)+
    from did [of es] es st sel(4) i show ?thesis by simp
  qed
  show "\<exists>es. server_step C (Connect 1 remote) (stage host port 1) = (Inr (stage host port 2), es)
      \<and> server_did (stage host port 2) es (system_at C S host port cls p) = system_at C S host port cls p'"
    if st: "pr_stage p = 1"
  proof -
    obtain es where es: "server_step C (Connect 1 remote) (stage host port 1) = (Inr (stage host port 2), es)"
      "sent_to 1 es = [encode (assigned CLIENT_A)]" "sent_to 2 es = []" using stage_first by blast
    have i: "pr_issued p x = 0" "pr_issued p' x = (if x = First then 1 else 0)" for x
      using st sel(4) by (cases x; simp)+
    have "sent_to (socket x) es = map encode (drop (pr_issued p x) (take (pr_issued p' x) (frames C S x)))" for x
      unfolding i using es(2,3) frames_simps(1) [of C S First] by (cases x) simp_all
    from did [OF _ this] es(1) st sel(4) i show ?thesis by (simp add: numeral_2_eq_2)
  qed
  show "\<exists>es. server_step C (Connect 2 remote) (stage host port 2) = (Inr (stage host port 3), es)
      \<and> server_did (stage host port 3) es (system_at C S host port cls p) = system_at C S host port cls p'"
    if st: "pr_stage p = 2"
  proof -
    obtain es where es: "server_step C (Connect 2 remote) (stage host port 2) = (Inr (stage host port 3), es)"
      "sent_to 1 es = [encode (arrival First)]" "sent_to 2 es = [encode (assigned CLIENT_B), encode (arrival Second)]"
      using stage_second by blast
    have i: "pr_issued p x = (if x = First then 1 else 0)" "pr_issued p' x = 2" for x
      using st sel(3,4) none by (cases x; simp)+
    have "sent_to (socket x) es = map encode (drop (pr_issued p x) (take (pr_issued p' x) (frames C S x)))" for x
      unfolding i using es(2,3) frames_simps(2,3) [of C S x] by (cases x) simp_all
    from did [OF _ this] es(1) st sel(4) i show ?thesis by (simp add: numeral_3_eq_3 numeral_2_eq_2)
  qed
qed

lemma relay_at:
  assumes S: "scripted C S" and ok: "pr_ok p" and more: "pr_relayed p x < pr_emitted p x"
    and p': "p' = p\<lparr>pr_relayed := (pr_relayed p)(x := Suc (pr_relayed p x))\<rparr>"
  shows "\<exists>t es. sy_up (system_at C S host port cls p) x = t # sy_up (system_at C S host port cls p') x
    \<and> server_step C (DataIn (socket x) (utf8_encode t)) (stage host port (pr_stage p)) = (Inr (stage host port (pr_stage p)), es)
    \<and> server_did (stage host port (pr_stage p)) es
        ((system_at C S host port cls p)\<lparr>sy_up := (sy_up (system_at C S host port cls p))
           (x := sy_up (system_at C S host port cls p') x)\<rparr>) = system_at C S host port cls p'"
proof -
  let ?n = "system_at C S host port cls p" and ?n' = "system_at C S host port cls p'" and ?s = "pr_relayed p x"
  have st: "pr_stage p = 3" by (rule pr_okD(7) [OF ok more])
  have lt: "?s < 2" using more emitted_le [of x "pr_received p x" "pr_keys p x"] by (simp add: pr_emitted_def)
  let ?m = "sends C S x ! ?s"
  have m: "relayable C (slot_of x) ?m" by (rule sends_relayable [OF S]) (simp add: lt)
  from stage_relays [OF this] obtain es where es:
    "server_step C (DataIn (socket x) (utf8_encode (encode ?m))) (stage host port 3) = (Inr (stage host port 3), es)"
    "\<And>y. sent_to (socket y) es = (if y = other x then [encode ?m] else [])" by blast
  have em: "pr_emitted p' = pr_emitted p" by (simp add: pr_emitted_def p' fun_eq_iff)
  have "sy_up ?n x = encode ?m # sy_up ?n' x"
    using take_cut [of ?s "pr_emitted p x" "sends C S x"] more lt by (simp add: system_at_def p' em [unfolded p'])
  moreover have "server_did (stage host port (pr_stage p')) es (?n\<lparr>sy_up := (sy_up ?n)(x := sy_up ?n' x)\<rparr>) = ?n'"
  proof (rule server_did_at [OF ok])
    show "pr_issued p y \<le> pr_issued p' y" for y by (cases x; cases y) (simp_all add: p')
    show "?n\<lparr>sy_up := (sy_up ?n)(x := sy_up ?n' x)\<rparr> = ?n\<lparr>sy_up := sy_up ?n'\<rparr>"
      by (simp add: system_at_def fun_eq_iff em) (simp add: p')
    have i: "pr_issued p' y = (if y = other x then 3 + ?s else pr_issued p y)" "pr_issued p (other x) = 2 + ?s" for y
      using st by (cases x; cases y; simp add: p')+
    show "sent_to (socket y) es = map encode (drop (pr_issued p y) (take (pr_issued p' y) (frames C S y)))" for y
    proof (cases "y = other x")
      case True
      have "other (other x) = x" by (cases x) simp_all
      with True es(2) i frames_simps(4) [OF lt, of C S "other x"] show ?thesis by simp
    next
      case False
      with es(2) i show ?thesis by simp
    qed
  qed (simp_all add: p')
  ultimately show ?thesis using es(1) st by (auto simp: p')
qed

lemma receive_at:
  assumes S: "scripted C S" and st: "starts C S cls" and ok: "pr_ok p" and more: "pr_received p x < pr_issued p x"
    and p': "p' = p\<lparr>pr_received := (pr_received p)(x := Suc (pr_received p x))\<rparr>"
  shows "\<exists>t cl es. sy_down (system_at C S host port cls p) x = t # sy_down (system_at C S host port cls p') x
    \<and> client_step C (DataChunk (utf8_encode t)) (sy_client (system_at C S host port cls p) x) = (Inr cl, es)
    \<and> client_did x cl es ((system_at C S host port cls p)\<lparr>sy_down := (sy_down (system_at C S host port cls p))
        (x := sy_down (system_at C S host port cls p') x)\<rparr>) = system_at C S host port cls p'"
proof -
  let ?n = "system_at C S host port cls p" and ?n' = "system_at C S host port cls p'" and ?c = "pr_received p x"
  have lt: "?c < 4" using more pr_okD(4) [OF ok, of x] by simp
  have cl: "unassigned (cls x)" using st by (simp add: starts_def)
  have kd: "pr_keys p x \<longrightarrow> ?c \<noteq> 0" using pr_okD(6) [OF ok] by blast
  obtain es where es:
    "client_step C (DataChunk (utf8_encode (encode (frames C S x ! ?c)))) (client_after C S x (cls x) ?c (pr_keys p x))
      = (Inr (client_after C S x (cls x) (Suc ?c) (pr_keys p x)), es)"
    "writes es = map encode (drop (emitted x ?c (pr_keys p x)) (take (emitted x (Suc ?c) (pr_keys p x)) (sends C S x)))"
    using receive_frame [OF S cl lt kd] by blast
  have i: "pr_issued p' = pr_issued p"
  proof
    show "pr_issued p' y = pr_issued p y" for y by (cases y) (simp_all add: p')
  qed
  have "sy_down ?n x = encode (frames C S x ! ?c) # sy_down ?n' x"
    using take_cut [of ?c "pr_issued p x" "frames C S x"] more lt by (simp add: system_at_def i) (simp add: p')
  moreover have "client_did x (client_after C S x (cls x) (Suc ?c) (pr_keys p x)) es
      (?n\<lparr>sy_down := (sy_down ?n)(x := sy_down ?n' x)\<rparr>) = ?n'"
  proof (rule client_did_at [OF ok])
    show "pr_emitted p x \<le> pr_emitted p' x" by (simp add: pr_emitted_def p' emitted_mono)
    show "writes es = map encode (drop (pr_emitted p x) (take (pr_emitted p' x) (sends C S x)))"
      using es(2) by (simp add: pr_emitted_def p')
    show "?n\<lparr>sy_down := (sy_down ?n)(x := sy_down ?n' x)\<rparr> = ?n\<lparr>sy_down := sy_down ?n'\<rparr>"
      by (simp add: system_at_def fun_eq_iff i) (simp add: p')
  qed (simp_all add: p')
  moreover have "sy_client ?n x = client_after C S x (cls x) ?c (pr_keys p x)" by (simp add: system_at_def)
  ultimately show ?thesis using es(1) by auto
qed

lemma keys_at:
  assumes S: "scripted C S" and st: "starts C S cls" and ok: "pr_ok p" and due: "pr_received p x \<noteq> 0" "\<not> pr_keys p x"
    and p': "p' = p\<lparr>pr_keys := (pr_keys p)(x := True)\<rparr>"
  shows "\<exists>cl es. client_step C KeysDue (sy_client (system_at C S host port cls p) x) = (Inr cl, es)
    \<and> client_did x cl es (system_at C S host port cls p) = system_at C S host port cls p'"
proof -
  let ?n = "system_at C S host port cls p" and ?n' = "system_at C S host port cls p'" and ?c = "pr_received p x"
  have c: "0 < ?c" "?c \<le> 4" using due(1) pr_okD(1,4) [OF ok, of x] by auto
  obtain es where es:
    "client_step C KeysDue (client_after C S x (cls x) ?c False) = (Inr (client_after C S x (cls x) ?c True), es)"
    "writes es = map encode (take (emitted x ?c True) (sends C S x))"
    using keys_frame [OF S st c] by blast
  have i: "pr_issued p' = pr_issued p"
  proof
    show "pr_issued p' y = pr_issued p y" for y by (cases y) (simp_all add: p')
  qed
  have em: "pr_emitted p x = 0" using due(2) by (simp add: pr_emitted_def emitted_def)
  have "client_did x (client_after C S x (cls x) ?c True) es ?n = ?n'"
  proof (rule client_did_at [OF ok])
    show "writes es = map encode (drop (pr_emitted p x) (take (pr_emitted p' x) (sends C S x)))"
      using es(2) by (simp add: em) (simp add: pr_emitted_def p')
    show "?n = ?n\<lparr>sy_down := sy_down ?n'\<rparr>" by (simp add: system_at_def i) (simp add: p')
  qed (simp_all add: p' em [unfolded p'])
  moreover have "sy_client ?n x = client_after C S x (cls x) ?c False" using due(2) by (simp add: system_at_def)
  ultimately show ?thesis using es(1) by auto
qed

lemma pr_ok_step:
  assumes "pr_ok p" "pr_stage p' \<le> 3" "\<And>y. pr_issued p y \<le> pr_issued p' y" "\<And>y. pr_emitted p y \<le> pr_emitted p' y"
    and "\<And>y. pr_received p' y \<le> pr_issued p y" "\<And>y. pr_relayed p' y \<le> pr_emitted p y"
    and "\<And>y. pr_keys p' y \<Longrightarrow> pr_received p' y \<noteq> 0" "\<And>y. pr_stage p' < 3 \<Longrightarrow> pr_relayed p' y = 0"
  shows "pr_ok p'"
proof -
  have "pr_received p' y \<le> pr_issued p' y" "pr_relayed p' y \<le> pr_emitted p' y" for y
    using assms(3-6) order_trans by blast+
  with assms(2,7,8) show ?thesis by (simp add: pr_ok_def)
qed

lemma pr_next_ok: "pr_next p p' \<Longrightarrow> pr_ok p \<Longrightarrow> pr_ok p' \<and> pr_steps p' = Suc (pr_steps p)"
proof (induction rule: pr_next.induct)
  case (next_stage p)
  let ?p' = "p\<lparr>pr_stage := Suc (pr_stage p)\<rparr>"
  have none: "pr_relayed p y = 0" for y using next_stage by (simp add: pr_ok_def)
  have "pr_ok ?p'"
  proof (rule pr_ok_step [OF next_stage(2)])
    show "pr_issued p y \<le> pr_issued ?p' y" for y using none by (cases y) simp_all
  qed (use next_stage pr_okD [OF next_stage(2)] none in \<open>simp_all add: pr_emitted_def\<close>)
  then show ?case by (simp add: pr_steps_def)
next
  case (next_relay p x)
  let ?p' = "p\<lparr>pr_relayed := (pr_relayed p)(x := Suc (pr_relayed p x))\<rparr>"
  have "pr_stage p = 3" by (rule pr_okD(7) [OF next_relay(2,1)])
  moreover have "pr_emitted ?p' y = pr_emitted p y" for y by (simp add: pr_emitted_def)
  moreover have "pr_issued p y \<le> pr_issued ?p' y" for y by (cases x; cases y) simp_all
  ultimately have "pr_ok ?p'"
    by (intro pr_ok_step [OF next_relay(2)])
      (use next_relay(1) pr_okD(1,2,6) [OF next_relay(2)] in \<open>simp_all add: Suc_le_eq\<close>)
  then show ?case by (cases x) (simp_all add: pr_steps_def)
next
  case (next_receive p x)
  let ?p' = "p\<lparr>pr_received := (pr_received p)(x := Suc (pr_received p x))\<rparr>"
  have "pr_issued ?p' y = pr_issued p y" for y by (cases y) simp_all
  moreover have "pr_emitted p y \<le> pr_emitted ?p' y" for y by (simp add: pr_emitted_def emitted_mono)
  moreover have "pr_stage p < 3 \<longrightarrow> pr_relayed p y = 0" for y using next_receive(2) by (simp add: pr_ok_def)
  ultimately have "pr_ok ?p'"
    by (intro pr_ok_step [OF next_receive(2)])
      (use next_receive(1) pr_okD(1,2,5,6) [OF next_receive(2)] in \<open>simp_all add: Suc_le_eq\<close>)
  then show ?case by (cases x) (simp_all add: pr_steps_def)
next
  case (next_keys p x)
  let ?p' = "p\<lparr>pr_keys := (pr_keys p)(x := True)\<rparr>"
  have "pr_issued ?p' y = pr_issued p y" for y by (cases y) simp_all
  moreover have "pr_emitted p y \<le> pr_emitted ?p' y" for y
    using next_keys(2) by (cases "y = x") (simp_all add: pr_emitted_def emitted_def)
  moreover have "pr_stage p < 3 \<longrightarrow> pr_relayed p y = 0" for y using next_keys(3) by (simp add: pr_ok_def)
  ultimately have "pr_ok ?p'"
    by (intro pr_ok_step [OF next_keys(3)])
      (use next_keys(1) pr_okD(1,2,5,6) [OF next_keys(3)] in \<open>simp_all split: if_splits\<close>)
  then show ?case using next_keys(2) by (cases x) (simp_all add: pr_steps_def)
qed

lemma cut_more: "map f (drop i (take j xs)) = t # ts \<Longrightarrow> i < j"
  by (rule ccontr) simp

lemma stage_possible:
  "possible (stage host port p) Listening \<longleftrightarrow> p = 0"
  "possible (stage host port p) (Connect (socket x) remote) \<longleftrightarrow> (case x of First \<Rightarrow> p = 1 | Second \<Rightarrow> p = 1 \<or> p = 2)"
  "sv_sockets (stage host port p) (socket First) \<noteq> Unseen \<longleftrightarrow> 2 \<le> p"
  "possible (stage host port 3) (DataIn (socket x) b)"
  by (cases x; auto simp: stage_def)+

text \<open>The steps of the system are those of its progress.\<close>

lemma progress_step:
  assumes S: "scripted C S" and st: "starts C S cls" and ok: "pr_ok p" and next_p: "pr_next p p'"
  shows "sys_step C (system_at C S host port cls p) (system_at C S host port cls p')"
  using next_p
proof cases
  case next_stage
  let ?n = "system_at C S host port cls p"
  have sv: "sy_server ?n = stage host port (pr_stage p)" by (simp add: system_at_def)
  have "pr_stage p = 0 \<or> pr_stage p = 1 \<or> pr_stage p = 2" using next_stage(2) by auto
  then show ?thesis
  proof (elim disjE)
    assume at: "pr_stage p = 0"
    with stage_at(1) [OF ok next_stage(1), of C host port S cls] obtain es where
      es: "server_step C Listening (stage host port 0) = (Inr (stage host port 1), es)"
        "server_did (stage host port 1) es ?n = system_at C S host port cls p'" by blast
    have "sys_step C ?n (server_did (stage host port 1) es ?n)"
      by (rule sys_step.listen) (simp_all only: sv at es(1) stage_possible)
    with es(2) show ?thesis by simp
  next
    assume at: "pr_stage p = 1"
    with stage_at(2) [OF ok next_stage(1), of C "[]" host port S cls] obtain es where
      es: "server_step C (Connect (socket First) []) (stage host port 1) = (Inr (stage host port 2), es)"
        "server_did (stage host port 2) es ?n = system_at C S host port cls p'" by auto
    have "sys_step C ?n (server_did (stage host port 2) es ?n)"
      by (rule sys_step.connect [where x = First and remote = "[]"])
        (simp_all only: sv at es(1) stage_possible side.simps simp_thms)
    with es(2) show ?thesis by simp
  next
    assume at: "pr_stage p = 2"
    with stage_at(3) [OF ok next_stage(1), of C "[]" host port S cls] obtain es where
      es: "server_step C (Connect (socket Second) []) (stage host port 2) = (Inr (stage host port 3), es)"
        "server_did (stage host port 3) es ?n = system_at C S host port cls p'" by auto
    have "sys_step C ?n (server_did (stage host port 3) es ?n)"
      by (rule sys_step.connect [where x = Second and remote = "[]"])
        (simp_all only: sv at es(1) stage_possible side.simps simp_thms order_refl)
    with es(2) show ?thesis by simp
  qed
next
  case (next_relay x)
  let ?n = "system_at C S host port cls p" and ?n' = "system_at C S host port cls p'"
  have at: "pr_stage p = 3" by (rule pr_okD(7) [OF ok next_relay(2)])
  have sv: "sy_server ?n = stage host port 3" by (simp add: system_at_def at)
  from relay_at [OF S ok next_relay(2,1), of host port cls] at obtain t es where
    t: "sy_up ?n x = t # sy_up ?n' x"
    and es: "server_step C (DataIn (socket x) (utf8_encode t)) (stage host port 3) = (Inr (stage host port 3), es)"
    and did: "server_did (stage host port 3) es (?n\<lparr>sy_up := (sy_up ?n)(x := sy_up ?n' x)\<rparr>) = ?n'" by auto
  have "sys_step C ?n (server_did (stage host port 3) es (?n\<lparr>sy_up := (sy_up ?n)(x := sy_up ?n' x)\<rparr>))"
    by (rule sys_step.relay [OF t]) (simp_all only: sv es stage_possible)
  with did show ?thesis by simp
next
  case (next_receive x)
  from receive_at [OF S st ok next_receive(2,1), of host port] sys_step.receive show ?thesis by metis
next
  case (next_keys x)
  have "cl_keyTimer (sy_client (system_at C S host port cls p) x) \<noteq> None"
    using next_keys(2,3) st keys_pending [of "cls x" C S x "pr_received p x" "pr_keys p x"]
    by (simp add: system_at_def starts_def)
  with keys_at [OF S st ok next_keys(2,3,1), of host port] sys_step.keys show ?thesis by metis
qed

lemma step_progress:
  assumes S: "scripted C S" and st: "starts C S cls" and ok: "pr_ok p"
    and step: "sys_step C (system_at C S host port cls p) n"
  shows "\<exists>p'. pr_next p p' \<and> n = system_at C S host port cls p'"
  using step
proof cases
  case (listen sv es)
  have at: "pr_stage p = 0" using listen(2) by (simp only: system_at_def system.simps stage_possible)
  from listen stage_at(1) [OF ok refl at, of C host port S cls] have
    "n = system_at C S host port cls (p\<lparr>pr_stage := Suc (pr_stage p)\<rparr>)"
    by (auto simp: system_at_def at)
  with at next_stage [of p] show ?thesis by auto
next
  case (connect x remote sv es)
  show ?thesis
  proof (cases x)
    case First
    have at: "pr_stage p = 1" using connect(2) First by (simp only: system_at_def system.simps stage_possible side.simps)
    from connect First stage_at(2) [OF ok refl at, of C remote host port S cls] have
      "n = system_at C S host port cls (p\<lparr>pr_stage := Suc (pr_stage p)\<rparr>)"
      by (auto simp: system_at_def at)
    with at next_stage [of p] show ?thesis by auto
  next
    case Second
    have "pr_stage p = 1 \<or> pr_stage p = 2" "2 \<le> pr_stage p"
      using connect(2,3) Second by (simp_all only: system_at_def system.simps stage_possible side.simps simp_thms)
    then have at: "pr_stage p = 2" by auto
    from connect Second stage_at(3) [OF ok refl at, of C remote host port S cls] have
      "n = system_at C S host port cls (p\<lparr>pr_stage := Suc (pr_stage p)\<rparr>)"
      by (auto simp: system_at_def at)
    with at next_stage [of p] show ?thesis by auto
  qed
next
  case (relay x t rest sv es)
  have "map encode (drop (pr_relayed p x) (take (pr_emitted p x) (sends C S x))) = t # rest"
    using relay(2) by (simp add: system_at_def)
  then have more: "pr_relayed p x < pr_emitted p x" by (rule cut_more)
  let ?p' = "p\<lparr>pr_relayed := (pr_relayed p)(x := Suc (pr_relayed p x))\<rparr>"
  let ?n = "system_at C S host port cls p" and ?n' = "system_at C S host port cls ?p'"
  have sv: "sy_server ?n = stage host port (pr_stage p)" by (simp add: system_at_def)
  obtain es' where "sy_up ?n x = t # sy_up ?n' x"
    and step: "server_step C (DataIn (socket x) (utf8_encode t)) (stage host port (pr_stage p))
      = (Inr (stage host port (pr_stage p)), es')"
    and did: "server_did (stage host port (pr_stage p)) es' (?n\<lparr>sy_up := (sy_up ?n)(x := sy_up ?n' x)\<rparr>) = ?n'"
    using relay_at [OF S ok more refl, of host port cls] relay(2) by auto
  then have "rest = sy_up ?n' x" using relay(2) by simp
  moreover from step have "sv = stage host port (pr_stage p)" "es = es'"
    using relay(4) unfolding sv by simp_all
  ultimately have "n = ?n'" using relay(1) did by simp
  with next_relay [of p x] more show ?thesis by blast
next
  case (receive x t rest cl es)
  have "map encode (drop (pr_received p x) (take (pr_issued p x) (frames C S x))) = t # rest"
    using receive(2) by (simp add: system_at_def)
  then have more: "pr_received p x < pr_issued p x" by (rule cut_more)
  let ?p' = "p\<lparr>pr_received := (pr_received p)(x := Suc (pr_received p x))\<rparr>"
  let ?n = "system_at C S host port cls p" and ?n' = "system_at C S host port cls ?p'"
  obtain cl' es' where "sy_down ?n x = t # sy_down ?n' x"
    and step: "client_step C (DataChunk (utf8_encode t)) (sy_client ?n x) = (Inr cl', es')"
    and did: "client_did x cl' es' (?n\<lparr>sy_down := (sy_down ?n)(x := sy_down ?n' x)\<rparr>) = ?n'"
    using receive_at [OF S st ok more refl, of host port] receive(2) by auto
  then have "rest = sy_down ?n' x" using receive(2) by simp
  moreover from step have "cl = cl'" "es = es'" using receive(3) by simp_all
  ultimately have "n = ?n'" using receive(1) did by simp
  with next_receive [of p x] more show ?thesis by blast
next
  case (keys x cl es)
  have due: "pr_received p x \<noteq> 0" "\<not> pr_keys p x"
    using keys(2) st keys_pending [of "cls x" C S x "pr_received p x" "pr_keys p x"]
    by (simp_all add: system_at_def starts_def)
  let ?p' = "p\<lparr>pr_keys := (pr_keys p)(x := True)\<rparr>"
  let ?n = "system_at C S host port cls p" and ?n' = "system_at C S host port cls ?p'"
  obtain cl' es' where step: "client_step C KeysDue (sy_client ?n x) = (Inr cl', es')"
    and did: "client_did x cl' es' ?n = ?n'"
    using keys_at [OF S st ok due refl, of host port] by blast
  from step have "cl = cl'" "es = es'" using keys(3) by simp_all
  then have "n = ?n'" using keys(1) did by simp
  with next_keys [OF due] show ?thesis by blast
qed

section \<open>The whole run\<close>

lemma pr_steps_le: "pr_ok p \<Longrightarrow> pr_steps p \<le> 17"
proof -
  assume ok: "pr_ok p"
  have c: "pr_received p First \<le> 4" "pr_received p Second \<le> 4"
    using order_trans [OF pr_okD(1) [OF ok] pr_okD(4) [OF ok]] by blast+
  have k: "of_bool (pr_keys p First) \<le> (1 :: nat)" "of_bool (pr_keys p Second) \<le> (1 :: nat)" by simp_all
  show ?thesis
    using c k pr_okD(5) [OF ok] pr_okD(3) [OF ok, of First] pr_okD(3) [OF ok, of Second]
    unfolding pr_steps_def by linarith
qed

text \<open>If nothing is left to happen, everything has happened.\<close>

lemma stuck_final:
  assumes ok: "pr_ok p" and stuck: "\<nexists>p'. pr_next p p'"
  shows "pr_stage p = 3" "pr_received p x = 4" "pr_keys p x" "pr_relayed p x = 2"
proof -
  show st: "pr_stage p = 3"
    using stuck next_stage [of p] pr_okD(5) [OF ok] by (meson le_neq_implies_less)
  have r: "pr_received p y = pr_issued p y" for y
    using stuck next_receive [of p y] pr_okD(1) [OF ok, of y] by (meson le_neq_implies_less)
  have e: "pr_relayed p y = pr_emitted p y" for y
    using stuck next_relay [of p y] pr_okD(2) [OF ok, of y] by (meson le_neq_implies_less)
  have issued: "pr_issued p First = 2 + pr_relayed p Second" "pr_issued p Second = 2 + pr_relayed p First"
    using st by simp_all
  have "pr_received p y \<noteq> 0" for y using issued by (cases y) (simp_all add: r)
  then have keys: "pr_keys p y" for y using stuck next_keys [of p y] by blast
  then show "pr_keys p x" .
  have first: "pr_relayed p First = min (1 + pr_relayed p Second) 2"
    by (simp add: e [of First] pr_emitted_def emitted_def keys r issued del: pr_issued.simps)
  have second: "pr_relayed p Second = (if pr_relayed p First < 2 then 1 else 2)"
    by (simp add: e [of Second] pr_emitted_def emitted_def keys r issued del: pr_issued.simps)
  have "pr_relayed p First = 2 \<and> pr_relayed p Second = 2"
    using first second by (auto simp: min_def split: if_splits)
  then show "pr_relayed p x = 2" "pr_received p x = 4" using issued by (cases x; simp add: r)+
qed

definition secured :: "'r system \<Rightarrow> bool" where
  "secured n \<longleftrightarrow>
     (\<exists>sA sB. cl_session (sy_client n First) = Some sA \<and> cl_session (sy_client n Second) = Some sB
        \<and> ps_selfId sA = CLIENT_A \<and> ps_selfId sB = CLIENT_B
        \<and> ps_state sA = ESTABLISHED \<and> ps_state sB = ESTABLISHED \<and> ps_sessionId sA = ps_sessionId sB
        \<and> the_key sA (cl_world (sy_client n First)) = the_key sB (cl_world (sy_client n Second))
        \<and> length (the_key sA (cl_world (sy_client n First))) = 32)
     \<and> (\<forall>x. sy_up n x = [] \<and> sy_down n x = [])"

definition none_failed :: "'r system \<Rightarrow> bool" where
  "none_failed n \<longleftrightarrow> (\<forall>x s. cl_session (sy_client n x) = Some s \<longrightarrow> ps_state s \<noteq> FAILED)"

lemma runs_at:
  assumes "scripted C S" "starts C S cls" "(sys_step C ^^ k) (system_at C S host port cls pr_start) n"
  shows "\<exists>p. pr_ok p \<and> pr_steps p = k \<and> n = system_at C S host port cls p"
  using assms(3)
proof (induction k arbitrary: n)
  case 0
  have "pr_ok pr_start" "pr_steps pr_start = 0" by (simp_all add: pr_ok_def pr_start_def pr_steps_def)
  with 0 show ?case by auto
next
  case (Suc k)
  then obtain m where "(sys_step C ^^ k) (system_at C S host port cls pr_start) m" "sys_step C m n" by auto
  with Suc.IH obtain p where "pr_ok p" "pr_steps p = k" "sys_step C (system_at C S host port cls p) n" by blast
  with step_progress [OF assms(1,2)] pr_next_ok show ?case by metis
qed

lemma full_progress_secured:
  assumes "scripted C S" "pr_stage p = 3" "\<And>x. pr_received p x = 4" "\<And>x. pr_keys p x" "\<And>x. pr_relayed p x = 2"
  shows "secured (system_at C S host port cls p)"
proof -
  have "the_key (sessA S 3) (sc_wA' S) = sc_key S" "the_key (sessB S 3) (sc_wB' S) = sc_key S" "length (sc_key S) = 32"
    using assms(1) by (simp_all add: the_key_def sessA_def sessB_def Let_def scripted_def)
  moreover have "ps_selfId (sessA S 3) = CLIENT_A" "ps_selfId (sessB S 3) = CLIENT_B"
    by (simp_all add: sessA_def sessB_def fresh_def with_peer_keys_def slot_is_name Let_def)
  moreover have "ps_state (sessA S 3) = ESTABLISHED" "ps_state (sessB S 3) = ESTABLISHED"
    "ps_sessionId (sessA S 3) = ps_sessionId (sessB S 3)"
    by (simp_all add: sessA_def sessB_def Let_def)
  moreover have "pr_issued p x = 4" "pr_emitted p x \<le> 2" for x
    using assms(2,5) emitted_le by (cases x; simp add: pr_emitted_def)+
  ultimately show ?thesis
    by (simp add: secured_def system_at_def assms(3-5) client_after_def live_at_def live_def)
qed

lemma system_not_failed: "starts C S cls \<Longrightarrow> (\<And>x. cl_session (cls x) = None) \<Longrightarrow> none_failed (system_at C S host port cls p)"
proof -
  assume none: "\<And>x. cl_session (cls x) = None"
  have "ps_state (session_at S x n) \<noteq> FAILED" for x n by (cases x) (simp_all add: config_not_failed)
  then show ?thesis
    using none by (simp add: none_failed_def system_at_def client_after_def live_at_def live_def named_def)
qed

text \<open>Every start of the two clients has its script.\<close>

definition fresh_clients :: "(side \<Rightarrow> bool) \<Rightarrow> jsstring \<Rightarrow> (side \<Rightarrow> 'r world) \<Rightarrow> side \<Rightarrow> 'r client" where
  "fresh_clients tty server w x = fst (client_start (tty x) server (w x))"

lemma script_for:
  assumes "module_ok C" "\<And>x. client_ok C (fst (createIdentity C (w_entropy (w x))))"
  obtains S where "scripted C S" "starts C S (fresh_clients tty server w)"
proof -
  let ?i = "\<lambda>x. fst (createIdentity C (w_entropy (w x)))"
  let ?v = "\<lambda>x. (w x)\<lparr>w_entropy := snd (createIdentity C (w_entropy (w x)))\<rparr>"
  obtain S where S: "scripted C S" "sc_iA S = ?i First" "sc_iB S = ?i Second"
    "sc_wA S = ?v First" "sc_wB S = ?v Second"
    by (rule script_exists [OF assms(1) assms(2) assms(2)])
  have world: "cl_world (fresh_clients tty server w x) = w x" for x
    by (simp add: fresh_clients_def client_start_def)
  have "world_at S x 0 = ?v x" for x by (cases x) (simp_all add: S)
  moreover have "ps_identity (session_at S x 0) = ?i x" for x by (cases x) (simp_all add: S session_at_fields)
  ultimately have "starts C S (fresh_clients tty server w)"
    by (simp add: starts_def world) (simp add: fresh_clients_def started_unassigned)
  with S(1) that show ?thesis by blast
qed

lemma program_runs:
  assumes "module_ok C" "\<And>x. client_ok C (fst (createIdentity C (w_entropy (w x))))"
    and "(sys_step C ^^ k) (sys_start (server_start host port) (fresh_clients tty server w)) n"
  shows "k \<le> 17" "(\<nexists>m. sys_step C n m) \<longleftrightarrow> k = 17" "k = 17 \<Longrightarrow> secured n" "none_failed n"
proof -
  let ?cls = "fresh_clients tty server w"
  obtain S where S: "scripted C S" and st: "starts C S ?cls" by (rule script_for [OF assms(1,2)])
  have zero: "pr_issued pr_start x = 0" "pr_emitted pr_start x = 0" for x
    by (cases x; simp add: pr_start_def pr_emitted_def emitted_def)+
  have "sys_start (server_start host port) ?cls = system_at C S host port ?cls pr_start"
    by (simp add: sys_start_def system_at_def zero) (simp add: pr_start_def stage_start client_after_def)
  with assms(3) runs_at [OF S st] obtain p where p: "pr_ok p" "pr_steps p = k" "n = system_at C S host port ?cls p"
    by metis
  show "k \<le> 17" using pr_steps_le [OF p(1)] p(2) by simp
  have none: "cl_session (?cls x) = None" for x by (simp add: fresh_clients_def client_start_def)
  show "none_failed n" unfolding p(3) by (rule system_not_failed [OF st none])
  have stuck: "(\<nexists>m. sys_step C n m) \<longleftrightarrow> (\<nexists>p'. pr_next p p')"
    using progress_step [OF S st p(1)] step_progress [OF S st p(1)] unfolding p(3) by metis
  have full: "secured n \<and> k = 17" if "\<nexists>p'. pr_next p p'"
  proof -
    note final = stuck_final [OF p(1) that]
    have "pr_steps p = 17" by (simp add: pr_steps_def final)
    with full_progress_secured [OF S final] p(2,3) show ?thesis by simp
  qed
  have ends: "\<nexists>p'. pr_next p p'" if "k = 17"
    using pr_next_ok [OF _ p(1)] pr_steps_le p(2) that by fastforce
  show "(\<nexists>m. sys_step C n m) \<longleftrightarrow> k = 17" using stuck full ends by blast
  show "k = 17 \<Longrightarrow> secured n" using full ends by blast
qed


definition sample_worlds :: "side \<Rightarrow> nat world" where
  "sample_worlds x = \<lparr>w_entropy = socket x, w_heap = []\<rparr>"

lemma sample_generated: "client_ok sample_crypto (fst (createIdentity sample_crypto (w_entropy (sample_worlds x))))"
proof -
  have "fst (createIdentity sample_crypto (w_entropy (sample_worlds x)))
      = sample_identity (of_nat (socket x)) (of_nat (socket x + 1))"
    by (cases x) (simp_all add: createIdentity_def generateKeyPair_def sample_crypto_def sample_identity_def
        sample_worlds_def)
  moreover have "of_nat (socket x) \<noteq> (of_nat (socket x + 1) :: 8 word)" by (cases x) simp_all
  ultimately show ?thesis using sample_client by simp
qed


end
