(* ===== verification/ServerOutput.thy ===== *)
theory ServerOutput
  imports ClientScript
begin

text \<open>
  Everything the server sends is the protocol: each text it writes is one line that parses
  to a message its receiver accepts, in every state the server reaches. The reasons of
  rejected messages, which it sends back, are never blank.
\<close>

section \<open>Reasons are not blank\<close>

lemma trim_append_Nil: "trim (s @ t) = [] \<longleftrightarrow> trim s = [] \<and> trim t = []"
  by (auto simp: trim_eq_Nil_iff)

lemma trim_js_Cons: "trim (js (c # s)) = [] \<longleftrightarrow> is_js_space (unit_of c) \<and> trim (js s) = []"
  by (auto simp: trim_eq_Nil_iff js_def)

lemmas blank_simps = trim_append_Nil trim_js_Cons is_js_space_def unit_of_def

text \<open>A validation that is not an error has a reason that is not blank; rules for its branches.\<close>

definition speaks :: "js_error + validation \<Rightarrow> bool" where
  "speaks v \<longleftrightarrow> (\<forall>r. v = Inr (Invalid r) \<longrightarrow> trim r \<noteq> [])"

lemma speaks_Invalid: "trim r \<noteq> [] \<Longrightarrow> speaks (Inr (Invalid r))"
  by (simp add: speaks_def)

lemma speaks_Valid: "speaks (Inr Valid)"
  by (simp add: speaks_def)

lemma speaks_if: "speaks x \<Longrightarrow> speaks y \<Longrightarrow> speaks (if b then x else y)"
  by simp

lemma speaks_bind: "(\<And>t. speaks (f t)) \<Longrightarrow> speaks (try_bind x f)"
  by (cases x) (simp_all add: speaks_def)

lemma speaks_option: "speaks x \<Longrightarrow> (\<And>t. speaks (f t)) \<Longrightarrow> speaks (case ov of None \<Rightarrow> x | Some t \<Rightarrow> f t)"
  by (simp split: option.split)

lemmas speaks_rules = speaks_if speaks_bind speaks_option speaks_Invalid speaks_Valid

lemma public_key_reason: "parsePublicKeyField C msg f = Inl r \<Longrightarrow> trim r \<noteq> []"
  by (auto simp: parsePublicKeyField_def Let_def blank_simps split: if_splits sum.splits)

lemma hello_reason: "speaks (Inr (validateHello C msg))"
  by (auto simp: speaks_def validateHello_def blank_simps dest: public_key_reason split: sum.splits if_splits)

lemma exchange_reason: "speaks (Inr (validateExchange msg))"
  unfolding validateExchange_def Let_def if_distrib [of Inr]
  by (intro speaks_rules) (simp_all add: blank_simps)

lemma handshake_reason: "speaks (validateHandshakeMessage C msg)"
  unfolding validateHandshakeMessage_def Let_def
  by (intro speaks_rules hello_reason exchange_reason) (simp_all add: blank_simps)

lemma reason_nonblank: "validateMessage C msg = Inr (Invalid r) \<Longrightarrow> trim r \<noteq> []"
proof -
  have "speaks (validateMessage C msg)"
    unfolding validateMessage_def Let_def
    by (intro speaks_rules handshake_reason) (simp_all add: blank_simps)
  then show "validateMessage C msg = Inr (Invalid r) \<Longrightarrow> trim r \<noteq> []" by (simp add: speaks_def)
qed

section \<open>Lines of the protocol\<close>

text \<open>A text that is one line with a message that a receiver accepts.\<close>

definition spoken :: "'r node_crypto \<Rightarrow> jsstring \<Rightarrow> bool" where
  "spoken C t \<longleftrightarrow>
     (\<exists>line msg. t = line @ [10] \<and> 10 \<notin> set line \<and> trim line \<noteq> [] \<and> decode line = Inr msg
        \<and> validateMessage C msg = Inr Valid)"

definition all_spoken :: "'r node_crypto \<Rightarrow> effect list \<Rightarrow> bool" where
  "all_spoken C es \<longleftrightarrow> (\<forall>k t. Write k t \<in> set es \<or> End k (Some t) \<in> set es \<longrightarrow> spoken C t)"

lemma spoken_encode: "json_ok m \<Longrightarrow> validateMessage C m = Inr Valid \<Longrightarrow> spoken C (encode m)"
  unfolding spoken_def using valid_frame [of m C] json_text_no_newline [of m] encode_text [of m] by blast

lemma all_spoken_simps [simp]:
  "all_spoken C []" "all_spoken C (es @ es') \<longleftrightarrow> all_spoken C es \<and> all_spoken C es'"
  "all_spoken C (Log l # es) \<longleftrightarrow> all_spoken C es" "all_spoken C (LogError l e # es) \<longleftrightarrow> all_spoken C es"
  "all_spoken C (Console l # es) \<longleftrightarrow> all_spoken C es" "all_spoken C (ConsoleError l # es) \<longleftrightarrow> all_spoken C es"
  "all_spoken C (End k None # es) \<longleftrightarrow> all_spoken C es" "all_spoken C (StartTimer k # es) \<longleftrightarrow> all_spoken C es"
  "all_spoken C (ExitProcess n # es) \<longleftrightarrow> all_spoken C es" "all_spoken C (CloseListener # es) \<longleftrightarrow> all_spoken C es"
  "all_spoken C (FallbackTimer # es) \<longleftrightarrow> all_spoken C es"
  "all_spoken C (End k (Some t) # es) \<longleftrightarrow> spoken C t \<and> all_spoken C es"
  by (auto simp: all_spoken_def)

lemma all_spoken_if:
  "(b \<Longrightarrow> all_spoken C x) \<Longrightarrow> (\<not> b \<Longrightarrow> all_spoken C y) \<Longrightarrow> all_spoken C (if b then x else y)"
  by simp

lemma writeTo_spoken: "spoken C t \<Longrightarrow> all_spoken C (writeTo sv so t)"
  by (auto simp: all_spoken_def writeTo_def split: option.splits if_splits)

lemma error_spoken: "trim r \<noteq> [] \<Longrightarrow> spoken C (encode (error_msg r))"
  using validate_plain_iff [of "error_msg r" ERROR C]
  by (intro spoken_encode) (simp_all add: error_msg_def createErrorMessage_def obj_def array_index_def js_def
      unit_of_def is_digit_def PROTOCOL_VERSION_def optional_version_def nonblank_def)

lemma system_spoken: "trim t \<noteq> [] \<Longrightarrow> spoken C (encode (system_msg t))"
  by (intro spoken_encode notice_ok notice_valid)

lemma event_spoken:
  assumes "e = PEER_JOINED \<or> e = PEER_LEFT" "slot \<in> set SLOTS" "trim t \<noteq> []"
  shows "spoken C (encode (peer_event_msg e slot t))"
  using validate_plain_iff [of "peer_event_msg e slot t" SYSTEM C] assms slot_texts(2,3)
  by (intro spoken_encode notice_ok)
    (auto simp: notice_fields notice_version optional_version_def nonblank_def event_schema_def SLOTS_def)

lemmas sends_spoken = writeTo_spoken error_spoken system_spoken event_spoken

section \<open>The handlers\<close>

lemma relay_spoken:
  assumes "slot \<in> set SLOTS" "validateMessage C msg = Inr Valid" "decode line = Inr msg" "trim line \<noteq> []" "10 \<notin> set line"
  shows "all_spoken C (relay sv k slot line msg)"
proof -
  let ?ty = "text_of (field msg ''type'')"
  have line: "spoken C (line @ [10])" unfolding spoken_def using assms(2-5) by blast
  have undelivered: "all_spoken C (send sv (Some k) (system_msg (otherSlot slot @ js '' is not connected. Message not delivered.'')))"
    unfolding send_def by (intro sends_spoken) (simp add: blank_simps)
  have chat: "spoken C (encode (createChatMessage (VStr slot) (field msg ''text'') PROTOCOL_VERSION))" if "?ty = CHAT"
  proof -
    have "\<not> not_object msg" by (rule valid_not_not_object [OF assms(2)])
    moreover have "field msg ''type'' = VStr CHAT" using that by (cases "field msg ''type''") (simp_all add: js_def)
    ultimately have "nonblank (field msg ''text'')" using validate_plain_iff [of msg CHAT C] assms(2) by simp
    then obtain t where "field msg ''text'' = VStr t" "trim t \<noteq> []" by (auto simp: nonblank_def is_string_iff)
    then show ?thesis using spoken_encode [OF chat_ok chat_valid] by simp
  qed
  let ?u = "send sv (Some k) (system_msg (otherSlot slot @ js '' is not connected. Message not delivered.''))"
  have to_peer: "all_spoken C (case so of Some p \<Rightarrow> writeTo sv (Some p) (line @ [10]) | None \<Rightarrow> ?u)" for so
    using line undelivered by (cases so) (simp_all add: writeTo_spoken)
  have chat_to_peer: "all_spoken C (case so of
      Some p \<Rightarrow> send sv (Some p) (createChatMessage (VStr slot) (field msg ''text'') PROTOCOL_VERSION) | None \<Rightarrow> ?u)"
    if "?ty = CHAT" for so
    using chat [OF that] undelivered by (cases so) (simp_all add: writeTo_spoken send_def)
  have refused: "all_spoken C (send sv (Some k) (error_msg (?ty @ js '' sender does not match your connection identity.'')))"
    "all_spoken C (send sv (Some k) (error_msg (?ty @ js '' recipient must be '' @ otherSlot slot @ js ''.'')))"
    "all_spoken C (send sv (Some k) (error_msg (js ''Server does not accept '' @ quoted ?ty @ js '' messages from clients.'')))"
    unfolding send_def by (intro sends_spoken; simp add: blank_simps)+
  show ?thesis unfolding relay_def Let_def
    by (intro all_spoken_if; simp only: append_Cons append_Nil all_spoken_simps to_peer refused chat_to_peer not_not)
qed

lemma handle_line_spoken:
  assumes "slot \<in> set SLOTS" "10 \<notin> set line" "handle_line C sv k slot line = Inr es"
  shows "all_spoken C es"
proof (cases "trim line = []")
  case True
  with assms(3) show ?thesis by (auto simp: handle_line_def)
next
  case False
  show ?thesis
  proof (cases "decode line")
    case (Inl e)
    with False assms(3) show ?thesis
      by (auto simp: handle_line_def send_def blank_simps intro!: writeTo_spoken error_spoken)
  next
    case (Inr msg)
    consider (valid) "validateMessage C msg = Inr Valid" | (invalid) r where "validateMessage C msg = Inr (Invalid r)"
      using False Inr assms(3) by (cases "validateMessage C msg") (auto simp: handle_line_def split: validation.splits)
    then show ?thesis
    proof cases
      case valid
      with relay_spoken [OF assms(1) valid Inr False assms(2), of sv k] False Inr assms(3) show ?thesis
        by (simp add: handle_line_def)
    next
      case invalid
      with False Inr assms(3) reason_nonblank [OF invalid] show ?thesis
        by (auto simp: handle_line_def send_def intro!: writeTo_spoken error_spoken)
    qed
  qed
qed

lemma handle_lines_spoken:
  "slot \<in> set SLOTS \<Longrightarrow> \<forall>line \<in> set ls. 10 \<notin> set line \<Longrightarrow> all_spoken C (fst (handle_lines C sv k slot ls))"
  by (induction ls) (auto simp: handle_line_spoken split: sum.split prod.splits)

lemma on_data_spoken:
  assumes "cn_slot c \<in> set SLOTS" "on_data C k c chunk sv = (r, es)"
  shows "all_spoken C es"
proof (cases "cn_closing c")
  case True
  with assms(2) show ?thesis by (simp add: on_data_def)
next
  case False
  obtain x lb where app: "lb_append (cn_buffer c) (utf8_decode chunk) = (x, lb)" by fastforce
  show ?thesis
  proof (cases x)
    case (Inl e)
    have "spoken C (encode (error_msg frame_limit_text))"
      by (rule error_spoken) (simp add: frame_limit_text_def blank_simps)
    with assms(2) False app Inl show ?thesis by (auto simp: on_data_def)
  next
    case (Inr ls)
    have "\<forall>line \<in> set ls. 10 \<notin> set line"
      using app Inr split_nl_no_newline [of _ "lb_buffer (cn_buffer c) @ utf8_decode chunk"]
      by (auto simp: lb_append_eq Let_def split: if_splits dest: in_set_butlastD)
    from handle_lines_spoken [OF assms(1) this, of C "set_conn k (c\<lparr>cn_buffer := lb\<rparr>) sv" k] assms(2) False app Inr
    show ?thesis by (auto simp: on_data_def Let_def split: prod.splits)
  qed
qed

lemma on_connect_spoken: "all_spoken C (snd (on_connect k remote sv))"
proof -
  have joined: "all_spoken C (send sv' (Some p) (peer_event_msg PEER_JOINED slot (slot @ t)))"
    if "slot \<in> set SLOTS" for sv' p slot t
  proof -
    have "trim slot \<noteq> []" using that by (auto simp: SLOTS_def CLIENT_A_def CLIENT_B_def blank_simps)
    then show ?thesis unfolding send_def using that by (intro writeTo_spoken event_spoken) (simp_all add: trim_append_Nil)
  qed
  show ?thesis
  proof (cases "freeSlot (sv\<lparr>sv_sockets := (sv_sockets sv)(k := Open)\<rparr>)")
    case None
    then show ?thesis
      by (auto simp: on_connect_def Let_def send_def blank_simps intro!: writeTo_spoken error_spoken)
  next
    case (Some slot)
    then have "slot \<in> set SLOTS" "otherSlot slot \<in> set SLOTS" using freeSlot_Some otherSlot_SLOTS by blast+
    moreover have "all_spoken C (send sv' (Some k) (system_msg (js ''Connected as '' @ slot)))" for sv'
      unfolding send_def by (intro writeTo_spoken system_spoken) (simp add: blank_simps)
    ultimately show ?thesis using Some joined by (simp add: on_connect_def Let_def split: option.split)
  qed
qed

lemma on_close_spoken:
  assumes "cn_slot c \<in> set SLOTS"
  shows "all_spoken C (snd (on_close k c sv))"
proof -
  have "all_spoken C (send sv' (Some p) (peer_event_msg PEER_LEFT (cn_slot c) (cn_slot c @ js '' has disconnected.'')))"
    for sv' p
    unfolding send_def using assms by (intro writeTo_spoken event_spoken) (simp_all add: blank_simps)
  then show ?thesis by (simp add: on_close_def Let_def split: option.split)
qed

lemma shutdown_slot_spoken: "all_spoken C (shutdown_slot sv slot)"
  by (auto simp: shutdown_slot_def send_def blank_simps split: option.split intro!: writeTo_spoken system_spoken)

lemma server_step_spoken:
  assumes "server_inv sv" "server_step C ev sv = (r, es)"
  shows "all_spoken C es"
proof (cases ev)
  case Listening
  with assms(2) show ?thesis by (auto simp: on_listening_def)
next
  case (ListenError in_use m)
  with assms(2) show ?thesis by (auto simp: on_listen_error_def)
next
  case (Connect k remote)
  with assms(2) have "es = snd (on_connect k remote sv)" by (simp add: case_prod_beta)
  then show ?thesis by (simp only: on_connect_spoken)
next
  case (DataIn k chunk)
  show ?thesis
  proof (cases "sv_conns sv k")
    case None
    with DataIn assms(2) show ?thesis by simp
  next
    case (Some c)
    then have slot: "cn_slot c \<in> set SLOTS" using server_invD(3) [OF assms(1)] by blast
    from Some DataIn assms(2) have "on_data C k c chunk sv = (r, es)" by simp
    then show ?thesis by (rule on_data_spoken [OF slot])
  qed
next
  case (SocketClose k)
  show ?thesis
  proof (cases "sv_conns sv k")
    case None
    with SocketClose assms(2) show ?thesis by simp
  next
    case (Some c)
    then have slot: "cn_slot c \<in> set SLOTS" using server_invD(3) [OF assms(1)] by blast
    from Some SocketClose assms(2) have "es = snd (on_close k c (set_socket k Closed sv))"
      by (simp add: case_prod_beta Let_def)
    with on_close_spoken [OF slot] show ?thesis by simp
  qed
next
  case (SocketError k m)
  with assms(2) show ?thesis by (cases "sv_conns sv k") auto
next
  case Shutdown
  with assms(2) have "es = snd (on_shutdown sv)" by (simp add: case_prod_beta)
  then show ?thesis by (simp add: on_shutdown_def shutdown_slot_spoken SLOTS_def)
qed (use assms(2) in auto)



end
