(* ===== verification/Service.thy ===== *)
theory Service
  imports System ServerOutput
begin

text \<open>
  The open service: the server and any number of client processes that connect and leave in
  any order, with users who type anything, and two streams of text for each connection. An
  event delivers the next piece of a stream, of any size, to the process at its end, or is
  one that Node reports to a process on its own account. This is the setting in which the
  program has to work; no bound on its length or on the number of clients is assumed.
\<close>

section \<open>State\<close>

text \<open>
  Client process \<open>k\<close> is the one that opens the connection with socket \<open>k\<close> of the server, if
  it gets one; a process that has ended is \<open>None\<close>. \<open>se_up k\<close> is what it has written and the
  server has not read, \<open>se_down k\<close> the other direction; nothing is sent on a direction that
  its writer has ended (\<open>socket.end\<close>). \<open>se_stopped\<close>: the server process has exited.
\<close>

record 'r service =
  se_server :: server
  se_stopped :: bool
  se_client :: "nat \<Rightarrow> 'r client option"
  se_up :: "nat \<Rightarrow> jsstring"
  se_down :: "nat \<Rightarrow> jsstring"
  se_upEnded :: "nat \<Rightarrow> bool"
  se_downEnded :: "nat \<Rightarrow> bool"

definition service_start :: "jsstring \<Rightarrow> nat \<Rightarrow> (nat \<Rightarrow> bool) \<Rightarrow> (nat \<Rightarrow> 'r) \<Rightarrow> 'r service" where
  "service_start host port tty entropy =
     \<lparr>se_server = server_start host port, se_stopped = False,
      se_client = (\<lambda>k. Some (fst (client_start (tty k) (host @ js '':'' @ nat_to_string port)
        \<lparr>w_entropy = entropy k, w_heap = []\<rparr>))),
      se_up = (\<lambda>k. []), se_down = (\<lambda>k. []), se_upEnded = (\<lambda>k. False), se_downEnded = (\<lambda>k. False)\<rparr>"

section \<open>Effects\<close>

definition write_down :: "nat \<Rightarrow> jsstring \<Rightarrow> 'r service \<Rightarrow> 'r service" where
  "write_down k t se =
     (if se_downEnded se k then se else se\<lparr>se_down := (se_down se)(k := se_down se k @ t)\<rparr>)"

definition end_down :: "nat \<Rightarrow> 'r service \<Rightarrow> 'r service" where
  "end_down k se = se\<lparr>se_downEnded := (se_downEnded se)(k := True)\<rparr>"

fun server_effect :: "effect \<Rightarrow> 'r service \<Rightarrow> 'r service" where
  "server_effect (Write k t) se = write_down k t se"
| "server_effect (End k None) se = end_down k se"
| "server_effect (End k (Some t)) se = end_down k (write_down k t se)"
| "server_effect (ExitProcess n) se = se\<lparr>se_stopped := True\<rparr>"
| "server_effect _ se = se"

fun client_effect_at :: "nat \<Rightarrow> client_effect \<Rightarrow> 'r service \<Rightarrow> 'r service" where
  "client_effect_at k (SocketWrite t) se =
     (if se_upEnded se k then se else se\<lparr>se_up := (se_up se)(k := se_up se k @ t)\<rparr>)"
| "client_effect_at k SocketEnd se = se\<lparr>se_upEnded := (se_upEnded se)(k := True)\<rparr>"
| "client_effect_at k (Exit n) se = se\<lparr>se_client := (se_client se)(k := None)\<rparr>"
| "client_effect_at k _ se = se"

section \<open>Events\<close>

datatype service_event =
    AtServer sv_event
  | Upward nat jsstring
  | Downward nat jsstring
  | AtClient nat client_event

text \<open>
  What can happen: the server gets the events that Node can report, the text of a stream
  arrives in order and cut between characters, and the client's timers run when they are
  set. Data only arrive by \<open>Upward\<close> and \<open>Downward\<close>. An \<open>error\<close> event on a rejected socket
  is left out: it ends the server (\<open>third_client\<close>).
\<close>

fun own_server_event :: "server \<Rightarrow> sv_event \<Rightarrow> bool" where
  "own_server_event sv (DataIn k chunk) \<longleftrightarrow> False"
| "own_server_event sv (SocketError k m) \<longleftrightarrow> sv_conns sv k \<noteq> None"
| "own_server_event sv ev \<longleftrightarrow> True"

fun own_client_event :: "'r client \<Rightarrow> client_event \<Rightarrow> bool" where
  "own_client_event cl (DataChunk chunk) \<longleftrightarrow> False"
| "own_client_event cl KeysDue \<longleftrightarrow> cl_keyTimer cl \<noteq> None"
| "own_client_event cl ExitDue \<longleftrightarrow> cl_closing cl"
| "own_client_event cl ev \<longleftrightarrow> True"

definition next_piece :: "jsstring \<Rightarrow> jsstring \<Rightarrow> bool" where
  "next_piece piece stream \<longleftrightarrow> take (length piece) stream = piece \<and> well_formed piece"

fun enabled :: "'r service \<Rightarrow> service_event \<Rightarrow> bool" where
  "enabled se (AtServer ev) \<longleftrightarrow>
     \<not> se_stopped se \<and> possible (se_server se) ev \<and> own_server_event (se_server se) ev"
| "enabled se (Upward k piece) \<longleftrightarrow>
     \<not> se_stopped se \<and> sv_sockets (se_server se) k = Open \<and> next_piece piece (se_up se k)"
| "enabled se (Downward k piece) \<longleftrightarrow> se_client se k \<noteq> None \<and> next_piece piece (se_down se k)"
| "enabled se (AtClient k ev) \<longleftrightarrow> (case se_client se k of None \<Rightarrow> False | Some cl \<Rightarrow> own_client_event cl ev)"

text \<open>One event: the state after it, or the uncaught error that ends a process.\<close>

definition at_server :: "'r node_crypto \<Rightarrow> sv_event \<Rightarrow> 'r service \<Rightarrow> js_error + 'r service" where
  "at_server C ev se =
     (case server_step C ev (se_server se) of
        (Inl e, es) \<Rightarrow> Inl e
      | (Inr sv, es) \<Rightarrow> Inr (fold server_effect es (se\<lparr>se_server := sv\<rparr>)))"

definition at_client :: "'r node_crypto \<Rightarrow> nat \<Rightarrow> client_event \<Rightarrow> 'r service \<Rightarrow> js_error + 'r service" where
  "at_client C k ev se =
     (case se_client se k of None \<Rightarrow> Inr se | Some cl \<Rightarrow>
      case client_step C ev cl of
        (Inl e, es) \<Rightarrow> Inl e
      | (Inr cl', es) \<Rightarrow> Inr (fold (client_effect_at k) es (se\<lparr>se_client := (se_client se)(k := Some cl')\<rparr>)))"

fun service_do :: "'r node_crypto \<Rightarrow> service_event \<Rightarrow> 'r service \<Rightarrow> js_error + 'r service" where
  "service_do C (AtServer ev) se = at_server C ev se"
| "service_do C (Upward k piece) se =
     at_server C (DataIn k (utf8_encode piece)) (se\<lparr>se_up := (se_up se)(k := drop (length piece) (se_up se k))\<rparr>)"
| "service_do C (Downward k piece) se =
     at_client C k (DataChunk (utf8_encode piece)) (se\<lparr>se_down := (se_down se)(k := drop (length piece) (se_down se k))\<rparr>)"
| "service_do C (AtClient k ev) se = at_client C k ev se"

text \<open>A run: events that are not enabled are skipped, and nothing follows a crash.\<close>

fun service_next :: "'r node_crypto \<Rightarrow> service_event \<Rightarrow> js_error + 'r service \<Rightarrow> js_error + 'r service" where
  "service_next C ev (Inl e) = Inl e"
| "service_next C ev (Inr se) = (if enabled se ev then service_do C ev se else Inr se)"

section \<open>Streams of lines\<close>

text \<open>Messages as they are written, one after the other.\<close>

definition stream_of :: "jsval list \<Rightarrow> jsstring" where
  "stream_of ms = concat (map encode ms)"

lemma stream_of_simps [simp]:
  "stream_of [] = []" "stream_of (m # ms) = encode m @ stream_of ms" "stream_of (ms @ ms') = stream_of ms @ stream_of ms'"
  by (simp_all add: stream_of_def)

text \<open>A beginning of a stream of lines: the complete lines, and the beginning of the next.\<close>

lemma cut_stream:
  assumes "\<forall>l \<in> set ls. 10 \<notin> set l" "p @ y = concat (map (\<lambda>l. l @ nl) ls)"
  shows "\<exists>ls1 ls2 b. ls = ls1 @ ls2 \<and> split_nl p = ls1 @ [b] \<and> b @ y = concat (map (\<lambda>l. l @ nl) ls2)
    \<and> (b = [] \<or> (\<exists>l t. l \<in> set ls \<and> l = b @ t))"
  using assms
proof (induction ls arbitrary: p)
  case Nil
  then show ?case by simp
next
  case (Cons l ls)
  then have l: "10 \<notin> set l" and split: "p @ y = l @ nl @ concat (map (\<lambda>l. l @ nl) ls)" by simp_all
  show ?case
  proof (cases "length p \<le> length l")
    case True
    with split have "l = p @ drop (length p) l" by (metis append_eq_append_conv_if append_take_drop_id)
    moreover from this l have "10 \<notin> set p" by (metis UnI1 set_append)
    ultimately show ?thesis using split by (intro exI [of _ "[]"] exI [of _ "l # ls"] exI [of _ p]) (auto simp: split_nl_single)
  next
    case False
    have p: "p = l @ drop (length l) p" using split False by (metis append_eq_append_conv_if append_take_drop_id linorder_le_cases)
    moreover from p False have "drop (length l) p \<noteq> []" by auto
    ultimately obtain p1 where p1: "p = l @ p1" "p1 \<noteq> []" by blast
    with split have "p1 @ y = nl @ concat (map (\<lambda>l. l @ nl) ls)" by simp
    with p1 obtain p' where p': "p = l @ nl @ p'" "p' @ y = concat (map (\<lambda>l. l @ nl) ls)"
      by (cases p1) (auto simp: nl_def)
    have "\<forall>l \<in> set ls. 10 \<notin> set l" using Cons.prems(1) by simp
    from Cons.IH [OF this p'(2)] obtain ls1 ls2 b where
      "ls = ls1 @ ls2" "split_nl p' = ls1 @ [b]" "b @ y = concat (map (\<lambda>l. l @ nl) ls2)"
      "b = [] \<or> (\<exists>l t. l \<in> set ls \<and> l = b @ t)" by blast
    with l show ?thesis unfolding p'(1)
      by (intro exI [of _ "l # ls1"] exI [of _ ls2] exI [of _ b]) (auto simp: split_nl_line)
  qed
qed

text \<open>Messages that can be sent: one line each, short enough for a frame.\<close>

definition framed :: "jsval \<Rightarrow> bool" where
  "framed m \<longleftrightarrow> json_ok m \<and> byteLength (json_text m) \<le> MAX_FRAME_SIZE"

lemma stream_of_framed: "\<forall>m \<in> set ms. framed m \<Longrightarrow> stream_of ms = concat (map (\<lambda>l. l @ nl) (map json_text ms))"
  by (induction ms) (simp_all add: framed_def encode_text nl_def)

text \<open>A piece of the stream at the line buffer.\<close>

lemma piece_buffered:
  assumes "lb_buffer lb @ stream = stream_of ms" "\<forall>m \<in> set ms. framed m" "next_piece piece stream"
    and "lb_maxFrameSize lb = MAX_FRAME_SIZE"
  obtains ms1 ms2 b where "ms = ms1 @ ms2" "b @ drop (length piece) stream = stream_of ms2"
    "lb_append lb (utf8_decode (utf8_encode piece)) = (Inr (map json_text ms1), lb\<lparr>lb_buffer := b\<rparr>)"
proof -
  have stream: "stream = piece @ drop (length piece) stream"
    using assms(3) by (metis append_take_drop_id next_piece_def)
  have nonl: "\<forall>l \<in> set (map json_text ms). 10 \<notin> set l" using assms(2) by (auto simp: framed_def json_text_no_newline)
  have "(lb_buffer lb @ piece) @ drop (length piece) stream = concat (map (\<lambda>l. l @ nl) (map json_text ms))"
    using assms(1) stream stream_of_framed [OF assms(2)] by simp
  from cut_stream [OF nonl this] obtain ls1 ls2 b where cut: "map json_text ms = ls1 @ ls2"
    "split_nl (lb_buffer lb @ piece) = ls1 @ [b]" "b @ drop (length piece) stream = concat (map (\<lambda>l. l @ nl) ls2)"
    "b = [] \<or> (\<exists>l t. l \<in> set (map json_text ms) \<and> l = b @ t)" by blast
  then obtain ms1 ms2 where ms: "ms = ms1 @ ms2" "ls1 = map json_text ms1" "ls2 = map json_text ms2"
    by (auto simp: map_eq_append_conv)
  have fits: "fits MAX_FRAME_SIZE (map json_text ms)" using assms(2) by (auto simp: fits_def list_all_iff framed_def)
  have "byteLength b \<le> MAX_FRAME_SIZE"
  proof (cases "b = []")
    case False
    with cut(4) obtain m t where m: "m \<in> set ms" "json_text m = b @ t" by auto
    with fits byteLength_prefix [of b t] show ?thesis by (fastforce simp: fits_def list_all_iff)
  qed simp
  moreover have "fits MAX_FRAME_SIZE ls1" using fits unfolding cut(1) by simp
  ultimately have "fits (lb_maxFrameSize lb) (ls1 @ [b])" by (simp add: assms(4))
  then have "lb_append lb piece = (Inr ls1, lb\<lparr>lb_buffer := b\<rparr>)" by (simp add: lb_append_eq cut(2) Let_def)
  moreover have "utf8_decode (utf8_encode piece) = piece"
    using assms(3) by (simp add: next_piece_def utf8_roundtrip_iff)
  moreover have "b @ drop (length piece) stream = stream_of ms2"
    using cut(3) ms assms(2) stream_of_framed [of ms2] by simp
  ultimately show thesis using that ms by simp
qed

end
