(* ===== verification/Speech.thy ===== *)
theory Speech
  imports Service
begin

text \<open>
  What the processes of the service say. A client sends its HELLO, exchanges and
  acknowledgements under its own slot, and chat messages; the server passes these on and
  adds notices. A client that has its identity and is told only such things answers with
  such things, and nothing it is told makes it crash.
\<close>

section \<open>The language\<close>

text \<open>Key generation returns pairs that work, and nothing in the module fails.\<close>

definition honest_module :: "'r node_crypto \<Rightarrow> bool" where
  "honest_module C \<longleftrightarrow> module_total C \<and> (\<forall>r. client_ok C (fst (createIdentity C r)))"

lemma honest_keygen: "honest_module C \<Longrightarrow> keygen_ok C"
  using client_okD(1) by (fastforce simp: honest_module_def keygen_ok_def createIdentity_def identity_ok_def case_prod_beta Let_def)

definition chat_from :: "jsstring \<Rightarrow> jsstring \<Rightarrow> jsval" where
  "chat_from slot t = createChatMessage (VStr slot) (VStr t) PROTOCOL_VERSION"

text \<open>What its session sends, and what its user types.\<close>

inductive handshake_says :: "'r node_crypto \<Rightarrow> jsstring \<Rightarrow> jsval \<Rightarrow> bool" for C :: "'r node_crypto" and slot where
  hello: "client_ok C i \<Longrightarrow> handshake_says C slot (own_hello C (VStr slot) i)"
| exchange: "relayable C slot m \<Longrightarrow> field m ''type'' = VStr ty \<Longrightarrow> ty \<in> {KEY_EXCHANGE, KEY_EXCHANGE_ACK} \<Longrightarrow>
    handshake_says C slot m"

inductive client_says :: "'r node_crypto \<Rightarrow> jsstring \<Rightarrow> jsval \<Rightarrow> bool" for C :: "'r node_crypto" and slot where
  handshake: "handshake_says C slot m \<Longrightarrow> client_says C slot m"
| chat: "trim t \<noteq> [] \<Longrightarrow> framed (chat_from slot t) \<Longrightarrow> client_says C slot (chat_from slot t)"

text \<open>
  To the client with the slot \<open>slot\<close>, apart from the notice that names it. The parameter \<open>W\<close>
  says which messages have been written under which slot.
\<close>

type_synonym sources = "jsstring \<Rightarrow> jsval \<Rightarrow> bool"

inductive server_says :: "'r node_crypto \<Rightarrow> sources \<Rightarrow> jsstring \<Rightarrow> jsval \<Rightarrow> bool"
  for C :: "'r node_crypto" and W :: sources and slot where
  relayed: "client_says C (otherSlot slot) m \<Longrightarrow> W (otherSlot slot) m \<Longrightarrow> server_says C W slot m"
| news: "trim t \<noteq> [] \<Longrightarrow> \<not> startsWith t connected_as \<Longrightarrow> length t \<le> 100 \<Longrightarrow> server_says C W slot (system_msg t)"
| presence: "e \<in> {PEER_JOINED, PEER_LEFT} \<Longrightarrow> trim t \<noteq> [] \<Longrightarrow> \<not> startsWith t connected_as \<Longrightarrow> length t \<le> 100 \<Longrightarrow>
    server_says C W slot (peer_event_msg e (otherSlot slot) t)"

text \<open>The answer to a third client.\<close>

definition rejection :: jsval where
  "rejection = error_msg (js ''CipherLink server already has two clients connected. Try again later.'')"

section \<open>Notices fit in a frame\<close>

lemma short_entries:
  "entry_bytes (js f, VStr t) \<le> 6 * length f + 6 * length t + 6"
  "entry_bytes (js f, PROTOCOL_VERSION) \<le> 6 * length f + 5"
  using string_entry(1) [of "js f" t] string_entry(2) [of "js f"] by (simp_all add: PROTOCOL_VERSION_def)

lemma error_ok: "json_ok (error_msg t)"
  by (simp add: error_msg_def createErrorMessage_def obj_def array_index_def js_def unit_of_def is_digit_def PROTOCOL_VERSION_def)

lemma notice_framed:
  assumes "length t \<le> 100"
  shows "framed (system_msg t)" "framed (error_msg t)"
    and "e \<in> {PEER_JOINED, PEER_LEFT} \<Longrightarrow> slot \<in> set SLOTS \<Longrightarrow> framed (peer_event_msg e slot t)"
proof -
  have sys: "byteLength (json_text (system_msg t)) \<le> 2000"
    using object_bytes [OF notice_ok(1) [of t, unfolded system_msg_def createSystemMessage_def obj_def]] assms
      short_entries(1) [of "''type''" SYSTEM] short_entries(2) [of "''version''"] short_entries(1) [of "''text''" t]
    by (simp add: system_msg_def createSystemMessage_def obj_def)
  have err: "byteLength (json_text (error_msg t)) \<le> 2000"
    using object_bytes [OF error_ok [of t, unfolded error_msg_def createErrorMessage_def obj_def]] assms
      short_entries(1) [of "''type''" ERROR] short_entries(2) [of "''version''"] short_entries(1) [of "''text''" t]
    by (simp add: error_msg_def createErrorMessage_def obj_def)
  show "framed (system_msg t)" "framed (error_msg t)"
    using sys err by (simp_all add: framed_def notice_ok error_ok MAX_FRAME_SIZE_def)
  assume "e \<in> {PEER_JOINED, PEER_LEFT}" "slot \<in> set SLOTS"
  then have len: "length e \<le> 11" "length slot = 8" by (auto simp: SLOTS_def CLIENT_A_def CLIENT_B_def)
  have "byteLength (json_text (peer_event_msg e slot t)) \<le> 2000"
    using object_bytes [OF notice_ok(2) [of e slot t, unfolded peer_event_msg_def createPeerEventMessage_def obj_def]] assms len
      short_entries(1) [of "''type''" SYSTEM] short_entries(2) [of "''version''"] short_entries(1) [of "''text''" t]
      short_entries(1) [of "''event''" e] short_entries(1) [of "''peer''" slot]
    by (simp add: peer_event_msg_def createPeerEventMessage_def obj_def)
  then show "framed (peer_event_msg e slot t)" by (simp add: framed_def notice_ok MAX_FRAME_SIZE_def)
qed

section \<open>What is said is valid\<close>

lemma relayable_framed: "relayable C slot m \<Longrightarrow> framed m"
  using relayable_fits by (simp add: framed_def relayable_def)

lemma hello_said: "client_ok C i \<Longrightarrow> slot \<in> set SLOTS \<Longrightarrow> relayable C slot (own_hello C (VStr slot) i)"
  by (rule hello_relayable) (auto simp: SLOTS_def)

lemma client_says_cases:
  assumes "client_says C slot m" "slot \<in> set SLOTS"
  obtains (handshake) "handshake_says C slot m" "relayable C slot m" | (chat) t where "m = chat_from slot t" "trim t \<noteq> []" "framed m"
proof -
  have "relayable C slot m" if "handshake_says C slot m"
    using that hello_said [OF _ assms(2)] by cases auto
  with assms(1) show thesis using handshake chat by cases auto
qed

lemma client_says_ok:
  assumes "client_says C slot m" "slot \<in> set SLOTS"
  shows "framed m" "validateMessage C m = Inr Valid"
  using client_says_cases [OF assms] relayable_framed chat_valid by (metis chat_from_def relayable_def)+

lemma server_says_ok:
  assumes "server_says C W slot m" "slot \<in> set SLOTS"
  shows "framed m \<and> validateMessage C m = Inr Valid"
  using assms(1)
proof cases
  case relayed
  with client_says_ok [of C "otherSlot slot"] otherSlot_SLOTS [OF assms(2)] show ?thesis by blast
next
  case (news t)
  then show ?thesis using notice_framed(1) notice_valid(1) by simp
next
  case (presence e t)
  have slot: "otherSlot slot \<in> set SLOTS" using otherSlot_SLOTS [OF assms(2)] by blast
  then have "isIdentityString (VStr (otherSlot slot))" using slot_texts(2,3) by (auto simp: SLOTS_def)
  then have "validateMessage C (peer_event_msg e (otherSlot slot) t) = Inr Valid"
    using validate_plain_iff [of "peer_event_msg e (otherSlot slot) t" SYSTEM C] presence(2,3)
    by (auto simp: notice_fields notice_version optional_version_def nonblank_def event_schema_def)
  with notice_framed(3) [OF presence(5,2) slot] presence(1) show ?thesis by simp
qed

section \<open>What a session says\<close>

lemma slot_parties:
  assumes "session_inv s w" "ps_selfId s = slot"
  shows "slot \<in> set SLOTS" "ps_peerId s = VStr (otherSlot slot)" "parties_ok (VStr slot) (VStr (otherSlot slot))"
    and "ps_selfId s = INITIATOR_ID \<longleftrightarrow> slot = CLIENT_A"
  using assms client_names(1,2) slot_names
  by (auto simp: session_inv_def slot_values SLOTS_def otherSlot_def INITIATOR_ID_def CLIENT_A_def)

lemma own_hellos_said:
  "client_ok C (ps_identity s) \<Longrightarrow> d \<in> set (own_hellos C s) \<Longrightarrow> handshake_says C (ps_selfId s) d"
  by (auto simp: own_hellos_def intro: handshake_says.hello split: if_splits)

lemma schema_said:
  assumes "exchange_schema ty m" "ty \<in> {KEY_EXCHANGE, KEY_EXCHANGE_ACK}" "json_ok m"
    and "field m ''sender'' = VStr slot" "field m ''recipient'' = VStr (otherSlot slot)"
  shows "handshake_says C slot m"
proof (rule handshake_says.exchange)
  show type: "field m ''type'' = VStr ty" using assms(1) by (simp add: exchange_schema_def handshake_envelope_def)
  show "relayable C slot m"
    using assms(2-5) type schema_valid [of ty m C] assms(1) validate_exchange_iff [of m ty C]
    by (auto simp: relayable_def HANDSHAKE_TYPES_def exchange_schema_def handshake_envelope_def)
qed (rule assms(2))

lemma created_exchange_said:
  assumes "module_ok C" "parties_ok (VStr slot) (VStr (otherSlot slot))" "client_ok C i" "client_ok C j"
    and run: "createKeyExchange C (VStr slot) (VStr (otherSlot slot)) (Some (kp_private (id_signing i)))
      (Some (kp_public (id_encryption j))) PROTOCOL_VERSION w = (Inr (m, sid, a), w')"
  shows "handshake_says C slot m"
proof (rule createKeyExchange_accepted [OF assms(1,2) client_okD(3,5) [OF assms(4)] client_okD(4,6) [OF assms(3)], of w])
  fix m1 sid1 key r
  assume "createKeyExchange C (VStr slot) (VStr (otherSlot slot)) (Some (kp_private (id_signing i)))
      (Some (kp_public (id_encryption j))) PROTOCOL_VERSION w =
      (Inr (m1, sid1, length (w_heap w)), w\<lparr>w_entropy := r, w_heap := w_heap w @ [key]\<rparr>)"
    and schema: "exchange_schema KEY_EXCHANGE m1"
  with run have m: "m1 = m" by simp
  from createKeyExchange_form [OF run] obtain ek sg where
    "m = createKeyExchangeMessage (VStr slot) (VStr (otherSlot slot)) (VStr sid) (VStr ek) (VStr sg) PROTOCOL_VERSION"
    by blast
  then have "json_ok m" "field m ''sender'' = VStr slot" "field m ''recipient'' = VStr (otherSlot slot)"
    using exchange_message_ok(1) by (simp_all add: createKeyExchangeMessage_def)
  with schema m show ?thesis by (intro schema_said [of KEY_EXCHANGE]) simp_all
qed

lemma created_ack_said:
  assumes "parties_ok (VStr slot) (VStr (otherSlot slot))" "client_ok C i" "matches_session_id sid"
    and run: "createKeyExchangeAck C (VStr slot) (VStr (otherSlot slot)) (VStr sid) (Some (kp_private (id_signing i)))
      PROTOCOL_VERSION w = (Inr m, w')"
  shows "handshake_says C slot m"
proof (rule createKeyExchangeAck_accepted [OF assms(1,3) client_okD(4,6) [OF assms(2)], of w])
  fix m1 r
  assume "createKeyExchangeAck C (VStr slot) (VStr (otherSlot slot)) (VStr sid) (Some (kp_private (id_signing i)))
      PROTOCOL_VERSION w = (Inr m1, w\<lparr>w_entropy := r\<rparr>)"
    and schema: "exchange_schema KEY_EXCHANGE_ACK m1"
  with run have m: "m1 = m" by simp
  from createKeyExchangeAck_form [OF run] obtain sg where
    "m = createKeyExchangeAckMessage (VStr slot) (VStr (otherSlot slot)) (VStr sid) (VStr sg) PROTOCOL_VERSION"
    by blast
  then have "json_ok m" "field m ''sender'' = VStr slot" "field m ''recipient'' = VStr (otherSlot slot)"
    using exchange_message_ok(2) by (simp_all add: createKeyExchangeAckMessage_def)
  with schema m show ?thesis by (intro schema_said [of KEY_EXCHANGE_ACK]) simp_all
qed

text \<open>A session whose identity works, on a handshake message that its peer says.\<close>

lemma hello_answered:
  assumes C: "honest_module C" and inv: "session_inv s w" and me: "client_ok C (ps_identity s)"
    and slot: "ps_selfId s = slot" and peer: "client_ok C j"
    and run: "onHello C (own_hello C (VStr (otherSlot slot)) j) s w = (Inr oc, s', w')"
  shows "\<forall>d \<in> set (oc_outgoing oc). handshake_says C slot d"
proof (cases "ps_state s = NO_SESSION")
  case False
  with run slot_parties(2) [OF inv slot] show ?thesis by (auto simp: onHello_def ps_reject_def ps_result_def)
next
  case True
  note parties = slot_parties [OF inv slot]
  let ?m = "own_hello C (VStr (otherSlot slot)) j"
  have "isIdentityString (VStr (otherSlot slot))" "no_pem_text (VStr (otherSlot slot))"
    using parties(3) by (simp_all add: parties_ok_def)
  note from_peer = hello_from_own [OF peer this, folded parties(2)]
  note idle = onHello_idle [OF from_peer True client_okD(1) [OF me]]
  show ?thesis
  proof (cases "slot = CLIENT_A")
    case False
    with idle(1) parties(4) run own_hellos_said [OF me] slot show ?thesis
      by (auto simp: parties(2) ps_result_def)
  next
    case init: True
    have mt: "module_ok C" using C by (simp add: honest_module_def module_total_def)
    obtain m sid a w1 where ex: "createKeyExchange C (VStr slot) (VStr (otherSlot slot))
        (Some (kp_private (id_signing (ps_identity s)))) (Some (kp_public (id_encryption j))) PROTOCOL_VERSION w = (Inr (m, sid, a), w1)"
      by (rule createKeyExchange_accepted [OF mt parties(3) client_okD(3,5) [OF peer] client_okD(4,6) [OF me], of w]) blast
    note said = created_exchange_said [OF mt parties(3) me peer ex]
    have "onHello C ?m s w = (Inr (ps_result (own_hellos C s @ [m]) (Some (js ''KEY_EXCHANGE_SENT'')) None),
         (with_peer_keys (kp_public (id_encryption j)) (kp_public (id_signing j)) s)\<lparr>ps_sessionId := VStr sid, ps_sessionKey := Some a, ps_state := KEY_SENT\<rparr>, w1)"
      using idle(2) parties(4) init ex by (simp add: parties(2) slot_values)
    with run said own_hellos_said [OF me] slot show ?thesis by (auto simp: ps_result_def)
  qed
qed

lemma exchange_answered:
  assumes inv: "session_inv s w" and me: "client_ok C (ps_identity s)" and slot: "ps_selfId s = slot"
    and schema: "exchange_schema KEY_EXCHANGE m" and run: "onKeyExchange C m s w = (Inr oc, s', w')"
  shows "\<forall>d \<in> set (oc_outgoing oc). handshake_says C slot d"
proof -
  note parties = slot_parties [OF inv slot]
  have "oc_outgoing oc = [] \<or> (\<exists>sid w1 ack w2. field m ''sessionId'' = sid
      \<and> createKeyExchangeAck C (VStr slot) (VStr (otherSlot slot)) sid (Some (kp_private (id_signing (ps_identity s)))) PROTOCOL_VERSION w1
          = (Inr ack, w2) \<and> oc_outgoing oc = [ack])"
    using run slot parties(2)
    by (auto simp: onKeyExchange_def verifyKeyExchange_unwrap ps_fail_def ps_reject_def ps_result_def Let_def
        split: if_splits sum.splits prod.splits)
  moreover obtain sid where "field m ''sessionId'' = VStr sid" "matches_session_id sid"
    using schema by (auto simp: exchange_schema_def)
  ultimately show ?thesis using created_ack_said [OF parties(3) me] by auto
qed

lemma session_answers:
  assumes C: "honest_module C" and inv: "session_inv s w" and me: "client_ok C (ps_identity s)"
    and slot: "ps_selfId s = slot" and said: "handshake_says C (otherSlot slot) m"
    and run: "handleMessage C m s w = (Inr oc, s', w')"
  shows "\<forall>d \<in> set (oc_outgoing oc). handshake_says C slot d"
proof -
  have other: "otherSlot slot \<in> set SLOTS" using slot_parties(1) [OF inv slot] otherSlot_SLOTS by blast
  note ok = client_says_ok [OF client_says.handshake [OF said] other]
  from said show ?thesis
  proof cases
    case (hello j)
    with hello_answered [OF C inv me slot hello(2)] run ok(2) show ?thesis by (simp add: handleMessage_def)
  next
    case (exchange ty)
    have obj: "\<not> not_object m" by (rule valid_not_not_object [OF ok(2)])
    show ?thesis
    proof (cases "ty = KEY_EXCHANGE")
      case True
      have "exchange_schema KEY_EXCHANGE m"
        using validate_exchange_iff [OF obj exchange(2), of C] ok(2) True by simp
      with exchange_answered [OF inv me slot] run ok(2) exchange(2) True show ?thesis
        by (simp add: handleMessage_def Let_def)
    next
      case False
      then have "ty = KEY_EXCHANGE_ACK" using exchange(3) by simp
      then have "onKeyExchangeAck C m s w = (Inr oc, s', w')"
        using run ok(2) exchange(2) by (simp add: handleMessage_def Let_def)
      then show ?thesis
        by (auto simp: onKeyExchangeAck_def ps_fail_def ps_reject_def ps_result_def split: if_splits sum.splits)
    qed
  qed
qed

end
