(* ===== verification/ClientSpeech.thy ===== *)
theory ClientSpeech
  imports Speech
begin

text \<open>
  A client process of the service: what it may be told before and after the notice that
  names it, and that it then goes on without a crash and says only what a client says.
\<close>

section \<open>Listening\<close>

text \<open>Before and after the notice that names it.\<close>

definition untuned :: "'r client \<Rightarrow> bool" where
  "untuned cl \<longleftrightarrow> client_core cl \<and> cl_myId cl = None \<and> cl_session cl = None \<and> cl_keyTimer cl = None \<and> cl_queue cl = []"

text \<open>The events of a session that hears only messages written under the other slot.\<close>

definition heard :: "sources \<Rightarrow> jsstring \<Rightarrow> session_event set" where
  "heard W slot = {ev. \<forall>m. ev = Received m \<longrightarrow> W (otherSlot slot) m}"

definition tuned :: "'r node_crypto \<Rightarrow> sources \<Rightarrow> jsstring \<Rightarrow> 'r client \<Rightarrow> bool" where
  "tuned C W slot cl \<longleftrightarrow> client_core cl \<and> cl_myId cl = Some slot \<and> (\<forall>m \<in> set (cl_queue cl). server_says C W slot m)
     \<and> (case cl_session cl of
          None \<Rightarrow> cl_keyTimer cl = Some slot
        | Some s \<Rightarrow> cl_keyTimer cl = None \<and> ps_selfId s = slot \<and> client_ok C (ps_identity s)
            \<and> justified C (VStr slot) (ps_peerId s) (ps_identity s) (heard W slot) (session_phase s (cl_world cl)))"

text \<open>The messages that are on their way to a client with the slot, if any, of its connection.\<close>

fun expects :: "'r node_crypto \<Rightarrow> sources \<Rightarrow> jsstring option \<Rightarrow> 'r client \<Rightarrow> jsval list \<Rightarrow> bool" where
  "expects C W None cl ms \<longleftrightarrow> untuned cl \<and> set ms \<subseteq> {rejection}"
| "expects C W (Some slot) cl ms \<longleftrightarrow>
     (case ms of [] \<Rightarrow> False | m # ms' \<Rightarrow> untuned cl \<and> m = assigned slot \<and> (\<forall>m \<in> set ms'. server_says C W slot m))
     \<or> tuned C W slot cl \<and> (\<forall>m \<in> set ms. server_says C W slot m)"

fun answers :: "'r node_crypto \<Rightarrow> jsstring option \<Rightarrow> client_effect list \<Rightarrow> bool" where
  "answers C None es \<longleftrightarrow> writes es = []"
| "answers C (Some slot) es \<longleftrightarrow> (\<exists>ds. writes es = map encode ds \<and> (\<forall>d \<in> set ds. handshake_says C slot d))"

text \<open>At the event \<open>ev\<close>: such answers, or the line that the user typed.\<close>

definition says :: "'r node_crypto \<Rightarrow> jsstring option \<Rightarrow> client_event \<Rightarrow> client_effect list \<Rightarrow> bool" where
  "says C conn ev es \<longleftrightarrow> answers C conn es
     \<or> (\<exists>line slot. ev = UserLine line \<and> conn = Some slot \<and> trim line \<noteq> [] \<and> framed (chat_from slot (trim line))
          \<and> writes es = [encode (chat_from slot (trim line))])"

lemma answers_said: "answers C conn es \<Longrightarrow> says C conn ev es"
  by (simp add: says_def)

lemma answers_nothing: "writes es = [] \<Longrightarrow> answers C conn es"
  by (cases conn) auto

lemma says_nothing: "writes es = [] \<Longrightarrow> says C conn ev es"
  by (simp add: answers_said answers_nothing)

lemma answers_append: "answers C conn es \<Longrightarrow> answers C conn es' \<Longrightarrow> answers C conn (es @ es')"
  by (cases conn) (auto, metis Un_iff map_append set_append)

lemma answers_messages: "\<forall>d \<in> set ds. handshake_says C slot d \<Longrightarrow> answers C (Some slot) (map sendMessage ds)"
  by auto

lemma answers_log: "answers C conn (client_log cl ls)" "answers C conn []"
  by (simp_all add: answers_nothing)

lemma tuned_flags [simp]:
  "tuned C W slot (cl\<lparr>cl_closing := b\<rparr>) = tuned C W slot cl" "untuned (cl\<lparr>cl_closing := b\<rparr>) = untuned cl"
  "tuned C W slot (cl\<lparr>cl_destroyed := b\<rparr>) = tuned C W slot cl" "untuned (cl\<lparr>cl_destroyed := b\<rparr>) = untuned cl"
  by (simp_all add: tuned_def untuned_def client_core_flags split: option.split)

lemma expects_flags [simp]:
  "expects C W conn (cl\<lparr>cl_closing := b\<rparr>) ms = expects C W conn cl ms"
  "expects C W conn (cl\<lparr>cl_destroyed := b\<rparr>) ms = expects C W conn cl ms"
  by (cases conn; simp split: list.split)+

lemma tuned_ok: "tuned C W slot cl \<Longrightarrow> session_ok cl" "untuned cl \<Longrightarrow> session_ok cl"
  by (auto simp: tuned_def untuned_def client_core_def intro: session_part_ok)

section \<open>One message\<close>

text \<open>The answer of a client that has its session: it goes on, has a session, and says only \<open>says\<close>.\<close>

definition goes_on :: "'r node_crypto \<Rightarrow> sources \<Rightarrow> jsstring \<Rightarrow> 'r client_result \<Rightarrow> bool" where
  "goes_on C W slot r \<longleftrightarrow> (\<exists>cl' es. r = (Inr cl', es) \<and> tuned C W slot cl' \<and> cl_session cl' \<noteq> None \<and> answers C (Some slot) es)"

lemma goes_onI:
  "r = (Inr cl', es) \<Longrightarrow> tuned C W slot cl' \<Longrightarrow> cl_session cl' \<noteq> None \<Longrightarrow> answers C (Some slot) es \<Longrightarrow> goes_on C W slot r"
  by (auto simp: goes_on_def)

lemma tuned_session:
  assumes "tuned C W slot cl" "cl_session cl = Some s"
  shows "session_inv s (cl_world cl)" "ps_selfId s = slot" "client_ok C (ps_identity s)" "cl_keyTimer cl = None"
    "cl_identity cl = Some (ps_identity s)"
    "justified C (VStr slot) (ps_peerId s) (ps_identity s) (heard W slot) (session_phase s (cl_world cl))"
  using assms by (auto simp: tuned_def client_core_def session_part_def)

text \<open>After a step of the session.\<close>

lemma tuned_step:
  assumes "tuned C W slot cl" "cl_session cl = Some s" "good_step C ev (s, cl_world cl) (s', w')" "ev \<in> heard W slot"
  shows "tuned C W slot (cl\<lparr>cl_session := Some s', cl_world := w'\<rparr>)"
    and "tuned C W slot (cl\<lparr>cl_peerPresent := b, cl_session := Some s', cl_world := w'\<rparr>)"
proof -
  have core: "client_core (cl\<lparr>cl_peerPresent := b\<rparr>)" and part: "session_part cl"
    using assms(1) by (simp_all add: tuned_def client_core_flags) (simp add: client_core_def)
  have part': "session_part (cl\<lparr>cl_session := Some s', cl_world := w'\<rparr>)"
    by (rule good_step_part [OF assms(3) part assms(2)])
  then have "client_core (cl\<lparr>cl_peerPresent := b, cl_session := Some s', cl_world := w'\<rparr>)"
    using client_core_session [OF core, where s = "Some s'" and w = w'] by (simp add: session_part_def)
  moreover have "client_core (cl\<lparr>cl_session := Some s', cl_world := w'\<rparr>)"
    using client_core_session [OF _ part'] assms(1) by (simp add: tuned_def)
  moreover have "move C (VStr slot) (ps_peerId s) (ps_identity s) (session_phase s (cl_world cl)) ev (session_phase s' w')"
    using assms(3) tuned_session(2) [OF assms(1,2)] by (simp add: good_step_def)
  note move_justified [OF this tuned_session(6) [OF assms(1,2)] assms(4) subset_refl]
  ultimately show "tuned C W slot (cl\<lparr>cl_session := Some s', cl_world := w'\<rparr>)"
    "tuned C W slot (cl\<lparr>cl_peerPresent := b, cl_session := Some s', cl_world := w'\<rparr>)"
    using assms tuned_session [OF assms(1,2)] by (simp_all add: tuned_def good_step_def same_client_def)
qed

lemma hears_handshake:
  assumes C: "honest_module C" and cl: "tuned C W slot cl" "cl_session cl = Some s"
    and said: "handshake_says C (otherSlot slot) m" "W (otherSlot slot) m"
    and type: "text_of (field m ''type'') \<in> set HANDSHAKE_TYPES"
  shows "goes_on C W slot (client_handshake C m cl)"
proof -
  note sess = tuned_session [OF cl]
  have mt: "module_total C" using C by (simp add: honest_module_def)
  have "otherSlot slot \<in> set SLOTS" using slot_parties(1) [OF sess(1,2)] otherSlot_SLOTS by blast
  note ok = client_says_ok [OF client_says.handshake [OF said(1)] this]
  obtain oc where "fst (handleMessage C m s (cl_world cl)) = Inr oc"
    using handleMessage_returns [OF sess(1) ok(2)] by blast
  then obtain s' w' where run: "handleMessage C m s (cl_world cl) = (Inr oc, s', w')" by (metis prod.collapse)
  have good: "good_step C (Received m) (s, cl_world cl) (s', w')"
    using handleMessage_good [OF sess(1) mt, of m] by (simp add: run)
  obtain cl1 where cl1: "fst (client_handshake C m cl) = Inr cl1"
    using handshake_returns [OF tuned_ok(1) [OF cl(1)] mt ok(2) type] by blast
  then obtain ls where ls: "describeHandshake C s' w' m oc = Inr ls"
    by (cases "describeHandshake C s' w' m oc") (simp_all add: client_handshake_def cl(2) run Let_def)
  from session_answers [OF C sess(1,3,2) said(1) run]
  have said': "\<forall>d \<in> set (oc_outgoing oc). handshake_says C slot d" .
  show ?thesis
  proof (rule goes_onI)
    show "client_handshake C m cl = (Inr (cl\<lparr>cl_session := Some s', cl_world := w'\<rparr>),
        map sendMessage (oc_outgoing oc) @ client_log (cl\<lparr>cl_session := Some s', cl_world := w'\<rparr>) ls)"
      by (simp add: client_handshake_def cl(2) run ls Let_def)
    show "answers C (Some slot) (map sendMessage (oc_outgoing oc) @ client_log (cl\<lparr>cl_session := Some s', cl_world := w'\<rparr>) ls)"
      by (intro answers_append answers_messages said' answers_log)
  qed (use tuned_step(1) [OF cl good] said(2) in \<open>simp_all add: heard_def\<close>)
qed

lemma hears_presence:
  assumes cl: "tuned C W slot cl" "cl_session cl = Some s"
    and e: "e \<in> {PEER_JOINED, PEER_LEFT}" and t: "\<not> startsWith t connected_as"
  shows "goes_on C W slot (client_system C (peer_event_msg e p t) cl)"
proof (cases "e = PEER_JOINED")
  case True
  note sess = tuned_session [OF cl]
  have joined: "onPeerJoined C s (cl_world cl) = (Inr (ps_result (own_hellos C s) None None), s\<lparr>ps_helloSent := True\<rparr>, cl_world cl)"
    by (rule onPeerJoined_eq [OF client_okD(1) [OF sess(3)]])
  have good: "good_step C PeerJoined (s, cl_world cl) (s\<lparr>ps_helloSent := True\<rparr>, cl_world cl)"
    using onPeerJoined_good [OF sess(1), of C] by (simp add: joined)
  let ?cl = "cl\<lparr>cl_peerPresent := True, cl_session := Some (s\<lparr>ps_helloSent := True\<rparr>), cl_world := cl_world cl\<rparr>"
  let ?ls = "(js ''[SYSTEM] '' @ t) # map sent_line (own_hellos C s)"
  have "client_system C (peer_event_msg e p t) cl = (Inr ?cl, client_log ?cl ?ls @ map sendMessage (own_hellos C s))"
    using t by (simp add: client_system_def notice_fields True cl(2) joined Let_def ps_result_def) (simp add: client_log_def showPrompt_def)
  then show ?thesis
  proof (rule goes_onI)
    show "answers C (Some slot) (client_log ?cl ?ls @ map sendMessage (own_hellos C s))"
      using own_hellos_said [OF sess(3)] sess(2) by (intro answers_append answers_messages answers_log) auto
    show "tuned C W slot ?cl" by (rule tuned_step(2) [OF cl good]) (simp add: heard_def)
  qed simp
next
  case False
  then have left: "e = PEER_LEFT" "PEER_LEFT \<noteq> PEER_JOINED" using e by auto
  note sess = tuned_session [OF cl]
  obtain s' w' where run: "onPeerLeft s (cl_world cl) = (s', w')" by fastforce
  then have good: "good_step C PeerLeft (s, cl_world cl) (s', w')" using onPeerLeft_good [OF sess(1), of C] by simp
  let ?cl = "cl\<lparr>cl_peerPresent := False, cl_session := Some s', cl_world := w'\<rparr>"
  have "client_system C (peer_event_msg e p t) cl = (Inr ?cl, client_log ?cl [js ''[SYSTEM] '' @ t,
      js ''[SESSION] Ended: the peer left, session state cleared. A new peer will trigger a new handshake.''])"
    using t left by (simp add: client_system_def notice_fields cl(2) run Let_def)
  then show ?thesis by (rule goes_onI) (use tuned_step(2) [OF cl good] answers_log in \<open>simp_all add: heard_def\<close>)
qed

lemma hears:
  assumes C: "honest_module C" and cl: "tuned C W slot cl" "cl_session cl = Some s" and said: "server_says C W slot m"
  shows "goes_on C W slot (client_handleMessage C m cl)"
  using said
proof cases
  case relayed
  have other: "otherSlot slot \<in> set SLOTS"
    using slot_parties(1) [OF tuned_session(1,2) [OF cl]] otherSlot_SLOTS by blast
  from relayed(1) other show ?thesis
  proof (cases rule: client_says_cases)
    case handshake
    from handshake(2) have type: "text_of (field m ''type'') \<in> set HANDSHAKE_TYPES" by (auto simp: relayable_def)
    then have "client_handleMessage C m cl = client_handshake C m cl"
      by (auto simp: client_handleMessage_def HANDSHAKE_TYPES_def Let_def)
    with hears_handshake [OF C cl handshake(1) relayed(2) type] show ?thesis by simp
  next
    case (chat t)
    then have "client_handleMessage C m cl = (Inr cl, client_log cl [otherSlot slot @ js '': '' @ t])"
      by (simp add: client_handleMessage_def chat_from_def createChatMessage_def)
    then show ?thesis by (rule goes_onI) (use cl answers_log in simp_all)
  qed
next
  case (news t)
  then have "client_handleMessage C m cl = (Inr cl, client_log cl [js ''[SYSTEM] '' @ t])"
    by (simp add: client_handleMessage_def client_system_def notice_fields Let_def)
  then show ?thesis by (rule goes_onI) (use cl answers_log in simp_all)
next
  case (presence e t)
  then have "client_handleMessage C m cl = client_system C m cl"
    by (simp add: client_handleMessage_def notice_fields)
  with hears_presence [OF cl presence(2,4)] presence(1) show ?thesis by simp
qed

section \<open>Many messages\<close>

lemma tuned_queue:
  "tuned C W slot cl \<Longrightarrow> \<forall>m \<in> set ms. server_says C W slot m \<Longrightarrow> tuned C W slot (cl\<lparr>cl_queue := ms\<rparr>)"
  by (auto simp: tuned_def client_core_flags split: option.splits)

lemma tuned_drain:
  assumes C: "honest_module C" and cl: "tuned C W slot cl"
  shows "\<exists>cl' es. drain C cl = (Inr cl', es) \<and> tuned C W slot cl' \<and> answers C (Some slot) es \<and> cl_buffer cl' = cl_buffer cl"
proof (cases "cl_session cl")
  case None
  then have "cl_generatingKeys cl" using cl by (simp add: tuned_def client_core_def)
  then have "drain C cl = (Inr cl, [])" by (simp add: drain_idle)
  with cl show ?thesis by (simp add: answers_log)
next
  case (Some s)
  with cl show ?thesis
  proof (induction "cl_queue cl" arbitrary: cl s)
    case Nil
    then have "drain C cl = (Inr cl, [])" by (simp add: drain_idle)
    with Nil show ?case by (simp add: answers_log)
  next
    case (Cons m ms)
    then have queue: "cl_queue cl = m # ms" by simp
    have gen: "\<not> cl_generatingKeys cl"
      using tuned_session(4) [OF Cons.prems] Cons.prems(1) by (simp add: tuned_def client_core_def)
    have ms: "server_says C W slot m" "\<forall>m \<in> set ms. server_says C W slot m"
      using Cons.prems(1) queue by (simp_all add: tuned_def)
    have "tuned C W slot (cl\<lparr>cl_queue := ms\<rparr>)" by (rule tuned_queue [OF Cons.prems(1) ms(2)])
    from hears [OF C this _ ms(1), of s] Cons.prems(2) obtain cl1 es1 where
      one: "client_handleMessage C m (cl\<lparr>cl_queue := ms\<rparr>) = (Inr cl1, es1)" "tuned C W slot cl1" "cl_session cl1 \<noteq> None"
        "answers C (Some slot) es1" by (auto simp: goes_on_def)
    have keeps: "cl_queue cl1 = ms" "cl_buffer cl1 = cl_buffer cl" using handleMessage_keeps [OF one(1)] by simp_all
    obtain s1 where "cl_session cl1 = Some s1" using one(3) by blast
    from Cons.hyps(1) [OF keeps(1) [symmetric] one(2) this] obtain cl2 es2 where
      rest: "drain C cl1 = (Inr cl2, es2)" "tuned C W slot cl2" "answers C (Some slot) es2" "cl_buffer cl2 = cl_buffer cl1" by blast
    have "drain C cl = (Inr cl2, es1 @ es2)" using drain_turn [OF queue gen] one(1) rest(1) by simp
    with rest answers_append [OF one(4) rest(3)] keeps(2) show ?case by metis
  qed
qed

text \<open>A rejected client prints what it gets.\<close>

lemma rejection_valid: "framed rejection" "validateMessage C rejection = Inr Valid"
proof -
  let ?t = "js ''CipherLink server already has two clients connected. Try again later.''"
  have "length ?t \<le> 100" "trim ?t \<noteq> []" by (simp_all add: blank_simps)
  then show "framed rejection" "validateMessage C rejection = Inr Valid"
    using notice_framed(2) [of ?t] validate_plain_iff [of "error_msg ?t" ERROR C]
    by (simp_all add: rejection_def)
      (simp add: error_msg_def createErrorMessage_def optional_version_def nonblank_def)
qed

lemma rejected_drain:
  "untuned (cl\<lparr>cl_queue := []\<rparr>) \<Longrightarrow> set (cl_queue cl) \<subseteq> {rejection} \<Longrightarrow>
    \<exists>es. drain C cl = (Inr (cl\<lparr>cl_queue := []\<rparr>), es) \<and> writes es = []"
proof (induction "cl_queue cl" arbitrary: cl)
  case Nil
  then show ?case by (simp add: drain_idle)
next
  case (Cons m ms)
  then have queue: "cl_queue cl = rejection # ms" and m: "m = rejection" by (metis insert_iff list.simps(15) singletonD subset_iff)+
  have gen: "\<not> cl_generatingKeys cl" using Cons.prems(1) by (simp add: untuned_def client_core_def)
  let ?cl = "cl\<lparr>cl_queue := ms\<rparr>"
  obtain es where es: "drain C ?cl = (Inr (cl\<lparr>cl_queue := []\<rparr>), es)" "writes es = []"
    using Cons.hyps(1) [of ?cl] Cons.prems queue by auto
  obtain ls where "client_handleMessage C rejection ?cl = (Inr ?cl, client_log ?cl ls)"
    by (simp add: client_handleMessage_def rejection_def error_msg_def createErrorMessage_def)
  then have "drain C cl = (Inr (cl\<lparr>cl_queue := []\<rparr>), client_log ?cl ls @ es)"
    using drain_turn [OF queue gen, of C] es(1) by simp
  with es(2) show ?case by simp
qed

section \<open>A piece of the stream\<close>

lemma accept_framed:
  "\<forall>m \<in> set ms. framed m \<and> validateMessage C m = Inr Valid \<Longrightarrow> accept_lines C (map json_text ms) = Inr ms"
proof (induction ms)
  case (Cons m ms)
  then have "json_ok m" "validateMessage C m = Inr Valid" by (simp_all add: framed_def)
  with Cons valid_frame [OF this] show ?case by simp
qed simp

lemma assigned_ok:
  assumes "slot \<in> set SLOTS"
  shows "framed (assigned slot)" "validateMessage C (assigned slot) = Inr Valid"
proof -
  have "length (js ''Connected as '' @ slot) \<le> 100" "trim (js ''Connected as '' @ slot) \<noteq> []"
    using assms by (auto simp: SLOTS_def CLIENT_A_def CLIENT_B_def blank_simps)
  then show "framed (assigned slot)" "validateMessage C (assigned slot) = Inr Valid"
    using notice_framed(1) notice_valid(1) by (simp_all add: assigned_def)
qed

lemma expects_framed:
  assumes "expects C W conn cl ms" "\<forall>slot. conn = Some slot \<longrightarrow> slot \<in> set SLOTS" "m \<in> set ms"
  shows "framed m \<and> validateMessage C m = Inr Valid"
proof (cases conn)
  case None
  with assms rejection_valid show ?thesis by auto
next
  case (Some slot)
  then have slot: "slot \<in> set SLOTS" using assms(2) by simp
  have "m = assigned slot \<or> server_says C W slot m" using assms(1,3) Some by (auto split: list.splits)
  with assigned_ok [OF slot] server_says_ok [OF _ slot] show ?thesis by blast
qed

text \<open>The name is assigned; what follows waits for the keys.\<close>

lemma named_drain:
  assumes "untuned (cl\<lparr>cl_queue := []\<rparr>)" "cl_queue cl = assigned slot # ms" "\<forall>m \<in> set ms. server_says C W slot m"
  shows "\<exists>cl' es. drain C cl = (Inr cl', es) \<and> tuned C W slot cl' \<and> writes es = [] \<and> cl_buffer cl' = cl_buffer cl"
proof -
  have gen: "\<not> cl_generatingKeys cl" using assms(1) by (simp add: untuned_def client_core_def)
  let ?cl = "cl\<lparr>cl_queue := ms\<rparr>"
  let ?cl1 = "?cl\<lparr>cl_myId := Some slot, cl_generatingKeys := True, cl_keyTimer := Some slot\<rparr>"
  obtain ls where "client_handleMessage C (assigned slot) ?cl = (Inr ?cl1, client_log ?cl1 ls)"
    using slice_from_append [of connected_as slot]
    by (simp add: client_handleMessage_def client_system_def assigned_def notice_fields connected_as_def startsWith_def
        onIdentityAssigned_def Let_def)
  then have "drain C cl = (Inr ?cl1, client_log ?cl1 ls)"
    using drain_turn [OF assms(2) gen, of C] by (simp add: drain_idle)
  moreover have "tuned C W slot ?cl1"
    using assms(1,3) by (simp add: untuned_def tuned_def client_core_def session_part_def)
  ultimately show ?thesis by simp
qed

lemma buffer_core: "client_core cl \<Longrightarrow> lb_inv lb \<Longrightarrow> lb_maxFrameSize lb = MAX_FRAME_SIZE \<Longrightarrow> client_core (cl\<lparr>cl_buffer := lb, cl_queue := q\<rparr>)"
  by (simp add: client_core_def session_part_def)

lemma piece_heard:
  assumes C: "honest_module C" and cl: "expects C W conn cl ms" and conn: "\<forall>slot. conn = Some slot \<longrightarrow> slot \<in> set SLOTS"
    and stream: "lb_buffer (cl_buffer cl) @ stream = stream_of ms" "next_piece piece stream"
  shows "\<exists>cl' es ms'. client_step C (DataChunk (utf8_encode piece)) cl = (Inr cl', es) \<and> answers C conn es
    \<and> lb_buffer (cl_buffer cl') @ drop (length piece) stream = stream_of ms' \<and> expects C W conn cl' ms'"
proof -
  have core: "client_core cl" using cl by (cases conn) (auto simp: untuned_def tuned_def split: list.splits)
  note ok = expects_framed [OF cl conn]
  have "\<forall>m \<in> set ms. framed m" "lb_maxFrameSize (cl_buffer cl) = MAX_FRAME_SIZE"
    using ok core by (simp_all add: client_core_def)
  from piece_buffered [OF stream(1) this(1) stream(2) this(2)] obtain ms1 ms2 b where
    ms: "ms = ms1 @ ms2" "b @ drop (length piece) stream = stream_of ms2"
    and app: "lb_append (cl_buffer cl) (utf8_decode (utf8_encode piece)) = (Inr (map json_text ms1), (cl_buffer cl)\<lparr>lb_buffer := b\<rparr>)" by blast
  let ?lb = "(cl_buffer cl)\<lparr>lb_buffer := b\<rparr>"
  let ?cl = "cl\<lparr>cl_buffer := ?lb, cl_queue := cl_queue cl @ ms1\<rparr>"
  have "accept_lines C (map json_text ms1) = Inr ms1" using ok ms(1) by (intro accept_framed) auto
  then have step: "client_step C (DataChunk (utf8_encode piece)) cl = drain C ?cl"
    by (simp add: client_on_data_def app)
  have lb: "lb_inv ?lb" "lb_maxFrameSize ?lb = MAX_FRAME_SIZE"
    using lb_inv_append [of "cl_buffer cl" "utf8_decode (utf8_encode piece)"] core by (simp_all add: app client_core_def)
  note core' = buffer_core [OF core lb]
  have tuned: "tuned C W slot cl \<Longrightarrow> \<forall>m \<in> set ms1. server_says C W slot m \<Longrightarrow> tuned C W slot ?cl" for slot
    using core' by (auto simp: tuned_def split: option.splits)
  have untuned: "untuned cl \<Longrightarrow> untuned (?cl\<lparr>cl_queue := []\<rparr>)" using core' by (simp add: untuned_def client_core_flags)
  show ?thesis
  proof (cases conn)
    case None
    with cl ms(1) have "untuned (?cl\<lparr>cl_queue := []\<rparr>)" "set (cl_queue ?cl) \<subseteq> {rejection}" "set ms2 \<subseteq> {rejection}"
      using untuned by (auto simp: untuned_def)
    with rejected_drain [OF this(1,2), of C] step ms(2) None show ?thesis by (intro exI [of _ "?cl\<lparr>cl_queue := []\<rparr>"]) auto
  next
    case (Some slot)
    show ?thesis
    proof (cases "tuned C W slot cl \<and> (\<forall>m \<in> set ms. server_says C W slot m)")
      case True
      with tuned [of slot] ms(1) tuned_drain [OF C, of W slot ?cl] obtain cl' es where
        "drain C ?cl = (Inr cl', es)" "tuned C W slot cl'" "answers C conn es" "cl_buffer cl' = ?lb"
        by (auto simp: Some)
      moreover have "expects C W conn cl' ms2" using \<open>tuned C W slot cl'\<close> True ms(1) by (simp add: Some)
      ultimately show ?thesis using step ms(2) by (intro exI [of _ cl'] exI [of _ es] exI [of _ ms2]) simp
    next
      case False
      with cl Some obtain ms' where un: "untuned cl" "ms = assigned slot # ms'" "\<forall>m \<in> set ms'. server_says C W slot m"
        by (auto split: list.splits)
      show ?thesis
      proof (cases ms1)
        case Nil
        with un have "drain C ?cl = (Inr ?cl, [])" by (simp add: drain_idle untuned_def)
        moreover have "expects C W conn ?cl ms2"
          using untuned [OF un(1)] un ms(1) Nil Some by (simp add: untuned_def)
        ultimately show ?thesis using step ms(2) answers_log(2) by (intro exI [of _ ?cl] exI [of _ "[]"] exI [of _ ms2]) simp
      next
        case (Cons m r)
        with un ms(1) have r: "m = assigned slot" "\<forall>m \<in> set r. server_says C W slot m" "\<forall>m \<in> set ms2. server_says C W slot m"
          by auto
        have "cl_queue ?cl = assigned slot # r" using un(1) Cons r(1) by (simp add: untuned_def)
        from named_drain [OF untuned [OF un(1)] this r(2)] obtain cl' es where
          "drain C ?cl = (Inr cl', es)" "tuned C W slot cl'" "writes es = []" "cl_buffer cl' = ?lb" by auto
        moreover have "expects C W conn cl' ms2" using \<open>tuned C W slot cl'\<close> r(3) by (simp add: Some)
        ultimately show ?thesis using step ms(2) answers_nothing [of es]
          by (intro exI [of _ cl'] exI [of _ es] exI [of _ ms2]) simp
      qed
    qed
  qed
qed

section \<open>The other events\<close>

lemma keys_created:
  assumes C: "honest_module C" and cl: "tuned C W slot cl" "cl_session cl = None" and slot: "slot \<in> set SLOTS"
  shows "\<exists>cl' es. client_step C KeysDue cl = (Inr cl', es) \<and> tuned C W slot cl' \<and> answers C (Some slot) es
    \<and> cl_buffer cl' = cl_buffer cl"
proof -
  obtain i r where i: "createIdentity C (w_entropy (cl_world cl)) = (i, r)" by fastforce
  then have ok: "client_ok C i" using C by (metis fst_conv honest_module_def)
  have name: "VStr slot = client_A \<or> VStr slot = client_B" using slot by (auto simp: SLOTS_def slot_values)
  have "truthy (PEER_OF slot)"
    using slot by (auto simp: SLOTS_def CLIENT_A_def CLIENT_B_def PEER_OF_def table_lookup_def js_def unit_of_def)
  then obtain s where s: "new_PeerSession slot i = Inr s" "ps_selfId s = slot" "ps_state s = NO_SESSION"
    by (auto simp: new_PeerSession_def)
  let ?w = "(cl_world cl)\<lparr>w_entropy := r\<rparr>"
  let ?cl = "cl\<lparr>cl_identity := Some i, cl_session := Some s, cl_generatingKeys := False, cl_keyTimer := None, cl_world := ?w\<rparr>"
  have core: "client_core cl" and timer: "cl_keyTimer cl = Some slot" using cl by (simp_all add: tuned_def)
  have "\<forall>a < length (w_heap ?w). zeroed ?w a"
    using core cl(2) by (simp add: client_core_def session_part_def zeroed_def)
  from new_session_inv [OF s(1) name client_okD(1) [OF ok] this] have inv: "session_inv s ?w" "ps_identity s = i" by simp_all
  then have "tuned C W slot ?cl"
    using cl ok s(2,3) core by (auto simp: tuned_def client_core_def session_part_def session_phase_def)
  from tuned_drain [OF C this] obtain cl' es where drained: "drain C ?cl = (Inr cl', es)" "tuned C W slot cl'"
    "answers C (Some slot) es" "cl_buffer cl' = cl_buffer cl" by auto
  obtain ls where "client_step C KeysDue cl = (Inr cl', client_log ?cl ls @ es)"
    using drained(1) by (simp add: timer client_on_keys_def i s(1) Let_def)
  with drained answers_append [OF answers_log(1) drained(3)] show ?thesis by blast
qed

text \<open>An event that changes nothing but the two flags.\<close>

definition only_flags :: "'r client \<Rightarrow> 'r client \<Rightarrow> bool" where
  "only_flags cl cl' \<longleftrightarrow> (\<exists>b c. cl' = cl\<lparr>cl_closing := b, cl_destroyed := c\<rparr>)"

lemma only_flags_refl: "only_flags cl cl" "only_flags cl (cl\<lparr>cl_closing := b\<rparr>)" "only_flags cl (cl\<lparr>cl_destroyed := b\<rparr>)"
proof -
  show "only_flags cl cl" unfolding only_flags_def by (rule exI [of _ "cl_closing cl"], rule exI [of _ "cl_destroyed cl"]) simp
  show "only_flags cl (cl\<lparr>cl_closing := b\<rparr>)" unfolding only_flags_def by (rule exI [of _ b], rule exI [of _ "cl_destroyed cl"]) simp
  show "only_flags cl (cl\<lparr>cl_destroyed := b\<rparr>)" unfolding only_flags_def by (rule exI [of _ "cl_closing cl"], rule exI [of _ b]) simp
qed

lemma only_flags_expects: "only_flags cl cl' \<Longrightarrow> expects C W conn cl' ms = expects C W conn cl ms \<and> cl_buffer cl' = cl_buffer cl"
  by (auto simp: only_flags_def)

lemma shutdown_flags:
  "client_shutdown t cl = (cl', es) \<Longrightarrow> only_flags cl cl' \<and> writes es = []"
  by (auto simp: client_shutdown_def only_flags_refl split: if_splits)

lemma command_flags:
  assumes "session_ok cl"
  shows "\<exists>cl' es. runCommand C t cl = (Inr cl', es) \<and> only_flags cl cl' \<and> writes es = []"
proof -
  obtain ls where "statusLines C cl = Inr ls" using status_returns [OF assms] by blast
  moreover obtain cl' es where "client_shutdown (js ''Disconnecting...'') cl = (cl', es)" by fastforce
  ultimately show ?thesis using shutdown_flags [of "js ''Disconnecting...''" cl cl' es] only_flags_refl(1) [of cl]
    by (auto simp: runCommand_def)
qed

lemma line_heard:
  assumes "session_ok cl"
  shows "\<exists>cl' es. client_step C (UserLine line) cl = (Inr cl', es) \<and> only_flags cl cl'
    \<and> (writes es = [] \<or> (\<exists>slot. cl_myId cl = Some slot \<and> trim line \<noteq> [] \<and> framed (chat_from slot (trim line))
         \<and> writes es = [encode (chat_from slot (trim line))]))"
proof (cases "trim line \<noteq> [] \<and> startsWith (trim line) (js ''/'')")
  case True
  with command_flags [OF assms, of C "trim line"] show ?thesis by (auto simp: client_on_line_def)
next
  case False
  have fits: "framed (chat_from slot t)" if "\<not> MAX_FRAME_SIZE < byteLength (encode (chat_from slot t))" for slot t
  proof -
    have "json_ok (chat_from slot t)" by (simp add: chat_from_def chat_ok)
    with that byteLength_prefix [of "json_text (chat_from slot t)" "[10]"] show ?thesis
      by (simp add: framed_def encode_text)
  qed
  show ?thesis
  proof (cases "trim line = [] \<or> cl_myId cl = None \<or> cl_destroyed cl")
    case True
    then have "\<exists>es. client_step C (UserLine line) cl = (Inr cl, es) \<and> writes es = []"
      using False by (auto simp: client_on_line_def Let_def showPrompt_def split: option.split)
    then show ?thesis using only_flags_refl(1) by blast
  next
    case sends: False
    then obtain slot where slot: "cl_myId cl = Some slot" by auto
    let ?m = "chat_from slot (trim line)"
    have step: "client_step C (UserLine line) cl =
        (if MAX_FRAME_SIZE < byteLength (encode ?m)
         then (Inr cl, client_log cl [js ''[ERROR] Message too long (limit is ''
                    @ nat_to_string MAX_FRAME_SIZE @ js '' bytes per message). Not sent.''])
         else (Inr cl, SocketWrite (encode ?m) # showPrompt cl))"
      using sends False slot by (simp add: client_on_line_def Let_def chat_from_def)
    show ?thesis
    proof (cases "MAX_FRAME_SIZE < byteLength (encode ?m)")
      case True
      with step only_flags_refl(1) show ?thesis by auto
    next
      case fit: False
      then have "client_step C (UserLine line) cl = (Inr cl, SocketWrite (encode ?m) # showPrompt cl)" using step by simp
      moreover have "writes (SocketWrite (encode ?m) # showPrompt cl) = [encode ?m]" by (simp add: showPrompt_def)
      ultimately show ?thesis using fits [OF fit] sends slot only_flags_refl(1) by blast
    qed
  qed
qed

lemma event_heard:
  assumes C: "honest_module C" and cl: "expects C W conn cl ms" and conn: "\<forall>slot. conn = Some slot \<longrightarrow> slot \<in> set SLOTS"
    and ev: "own_client_event cl ev"
  shows "\<exists>cl' es. client_step C ev cl = (Inr cl', es) \<and> says C conn ev es
    \<and> cl_buffer cl' = cl_buffer cl \<and> expects C W conn cl' ms"
proof -
  have ok: "session_ok cl" using cl tuned_ok by (cases conn) (auto split: list.splits)
  have flags: "\<exists>cl' es. client_step C ev cl = (Inr cl', es) \<and> says C conn ev es
    \<and> cl_buffer cl' = cl_buffer cl \<and> expects C W conn cl' ms"
    if "client_step C ev cl = (Inr cl1, es1)" "only_flags cl cl1" "says C conn ev es1" for cl1 es1
    using that cl only_flags_expects [OF that(2), of C W conn ms] by blast
  show ?thesis
  proof (cases ev)
    case (DataChunk chunk)
    with ev show ?thesis by simp
  next
    case KeysDue
    with ev have timer: "cl_keyTimer cl \<noteq> None" by simp
    then obtain slot where slot: "conn = Some slot" "tuned C W slot cl" "\<forall>m \<in> set ms. server_says C W slot m"
      using cl by (cases conn) (auto simp: untuned_def split: list.splits)
    with timer have "cl_session cl = None" by (auto simp: tuned_def split: option.splits)
    from keys_created [OF C slot(2) this] conn slot obtain cl' es where
      "client_step C KeysDue cl = (Inr cl', es)" "tuned C W slot cl'" "answers C conn es" "cl_buffer cl' = cl_buffer cl"
      by blast
    with slot answers_said [of C conn es KeysDue] show ?thesis by (simp add: KeysDue del: answers.simps)
  next
    case (UserLine line)
    obtain cl' es where step: "client_step C (UserLine line) cl = (Inr cl', es)" "only_flags cl cl'"
      "writes es = [] \<or> (\<exists>slot. cl_myId cl = Some slot \<and> trim line \<noteq> [] \<and> framed (chat_from slot (trim line))
         \<and> writes es = [encode (chat_from slot (trim line))])"
      using line_heard [OF ok, of C line] by blast
    have "says C conn ev es"
      using step(3)
    proof
      assume "\<exists>slot. cl_myId cl = Some slot \<and> trim line \<noteq> [] \<and> framed (chat_from slot (trim line))
         \<and> writes es = [encode (chat_from slot (trim line))]"
      then obtain slot where s: "cl_myId cl = Some slot" "trim line \<noteq> []" "framed (chat_from slot (trim line))"
        "writes es = [encode (chat_from slot (trim line))]" by blast
      moreover have "conn = Some slot" using cl s(1) by (cases conn) (auto simp: untuned_def tuned_def split: list.splits)
      ultimately show ?thesis unfolding says_def UserLine by blast
    qed (rule says_nothing)
    with flags step(1,2) show ?thesis by (simp add: UserLine)
  next
    case Interrupt
    obtain cl' es where "client_shutdown (nl @ js ''Disconnecting...'') cl = (cl', es)" by fastforce
    with shutdown_flags [OF this] flags [of cl' es] says_nothing [of es C conn ev] show ?thesis by (simp add: Interrupt)
  next
    case InputClosed
    obtain cl' es where "client_shutdown (js ''Input closed. Disconnecting...'') cl = (cl', es)" by fastforce
    with shutdown_flags [OF this] flags [of cl' es] says_nothing [of es C conn ev] show ?thesis by (simp add: InputClosed)
  next
    case Destroyed_socket
    with cl says_nothing [of "[]" C conn ev] show ?thesis by simp
  next
    case ServerClosed
    with cl show ?thesis by (simp add: says_nothing)
  next
    case (SocketFailed refused m)
    with cl show ?thesis by (simp add: says_nothing)
  next
    case ExitDue
    with cl show ?thesis by (simp add: says_nothing)
  qed
qed

section \<open>What reaches the connection\<close>

text \<open>The effects of a client append some of what it says to the stream, and may end the process.\<close>

lemma client_effect_elsewhere:
  "se_server (fold (client_effect_at k) es se) = se_server se"
  "se_down (fold (client_effect_at k) es se) = se_down se"
  "se_downEnded (fold (client_effect_at k) es se) = se_downEnded se"
  "j \<noteq> k \<Longrightarrow> se_up (fold (client_effect_at k) es se) j = se_up se j"
  "j \<noteq> k \<Longrightarrow> se_client (fold (client_effect_at k) es se) j = se_client se j"
proof -
  have one: "se_server (client_effect_at k ef se) = se_server se \<and> se_down (client_effect_at k ef se) = se_down se
    \<and> se_downEnded (client_effect_at k ef se) = se_downEnded se
    \<and> (j \<noteq> k \<longrightarrow> se_up (client_effect_at k ef se) j = se_up se j \<and> se_client (client_effect_at k ef se) j = se_client se j)"
    for ef and se :: "'a service" by (cases ef) simp_all
  have "se_server (fold (client_effect_at k) es se) = se_server se \<and> se_down (fold (client_effect_at k) es se) = se_down se
    \<and> se_downEnded (fold (client_effect_at k) es se) = se_downEnded se
    \<and> (j \<noteq> k \<longrightarrow> se_up (fold (client_effect_at k) es se) j = se_up se j
        \<and> se_client (fold (client_effect_at k) es se) j = se_client se j)"
    by (induction es arbitrary: se) (simp_all add: one)
  then show "se_server (fold (client_effect_at k) es se) = se_server se"
    "se_down (fold (client_effect_at k) es se) = se_down se"
    "se_downEnded (fold (client_effect_at k) es se) = se_downEnded se"
    "j \<noteq> k \<Longrightarrow> se_up (fold (client_effect_at k) es se) j = se_up se j"
    "j \<noteq> k \<Longrightarrow> se_client (fold (client_effect_at k) es se) j = se_client se j" by blast+
qed

lemma client_effect_client:
  "se_client (fold (client_effect_at k) es se) k = se_client se k \<or> se_client (fold (client_effect_at k) es se) k = None"
proof (induction es arbitrary: se)
  case (Cons ef es)
  have "se_client (client_effect_at k ef se) k = se_client se k \<or> se_client (client_effect_at k ef se) k = None"
    by (cases ef) simp_all
  with Cons [of "client_effect_at k ef se"] show ?case by auto
qed simp

lemma client_effect_running:
  "\<not> list_ex is_exit es \<Longrightarrow> se_client (fold (client_effect_at k) es se) k = se_client se k"
proof (induction es arbitrary: se)
  case (Cons ef es)
  have "se_client (client_effect_at k ef se) k = se_client se k" using Cons.prems by (cases ef) simp_all
  with Cons show ?case by simp
qed simp

lemma client_effect_ended: "se_upEnded se k \<Longrightarrow> se_up (fold (client_effect_at k) es se) k = se_up se k"
proof (induction es arbitrary: se)
  case (Cons ef es)
  have "se_upEnded (client_effect_at k ef se) k \<and> se_up (client_effect_at k ef se) k = se_up se k"
    using Cons.prems by (cases ef) simp_all
  with Cons.IH [of "client_effect_at k ef se"] show ?case by simp
qed simp

lemma client_effect_stream:
  "\<exists>n. se_up (fold (client_effect_at k) es se) k = se_up se k @ concat (take n (writes es))"
proof (induction es arbitrary: se)
  case (Cons ef es)
  show ?case
  proof (cases "se_upEnded se k")
    case True
    from client_effect_ended [OF this, of "ef # es"] show ?thesis by (intro exI [of _ 0]) simp
  next
    case False
    obtain n where n: "se_up (fold (client_effect_at k) es (client_effect_at k ef se)) k
        = se_up (client_effect_at k ef se) k @ concat (take n (writes es))" using Cons.IH by blast
    show ?thesis
    proof (cases "\<exists>t. ef = SocketWrite t")
      case True
      with n False show ?thesis by (intro exI [of _ "Suc n"]) auto
    next
      case no: False
      then have "frame_of ef = []" "se_up (client_effect_at k ef se) k = se_up se k" by (cases ef; simp)+
      with n show ?thesis by (intro exI [of _ n]) simp
    qed
  qed
qed simp

lemma says_messages:
  assumes "says C (Some slot) ev es"
  shows "\<exists>ds. writes es = map encode ds \<and> (\<forall>d \<in> set ds. client_says C slot d
    \<and> (field d ''type'' = VStr CHAT \<longrightarrow> (\<exists>line. ev = UserLine line \<and> d = chat_from slot (trim line))))"
  using assms unfolding says_def
proof
  assume "answers C (Some slot) es"
  then obtain ds where ds: "writes es = map encode ds" "\<forall>d \<in> set ds. handshake_says C slot d" by auto
  have "field d ''type'' \<noteq> VStr CHAT" if "handshake_says C slot d" for d
    using that by cases auto
  with ds show ?thesis by (intro exI [of _ ds]) (auto intro: client_says.handshake)
next
  assume "\<exists>line slot'. ev = UserLine line \<and> Some slot = Some slot' \<and> trim line \<noteq> [] \<and> framed (chat_from slot' (trim line))
    \<and> writes es = [encode (chat_from slot' (trim line))]"
  then obtain line where "ev = UserLine line" "trim line \<noteq> []" "framed (chat_from slot (trim line))"
    "writes es = [encode (chat_from slot (trim line))]" by blast
  with client_says.chat [of "trim line" slot C] show ?thesis
    by (intro exI [of _ "[chat_from slot (trim line)]"]) (simp add: trim_twice)
qed

end
