(* ===== verification/ServerSpeech.thy ===== *)
theory ServerSpeech
  imports ClientSpeech
begin

text \<open>
  The server of the service: on what clients say it does not crash, closes no connection for
  a long frame, and writes to each connection only what the server says to its slot.
\<close>

section \<open>What is written where\<close>

text \<open>Every connection is sent what the server says to its slot, and no other socket anything.\<close>

definition addressed :: "'r node_crypto \<Rightarrow> sources \<Rightarrow> server \<Rightarrow> effect list \<Rightarrow> bool" where
  "addressed C W sv es \<longleftrightarrow>
     (\<forall>j. \<exists>ms. sent_to j es = map encode ms \<and> (\<forall>m \<in> set ms. \<exists>c. sv_conns sv j = Some c \<and> server_says C W (cn_slot c) m))"

lemma addressedE:
  assumes "addressed C W sv es"
  obtains ms where "sent_to j es = map encode ms" "\<forall>m \<in> set ms. \<exists>c. sv_conns sv j = Some c \<and> server_says C W (cn_slot c) m"
  using assms unfolding addressed_def by meson

lemma addressed_simps [simp]:
  "addressed C W sv []" "addressed C W sv (Log l # es) = addressed C W sv es" "addressed C W sv (LogError l e # es) = addressed C W sv es"
  "addressed C W sv (CloseListener # es) = addressed C W sv es" "addressed C W sv (FallbackTimer # es) = addressed C W sv es"
  "addressed C W sv (Console l # es) = addressed C W sv es" "addressed C W sv (ConsoleError l # es) = addressed C W sv es"
  "addressed C W sv (ExitProcess n # es) = addressed C W sv es" "addressed C W sv (End k None # es) = addressed C W sv es"
  by (simp_all add: addressed_def)

lemma addressed_append: "addressed C W sv es \<Longrightarrow> addressed C W sv es' \<Longrightarrow> addressed C W sv (es @ es')"
  unfolding addressed_def
proof (intro allI)
  fix j
  assume "\<forall>j. \<exists>ms. sent_to j es = map encode ms \<and> (\<forall>m \<in> set ms. \<exists>c. sv_conns sv j = Some c \<and> server_says C W (cn_slot c) m)"
    and "\<forall>j. \<exists>ms. sent_to j es' = map encode ms \<and> (\<forall>m \<in> set ms. \<exists>c. sv_conns sv j = Some c \<and> server_says C W (cn_slot c) m)"
  then obtain ms ms' where "sent_to j es = map encode ms" "sent_to j es' = map encode ms'"
    "\<forall>m \<in> set ms. \<exists>c. sv_conns sv j = Some c \<and> server_says C W (cn_slot c) m"
    "\<forall>m \<in> set ms'. \<exists>c. sv_conns sv j = Some c \<and> server_says C W (cn_slot c) m" by meson
  then show "\<exists>ms. sent_to j (es @ es') = map encode ms \<and> (\<forall>m \<in> set ms. \<exists>c. sv_conns sv j = Some c \<and> server_says C W (cn_slot c) m)"
    by (intro exI [of _ "ms @ ms'"]) auto
qed

lemma addressed_write:
  assumes "sv_conns sv k = Some c" "server_says C W (cn_slot c) m"
  shows "addressed C W sv (writeTo sv' (Some k) (encode m))"
proof -
  have "\<exists>ms. sent_to j (writeTo sv' (Some k) (encode m)) = map encode ms
      \<and> (\<forall>m \<in> set ms. \<exists>c. sv_conns sv j = Some c \<and> server_says C W (cn_slot c) m)" for j
    using assms by (cases "j = k \<and> \<not> is_destroyed sv' k"; intro exI [of _ "if j = k \<and> \<not> is_destroyed sv' k then [m] else []"])
      (auto simp: writeTo_def)
  then show ?thesis by (simp add: addressed_def)
qed

lemma addressed_send:
  "sv_conns sv k = Some c \<Longrightarrow> server_says C W (cn_slot c) m \<Longrightarrow> addressed C W sv (send sv' (Some k) m)"
  by (simp add: send_def addressed_write)

lemma addressed_slot:
  assumes "server_inv sv" "\<And>p. sv_clients sv slot = Some p \<Longrightarrow> addressed C W sv (f p)"
  shows "addressed C W sv (case sv_clients sv slot of None \<Rightarrow> [] | Some p \<Rightarrow> f p)"
  using assms(2) by (cases "sv_clients sv slot") simp_all

lemma addressed_cong: "(\<And>j. map_option cn_slot (sv_conns sv j) = map_option cn_slot (sv_conns sv' j)) \<Longrightarrow> addressed C W sv es = addressed C W sv' es"
proof -
  assume same: "\<And>j. map_option cn_slot (sv_conns sv j) = map_option cn_slot (sv_conns sv' j)"
  have "(\<exists>c. sv_conns sv j = Some c \<and> server_says C W (cn_slot c) m) = (\<exists>c. sv_conns sv' j = Some c \<and> server_says C W (cn_slot c) m)" for j m
    using same [of j] by (cases "sv_conns sv j"; cases "sv_conns sv' j") auto
  then show ?thesis by (simp add: addressed_def)
qed

section \<open>One line\<close>

lemma undelivered_said:
  assumes "slot \<in> set SLOTS"
  shows "server_says C W slot (system_msg (otherSlot slot @ js '' is not connected. Message not delivered.''))"
proof -
  have peer: "otherSlot slot = CLIENT_A \<or> otherSlot slot = CLIENT_B" by (simp add: otherSlot_def)
  show ?thesis
  proof (rule server_says.news)
    show "\<not> startsWith (otherSlot slot @ js '' is not connected. Message not delivered.'') connected_as"
      using peer by (auto simp: CLIENT_A_def CLIENT_B_def connected_as_def startsWith_def js_def unit_of_def)
  qed (use peer in \<open>auto simp: CLIENT_A_def CLIENT_B_def blank_simps\<close>)
qed

lemma relay_addressed:
  assumes inv: "server_inv sv" and k: "sv_conns sv k = Some c" "cn_slot c = slot" and said: "client_says C slot m" "W slot m"
  shows "addressed C W sv (relay sv k slot (json_text m) m)"
proof -
  have slot: "slot \<in> set SLOTS" using server_invD(3) [OF inv k(1)] k(2) by simp
  have peer: "addressed C W sv (case sv_clients sv (otherSlot slot) of None \<Rightarrow> send sv (Some k)
      (system_msg (otherSlot slot @ js '' is not connected. Message not delivered.'')) | Some p \<Rightarrow> writeTo sv (Some p) (encode m))"
  proof (cases "sv_clients sv (otherSlot slot)")
    case None
    with addressed_send [OF k(1), where sv' = sv] undelivered_said [OF slot, of C W] k(2) show ?thesis by simp
  next
    case (Some p)
    then obtain c' where c': "sv_conns sv p = Some c'" "cn_slot c' = otherSlot slot"
      using server_invD(1) [OF inv] by blast
    have "server_says C W (cn_slot c') m"
      using server_says.relayed [of C "otherSlot slot" m W] said otherSlot_SLOTS [OF slot] by (simp add: c'(2))
    with addressed_write [OF c'(1)] Some show ?thesis by simp
  qed
  from said(1) slot show ?thesis
  proof (cases rule: client_says_cases)
    case handshake
    from handshake(2) obtain ty where ty: "field m ''type'' = VStr ty" "ty \<in> set HANDSHAKE_TYPES"
      "ty = HELLO \<or> field m ''recipient'' = VStr (otherSlot slot)" "field m ''sender'' = VStr slot" "json_ok m"
      by (auto simp: relayable_def)
    then have "relay sv k slot (json_text m) m = Log (slot @ js '' -> '' @ otherSlot slot @ js '': '' @ ty) #
        (case sv_clients sv (otherSlot slot) of None \<Rightarrow> send sv (Some k)
          (system_msg (otherSlot slot @ js '' is not connected. Message not delivered.'')) | Some p \<Rightarrow> writeTo sv (Some p) (encode m))"
      by (auto simp: relay_def Let_def encode_text split: option.split)
    with peer show ?thesis by simp
  next
    case (chat t)
    then have "relay sv k slot (json_text m) m = Log (slot @ js '' -> '' @ otherSlot slot @ js '': '' @ t) #
        (case sv_clients sv (otherSlot slot) of None \<Rightarrow> send sv (Some k)
          (system_msg (otherSlot slot @ js '' is not connected. Message not delivered.'')) | Some p \<Rightarrow> writeTo sv (Some p) (encode m))"
      by (auto simp: relay_def Let_def HANDSHAKE_TYPES_def chat_from_def createChatMessage_def send_def split: option.split)
    with peer show ?thesis by simp
  qed
qed

lemma lines_addressed:
  assumes "server_inv sv" "sv_conns sv k = Some c" "cn_slot c = slot"
  shows "\<forall>m \<in> set ms. client_says C slot m \<and> W slot m \<Longrightarrow>
    \<exists>es. handle_lines C sv k slot (map json_text ms) = (es, None) \<and> addressed C W sv es"
proof (induction ms)
  case (Cons m ms)
  have slot: "slot \<in> set SLOTS" using server_invD(3) [OF assms(1,2)] assms(3) by simp
  have said: "client_says C slot m" "W slot m" using Cons.prems by simp_all
  note ok = client_says_ok [OF said(1) slot]
  obtain es where "handle_lines C sv k slot (map json_text ms) = (es, None)" "addressed C W sv es" using Cons by auto
  moreover have "handle_line C sv k slot (json_text m) = Inr (relay sv k slot (json_text m) m)"
    using ok(1) valid_frame [of m C] ok(2) by (simp add: handle_line_def framed_def)
  ultimately show ?case using relay_addressed [where W = W, OF assms said] by (simp add: addressed_append)
qed simp

text \<open>Lines never end a connection.\<close>

lemma no_end_sent: "End j t \<notin> set (writeTo sv so x)" "End j t \<notin> set (send sv so m)"
  by (simp_all add: send_def writeTo_def split: option.split)

lemma no_end_relayed: "End j t \<notin> set (relay sv k slot line msg)"
  by (simp add: relay_def Let_def no_end_sent split: option.split)

lemma line_no_end: "handle_line C sv k slot line = Inr es \<Longrightarrow> End j t \<notin> set es"
  by (auto simp: handle_line_def no_end_sent no_end_relayed split: if_splits sum.splits validation.splits)

text \<open>A piece of what a client says, at its connection.\<close>

lemma piece_served:
  assumes inv: "server_inv sv" and k: "sv_conns sv k = Some c" "\<not> cn_closing c"
    and stream: "lb_buffer (cn_buffer c) @ stream = stream_of ms" "\<forall>m \<in> set ms. client_says C (cn_slot c) m \<and> W (cn_slot c) m"
    and piece: "next_piece piece stream"
  shows "\<exists>b ms' es. server_step C (DataIn k (utf8_encode piece)) sv =
      (Inr (set_conn k (c\<lparr>cn_buffer := (cn_buffer c)\<lparr>lb_buffer := b\<rparr>\<rparr>) sv), es)
    \<and> b @ drop (length piece) stream = stream_of ms' \<and> set ms' \<subseteq> set ms
    \<and> addressed C W sv es \<and> (\<forall>j t. End j t \<notin> set es)"
proof -
  have slot: "cn_slot c \<in> set SLOTS" and lb: "lb_maxFrameSize (cn_buffer c) = MAX_FRAME_SIZE"
    using server_invD(3) [OF inv k(1)] by simp_all
  have "\<forall>m \<in> set ms. framed m" using stream(2) client_says_ok(1) slot by blast
  from piece_buffered [OF stream(1) this piece lb] obtain ms1 ms2 b where
    ms: "ms = ms1 @ ms2" "b @ drop (length piece) stream = stream_of ms2"
    and app: "lb_append (cn_buffer c) (utf8_decode (utf8_encode piece)) = (Inr (map json_text ms1), (cn_buffer c)\<lparr>lb_buffer := b\<rparr>)" by blast
  let ?c = "c\<lparr>cn_buffer := (cn_buffer c)\<lparr>lb_buffer := b\<rparr>\<rparr>"
  let ?sv = "set_conn k ?c sv"
  have inv': "server_inv ?sv"
  proof (rule set_conn_inv [OF inv k(1)])
    show "lb_inv (cn_buffer ?c)" using lb_inv_append [of "cn_buffer c" "utf8_decode (utf8_encode piece)"] by (simp add: app)
  qed (use k(2) lb in simp_all)
  have "sv_conns ?sv k = Some ?c" "cn_slot ?c = cn_slot c" by (simp_all add: set_conn_def)
  note served = lines_addressed [OF inv' this, of ms1 C W]
  have "\<forall>m \<in> set ms1. client_says C (cn_slot c) m \<and> W (cn_slot c) m" using stream(2) ms(1) by simp
  from served [OF this] obtain es where
    es: "handle_lines C ?sv k (cn_slot c) (map json_text ms1) = (es, None)" "addressed C W ?sv es" by blast
  have "addressed C W sv es" using es(2) addressed_cong [of ?sv sv C W es] k(1) by (simp add: set_conn_def)
  moreover have "server_step C (DataIn k (utf8_encode piece)) sv = (Inr ?sv, es)"
    using k es(1) by (simp add: on_data_def app Let_def)
  moreover have "\<forall>j t. End j t \<notin> set es"
    using handle_lines_effects [of _ C ?sv k "cn_slot c" "map json_text ms1"] line_no_end by (fastforce simp: es(1))
  ultimately show ?thesis using ms by (intro exI [of _ b] exI [of _ ms2] exI [of _ es]) simp
qed

section \<open>Connections that come and go\<close>

lemma presence_said:
  assumes "slot \<in> set SLOTS" "e \<in> {PEER_JOINED, PEER_LEFT}"
    and "t \<in> {js '' has joined the chat.'', js '' is already connected.'', js '' has disconnected.''}"
  shows "server_says C W slot (peer_event_msg e (otherSlot slot) (otherSlot slot @ t))"
proof -
  have peer: "otherSlot slot = CLIENT_A \<or> otherSlot slot = CLIENT_B" by (simp add: otherSlot_def)
  show ?thesis
  proof (rule server_says.presence [OF assms(2)])
    show "\<not> startsWith (otherSlot slot @ t) connected_as"
      using peer by (auto simp: CLIENT_A_def CLIENT_B_def connected_as_def startsWith_def js_def unit_of_def)
  qed (use peer assms(3) in \<open>auto simp: CLIENT_A_def CLIENT_B_def blank_simps\<close>)
qed

lemma closed_served:
  assumes inv: "server_inv sv" and k: "sv_conns sv k = Some c" "live_socket sv k"
  shows "addressed C W sv (snd (on_close k c (set_socket k Closed sv)))"
proof -
  let ?slot = "cn_slot c"
  have slot: "?slot \<in> set SLOTS" using server_invD(3) [OF inv k(1)] by simp
  have event: "addressed C W sv (case sv_clients sv (otherSlot ?slot) of None \<Rightarrow> []
    | Some p \<Rightarrow> send sv' (Some p) (peer_event_msg PEER_LEFT ?slot (?slot @ js '' has disconnected.'')))" for sv'
  proof (rule addressed_slot [OF inv])
    fix p
    assume "sv_clients sv (otherSlot ?slot) = Some p"
    then obtain c' where c': "sv_conns sv p = Some c'" "cn_slot c' = otherSlot ?slot"
      using server_invD(1) [OF inv] by blast
    have "server_says C W (cn_slot c') (peer_event_msg PEER_LEFT ?slot (?slot @ js '' has disconnected.''))"
      using presence_said [of "otherSlot ?slot" PEER_LEFT "js '' has disconnected.''" C W] otherSlot_SLOTS [OF slot]
      by (simp add: c'(2))
    then show "addressed C W sv (send sv' (Some p) (peer_event_msg PEER_LEFT ?slot (?slot @ js '' has disconnected.'')))"
      by (rule addressed_send [OF c'(1)])
  qed
  have "otherSlot ?slot \<noteq> ?slot" using otherSlot_SLOTS [OF slot] by blast
  with event show ?thesis
    by (auto simp: on_close_def Let_def set_socket_def split: option.splits)
qed

lemma shutdown_served:
  assumes inv: "server_inv sv"
  shows "addressed C W sv (snd (on_shutdown sv))"
proof -
  have "addressed C W sv (shutdown_slot sv slot)" for slot
    unfolding shutdown_slot_def
  proof (rule addressed_slot [OF inv])
    fix p
    assume "sv_clients sv slot = Some p"
    then obtain c' where c': "sv_conns sv p = Some c'" using server_invD(1) [OF inv] by blast
    have "server_says C W (cn_slot c') (system_msg (js ''Server is shutting down.''))"
    proof (rule server_says.news)
      show "\<not> startsWith (js ''Server is shutting down.'') connected_as"
        by (simp add: connected_as_def startsWith_def js_def unit_of_def)
    qed (simp_all add: blank_simps)
    then show "addressed C W sv (send sv (Some p) (system_msg (js ''Server is shutting down.'')) @ [End p None])"
      by (intro addressed_append addressed_send [OF c']) simp_all
  qed
  then show ?thesis by (simp add: on_shutdown_def SLOTS_def addressed_append)
qed

text \<open>A new connection with a slot: its name first, and then, to both, that the other is there.\<close>

lemma admitted:
  assumes inv: "server_inv sv" and new: "sv_sockets sv k = Unseen"
    and slot: "freeSlot (sv\<lparr>sv_sockets := (sv_sockets sv)(k := Open)\<rparr>) = Some slot"
    and run: "on_connect k remote sv = (sv', es)"
  shows "sv_conns sv' = (sv_conns sv)(k := Some \<lparr>cn_slot = slot, cn_buffer = new_LineBuffer MAX_FRAME_SIZE, cn_closing = False\<rparr>)"
    and "sv_sockets sv' = (sv_sockets sv)(k := Open)"
    and "\<exists>ms. sent_to k es = encode (assigned slot) # map encode ms \<and> (\<forall>m \<in> set ms. server_says C W slot m)"
    and "addressed C W sv (filter (\<lambda>ef. text_to k ef = []) es)" "\<forall>j t. End j t \<notin> set es"
proof -
  let ?sv = "sv\<lparr>sv_sockets := (sv_sockets sv)(k := Open)\<rparr>"
  let ?sv1 = "?sv\<lparr>sv_clients := (sv_clients ?sv)(slot := Some k),
    sv_conns := (sv_conns ?sv)(k := Some \<lparr>cn_slot = slot, cn_buffer = new_LineBuffer MAX_FRAME_SIZE, cn_closing = False\<rparr>)\<rparr>"
  let ?joined = "\<lambda>p. send ?sv1 (Some p) (peer_event_msg PEER_JOINED slot (slot @ js '' has joined the chat.''))"
  let ?here = "send ?sv1 (Some k) (peer_event_msg PEER_JOINED (otherSlot slot) (otherSlot slot @ js '' is already connected.''))"
  have "on_connect k remote sv = (?sv1, [Log (slot @ js '' connected from '' @ remote)] @ send ?sv1 (Some k) (assigned slot)
      @ (case sv_clients ?sv1 (otherSlot slot) of None \<Rightarrow> [] | Some p \<Rightarrow> ?joined p @ ?here))"
    by (simp only: on_connect_def Let_def slot option.case assigned_def)
  then have sv': "sv' = ?sv1" and es: "es = [Log (slot @ js '' connected from '' @ remote)] @ send ?sv1 (Some k) (assigned slot)
      @ (case sv_clients ?sv1 (otherSlot slot) of None \<Rightarrow> [] | Some p \<Rightarrow> ?joined p @ ?here)"
    using run by simp_all
  show "sv_conns sv' = (sv_conns sv)(k := Some \<lparr>cn_slot = slot, cn_buffer = new_LineBuffer MAX_FRAME_SIZE, cn_closing = False\<rparr>)"
    "sv_sockets sv' = (sv_sockets sv)(k := Open)" by (simp_all add: sv')
  have s: "slot \<in> set SLOTS" using freeSlot_Some [OF slot] by simp
  then have o: "otherSlot slot \<noteq> slot" "otherSlot (otherSlot slot) = slot" using otherSlot_SLOTS by blast+
  have up: "\<not> is_destroyed ?sv1 k" by (simp add: is_destroyed_def)
  have here: "server_says C W slot (peer_event_msg PEER_JOINED (otherSlot slot) (otherSlot slot @ js '' is already connected.''))"
    by (rule presence_said [OF s]) simp_all
  have noconn: "sv_conns sv k = None" using server_invD(3) [OF inv] new by (metis not_Some_eq)
  have clients: "sv_clients ?sv1 (otherSlot slot) = sv_clients sv (otherSlot slot)" using o(1) by simp
  have sends: "send ?sv1 (Some k) m = [Write k (encode m)]" for m using up by (simp add: send_def writeTo_def)
  have "(\<exists>ms. sent_to k es = encode (assigned slot) # map encode ms \<and> (\<forall>m \<in> set ms. server_says C W slot m))
    \<and> addressed C W sv (filter (\<lambda>ef. text_to k ef = []) es) \<and> (\<forall>j t. End j t \<notin> set es)"
  proof (cases "sv_clients sv (otherSlot slot)")
    case None
    then have "es = [Log (slot @ js '' connected from '' @ remote), Write k (encode (assigned slot))]"
      unfolding es clients sends by simp
    then show ?thesis by (auto simp: exI [of _ "[]"])
  next
    case (Some p)
    then obtain c' where c': "sv_conns sv p = Some c'" "cn_slot c' = otherSlot slot"
      using server_invD(1) [OF inv] by blast
    then have p: "p \<noteq> k" using noconn by auto
    have es': "es = [Log (slot @ js '' connected from '' @ remote), Write k (encode (assigned slot))] @ ?joined p
        @ [Write k (encode (peer_event_msg PEER_JOINED (otherSlot slot) (otherSlot slot @ js '' is already connected.'')))]"
      unfolding es clients sends using Some by simp
    have "server_says C W (cn_slot c') (peer_event_msg PEER_JOINED slot (slot @ js '' has joined the chat.''))"
      using presence_said [of "otherSlot slot" PEER_JOINED "js '' has joined the chat.''" C W] otherSlot_SLOTS [OF s]
      by (simp add: c'(2) o(2))
    then have "addressed C W sv (?joined p)" by (rule addressed_send [OF c'(1)])
    moreover have "filter (\<lambda>ef. text_to k ef = []) (?joined p) = ?joined p" "sent_to k (?joined p) = []"
      "\<forall>j t. End j t \<notin> set (?joined p)"
      using p by (simp_all add: send_def writeTo_def)
    ultimately show ?thesis using here unfolding es'
      by (auto intro!: exI [of _ "[peer_event_msg PEER_JOINED (otherSlot slot) (otherSlot slot @ js '' is already connected.'')]"])
  qed
  then show "\<exists>ms. sent_to k es = encode (assigned slot) # map encode ms \<and> (\<forall>m \<in> set ms. server_says C W slot m)"
    "addressed C W sv (filter (\<lambda>ef. text_to k ef = []) es)" "\<forall>j t. End j t \<notin> set es" by blast+
qed

section \<open>What reaches the clients\<close>

lemma server_effect_elsewhere:
  "se_server (fold server_effect es se) = se_server se" "se_client (fold server_effect es se) = se_client se"
  "se_up (fold server_effect es se) = se_up se" "se_upEnded (fold server_effect es se) = se_upEnded se"
proof -
  have one: "se_server (server_effect ef se) = se_server se \<and> se_client (server_effect ef se) = se_client se
    \<and> se_up (server_effect ef se) = se_up se \<and> se_upEnded (server_effect ef se) = se_upEnded se" for ef and se :: "'a service"
    by (cases "(ef, se)" rule: server_effect.cases) (simp_all add: write_down_def end_down_def)
  have "se_server (fold server_effect es se) = se_server se \<and> se_client (fold server_effect es se) = se_client se
    \<and> se_up (fold server_effect es se) = se_up se \<and> se_upEnded (fold server_effect es se) = se_upEnded se"
    by (induction es arbitrary: se) (simp_all add: one)
  then show "se_server (fold server_effect es se) = se_server se" "se_client (fold server_effect es se) = se_client se"
    "se_up (fold server_effect es se) = se_up se" "se_upEnded (fold server_effect es se) = se_upEnded se" by blast+
qed

lemma server_effect_down:
  "se_down (server_effect ef se) k = se_down se k @ (if se_downEnded se k then [] else concat (text_to k ef))"
  "se_downEnded (server_effect ef se) k \<longleftrightarrow> se_downEnded se k \<or> (\<exists>t. ef = End k t)"
  by (cases "(ef, se)" rule: server_effect.cases; auto simp: write_down_def end_down_def)+

lemma server_effect_ended: "se_downEnded se k \<Longrightarrow> se_down (fold server_effect es se) k = se_down se k"
  by (induction es arbitrary: se) (simp_all add: server_effect_down)

lemma server_effect_stream:
  "\<exists>n. se_down (fold server_effect es se) k = se_down se k @ concat (take n (sent_to k es))"
proof (induction es arbitrary: se)
  case (Cons ef es)
  show ?case
  proof (cases "se_downEnded se k")
    case True
    from server_effect_ended [OF this, of "ef # es"] show ?thesis by (intro exI [of _ 0]) simp
  next
    case False
    obtain n where "se_down (fold server_effect es (server_effect ef se)) k
        = se_down (server_effect ef se) k @ concat (take n (sent_to k es))" using Cons.IH by blast
    moreover have "text_to k ef = [] \<or> (\<exists>t. text_to k ef = [t])"
      by (cases "(k, ef)" rule: text_to.cases) auto
    ultimately show ?thesis using False
      by (auto simp: server_effect_down intro: exI [of _ n] exI [of _ "Suc n"])
  qed
qed simp

lemma server_effect_all:
  assumes "\<not> se_downEnded se k" "\<forall>t. End k t \<notin> set es"
  shows "se_down (fold server_effect es se) k = se_down se k @ concat (sent_to k es)"
  using assms
proof (induction es arbitrary: se)
  case (Cons ef es)
  then have "\<not> (\<exists>t. ef = End k t)" by auto
  with Cons.prems Cons.IH [of "server_effect ef se"] show ?case by (simp add: server_effect_down)
qed simp

lemma server_effect_open:
  "\<forall>t. End k t \<notin> set es \<Longrightarrow> se_downEnded (fold server_effect es se) k = se_downEnded se k"
  by (induction es arbitrary: se) (auto simp: server_effect_down)

end
