(* ===== verification/ServiceProperties.thy ===== *)
theory ServiceProperties
  imports ServerSpeech
begin

text \<open>
  The invariant of the service and what it gives: however clients come and go, whatever
  their users type, and however the streams are cut between characters, no process ends by
  an exception, no frame is ever too long, and each client goes by the slot that the server
  has for its connection.
\<close>

section \<open>The invariant\<close>

definition up_ok :: "'r node_crypto \<Rightarrow> sources \<Rightarrow> conn option \<Rightarrow> jsstring \<Rightarrow> bool" where
  "up_ok C W conn up \<longleftrightarrow>
     (case conn of None \<Rightarrow> up = []
      | Some c \<Rightarrow> \<not> cn_closing c
          \<and> (\<exists>ms. lb_buffer (cn_buffer c) @ up = stream_of ms \<and> (\<forall>m \<in> set ms. client_says C (cn_slot c) m \<and> W (cn_slot c) m)))"

definition down_ok :: "'r node_crypto \<Rightarrow> sources \<Rightarrow> jsstring option \<Rightarrow> 'r client option \<Rightarrow> jsstring \<Rightarrow> bool" where
  "down_ok C W slot client down \<longleftrightarrow>
     (\<forall>cl. client = Some cl \<longrightarrow> (\<exists>ms. lb_buffer (cl_buffer cl) @ down = stream_of ms \<and> expects C W slot cl ms))"

text \<open>Before a connection nothing has been sent to the client.\<close>

definition untouched :: "'r service \<Rightarrow> nat \<Rightarrow> bool" where
  "untouched se k \<longleftrightarrow> se_down se k = [] \<and> \<not> se_downEnded se k
     \<and> (\<forall>cl. se_client se k = Some cl \<longrightarrow> lb_buffer (cl_buffer cl) = [])"

definition slot_at :: "server \<Rightarrow> nat \<Rightarrow> jsstring option" where
  "slot_at sv k = map_option cn_slot (sv_conns sv k)"

definition link :: "'r node_crypto \<Rightarrow> sources \<Rightarrow> 'r service \<Rightarrow> nat \<Rightarrow> bool" where
  "link C W se k \<longleftrightarrow> up_ok C W (sv_conns (se_server se) k) (se_up se k)
     \<and> down_ok C W (slot_at (se_server se) k) (se_client se k) (se_down se k)
     \<and> (sv_sockets (se_server se) k = Unseen \<longrightarrow> untouched se k)"

definition service_inv :: "'r node_crypto \<Rightarrow> sources \<Rightarrow> 'r service \<Rightarrow> bool" where
  "service_inv C W se \<longleftrightarrow> server_inv (se_server se) \<and> (\<forall>k. link C W se k)"

lemma service_inv_start: "service_inv C W (service_start host port tty entropy)"
proof -
  have "untuned (fst (client_start (tty k) a \<lparr>w_entropy = entropy k, w_heap = []\<rparr>))" for k a
    using client_inv_start [of "\<lparr>w_entropy = entropy k, w_heap = []\<rparr>" "tty k" a]
    by (simp add: untuned_def client_inv_def) (simp add: client_start_def)
  then have "link C W (service_start host port tty entropy) k" for k
    by (auto simp: link_def service_start_def server_start_def up_ok_def down_ok_def untouched_def slot_at_def
        intro!: exI [of _ "[]"]) (simp_all add: client_start_def new_LineBuffer_def)
  then show ?thesis using server_inv_start by (simp add: service_inv_def) (simp add: service_start_def)
qed

lemma slot_at_slots: "server_inv sv \<Longrightarrow> \<forall>slot. slot_at sv k = Some slot \<longrightarrow> slot \<in> set SLOTS"
  using server_invD(3) by (fastforce simp: slot_at_def)

section \<open>The clients\<close>

text \<open>What a client writes at an event is among what \<open>W\<close> knows of.\<close>

definition recorded :: "sources \<Rightarrow> jsstring option \<Rightarrow> client_event \<Rightarrow> client_effect list \<Rightarrow> bool" where
  "recorded W conn ev es \<longleftrightarrow> (\<forall>slot d. conn = Some slot \<longrightarrow> SocketWrite (encode d) \<in> set es
     \<longrightarrow> (field d ''type'' = VStr CHAT \<longrightarrow> (\<exists>line. ev = UserLine line \<and> d = chat_from slot (trim line))) \<longrightarrow> W slot d)"

lemma writes_iff: "t \<in> set (writes es) \<longleftrightarrow> SocketWrite t \<in> set es"
proof (induction es)
  case (Cons ef es)
  then show ?case by (cases ef) auto
qed simp

lemma up_more:
  assumes "up_ok C W conn up" "says C (map_option cn_slot conn) ev es" "recorded W (map_option cn_slot conn) ev es"
  shows "up_ok C W conn (up @ concat (take n (writes es)))"
proof (cases conn)
  case None
  with assms show ?thesis by (simp add: up_ok_def says_def)
next
  case (Some c)
  with assms(1) obtain ms where ms: "\<not> cn_closing c" "lb_buffer (cn_buffer c) @ up = stream_of ms"
    "\<forall>m \<in> set ms. client_says C (cn_slot c) m \<and> W (cn_slot c) m" by (auto simp: up_ok_def)
  have "says C (Some (cn_slot c)) ev es" using assms(2) Some by simp
  from says_messages [OF this] obtain ds where ds: "writes es = map encode ds" "\<forall>d \<in> set ds. client_says C (cn_slot c) d
      \<and> (field d ''type'' = VStr CHAT \<longrightarrow> (\<exists>line. ev = UserLine line \<and> d = chat_from (cn_slot c) (trim line)))" by blast
  have "W (cn_slot c) d" if "d \<in> set ds" for d
  proof -
    have "SocketWrite (encode d) \<in> set es" using that ds(1) writes_iff [of "encode d" es] by simp
    with assms(3) ds(2) that Some show ?thesis by (simp add: recorded_def)
  qed
  with ds have said: "\<forall>d \<in> set (take n ds). client_says C (cn_slot c) d \<and> W (cn_slot c) d" by (meson in_set_takeD)
  have "lb_buffer (cn_buffer c) @ up @ concat (take n (writes es)) = stream_of (ms @ take n ds)"
    using ms(2) ds(1) by (simp add: stream_of_def take_map flip: append_assoc)
  with ms said Some show ?thesis by (auto simp: up_ok_def intro!: exI [of _ "ms @ take n ds"])
qed

text \<open>The step of a client process that an event makes.\<close>

fun client_part :: "service_event \<Rightarrow> (nat \<times> client_event) option" where
  "client_part (AtClient k ev) = Some (k, ev)"
| "client_part (Downward k piece) = Some (k, DataChunk (utf8_encode piece))"
| "client_part _ = None"

definition records :: "'r node_crypto \<Rightarrow> sources \<Rightarrow> 'r service \<Rightarrow> service_event \<Rightarrow> bool" where
  "records C W se ev \<longleftrightarrow> (\<forall>k cev cl cl' es. client_part ev = Some (k, cev) \<longrightarrow> se_client se k = Some cl
     \<longrightarrow> client_step C cev cl = (Inr cl', es) \<longrightarrow> recorded W (slot_at (se_server se) k) cev es)"

text \<open>A client process made a step.\<close>

lemma client_stepped:
  assumes inv: "service_inv C W se" and says: "says C (slot_at (se_server se) k) ev es" "recorded W (slot_at (se_server se) k) ev es"
    and down: "down_ok C W (slot_at (se_server se) k) (Some cl') (down k)"
    and same: "\<forall>j. j \<noteq> k \<longrightarrow> down j = se_down se j"
    and fresh: "sv_sockets (se_server se) k = Unseen \<longrightarrow> down k = [] \<and> lb_buffer (cl_buffer cl') = []"
  shows "service_inv C W (fold (client_effect_at k) es (se\<lparr>se_down := down, se_client := (se_client se)(k := Some cl')\<rparr>))"
proof -
  let ?se = "se\<lparr>se_down := down, se_client := (se_client se)(k := Some cl')\<rparr>"
  let ?se' = "fold (client_effect_at k) es ?se"
  note elsewhere = client_effect_elsewhere [where k = k and es = es and se = ?se]
  have "link C W ?se' j" for j
  proof (cases "j = k")
    case False
    with elsewhere have "se_up ?se' j = se_up se j" "se_client ?se' j = se_client se j" "se_down ?se' j = se_down se j"
      using same by simp_all
    moreover have "link C W se j" using inv by (simp add: service_inv_def)
    ultimately show ?thesis using elsewhere(1,3) by (simp add: link_def untouched_def)
  next
    case True
    have up: "up_ok C W (sv_conns (se_server se) k) (se_up se k)" using inv by (simp add: service_inv_def link_def)
    obtain n where "se_up ?se' k = se_up se k @ concat (take n (writes es))"
      using client_effect_stream [of k es ?se] by auto
    with up_more [OF up] says have up': "up_ok C W (sv_conns (se_server se) k) (se_up ?se' k)" by (simp add: slot_at_def)
    have client: "se_client ?se' k = Some cl' \<or> se_client ?se' k = None" using client_effect_client [of k es ?se] by simp
    then have "down_ok C W (slot_at (se_server se) k) (se_client ?se' k) (down k)" using down by (auto simp: down_ok_def)
    moreover have "untouched ?se' k" if "sv_sockets (se_server se) k = Unseen"
      using that fresh client inv elsewhere(2,3) by (auto simp: untouched_def service_inv_def link_def)
    ultimately show ?thesis using True up' elsewhere(1,2) by (simp add: link_def)
  qed
  then show ?thesis using inv elsewhere(1) by (simp add: service_inv_def)
qed

lemma client_event_safe:
  assumes C: "honest_module C" and inv: "service_inv C W se" and en: "enabled se (AtClient k ev)"
    and records: "records C W se (AtClient k ev)"
  shows "\<exists>se'. service_do C (AtClient k ev) se = Inr se' \<and> service_inv C W se'"
proof -
  obtain cl where cl: "se_client se k = Some cl" "own_client_event cl ev" using en by (auto split: option.splits)
  have link: "link C W se k" and sinv: "server_inv (se_server se)" using inv by (simp_all add: service_inv_def)
  then obtain ms where ms: "lb_buffer (cl_buffer cl) @ se_down se k = stream_of ms" "expects C W (slot_at (se_server se) k) cl ms"
    using cl(1) by (auto simp: link_def down_ok_def)
  from event_heard [OF C ms(2) slot_at_slots [OF sinv] cl(2)] obtain cl' es where
    step: "client_step C ev cl = (Inr cl', es)" "says C (slot_at (se_server se) k) ev es" "cl_buffer cl' = cl_buffer cl"
      "expects C W (slot_at (se_server se) k) cl' ms" by blast
  have known: "recorded W (slot_at (se_server se) k) ev es" using records cl(1) step(1) by (simp add: records_def)
  have "down_ok C W (slot_at (se_server se) k) (Some cl') (se_down se k)"
    using ms(1) step(3,4) by (auto simp: down_ok_def)
  moreover have "sv_sockets (se_server se) k = Unseen \<longrightarrow> se_down se k = [] \<and> lb_buffer (cl_buffer cl') = []"
    using link cl(1) step(3) by (auto simp: link_def untouched_def)
  ultimately have "service_inv C W (fold (client_effect_at k) es (se\<lparr>se_down := se_down se, se_client := (se_client se)(k := Some cl')\<rparr>))"
    by (intro client_stepped [OF inv step(2) known]) simp_all
  then show ?thesis using cl(1) step(1) by (simp add: at_client_def)
qed

lemma downward_safe:
  assumes C: "honest_module C" and inv: "service_inv C W se" and en: "enabled se (Downward k piece)"
    and records: "records C W se (Downward k piece)"
  shows "\<exists>se'. service_do C (Downward k piece) se = Inr se' \<and> service_inv C W se'"
proof -
  obtain cl where cl: "se_client se k = Some cl" and piece: "next_piece piece (se_down se k)" using en by auto
  have link: "link C W se k" and sinv: "server_inv (se_server se)" using inv by (simp_all add: service_inv_def)
  then obtain ms where ms: "lb_buffer (cl_buffer cl) @ se_down se k = stream_of ms" "expects C W (slot_at (se_server se) k) cl ms"
    using cl by (auto simp: link_def down_ok_def)
  from piece_heard [OF C ms(2) slot_at_slots [OF sinv] ms(1) piece] obtain cl' es ms' where
    step: "client_step C (DataChunk (utf8_encode piece)) cl = (Inr cl', es)"
      "answers C (slot_at (se_server se) k) es"
      "lb_buffer (cl_buffer cl') @ drop (length piece) (se_down se k) = stream_of ms'"
      "expects C W (slot_at (se_server se) k) cl' ms'" by blast
  let ?ev = "DataChunk (utf8_encode piece)"
  have known: "recorded W (slot_at (se_server se) k) ?ev es" using records cl step(1) by (simp add: records_def)
  let ?down = "(se_down se)(k := drop (length piece) (se_down se k))"
  have "lb_buffer (cl_buffer cl') = [] \<and> ?down k = []" if "sv_sockets (se_server se) k = Unseen"
  proof -
    have u: "untouched se k" "slot_at (se_server se) k = None"
      using that link sinv server_invD(3) by (auto simp: link_def slot_at_def) (metis not_None_eq)
    then have "untuned cl" "piece = []" "ms = []" "lb_buffer (cl_buffer cl) = []"
      using ms cl piece by (auto simp: untouched_def next_piece_def stream_of_def encode_def nl_def)
    moreover have "client_step C (DataChunk (utf8_encode [])) cl = (Inr cl, [])"
    proof -
      have "lb_append (cl_buffer cl) [] = (Inr [], cl_buffer cl)"
        using lb_feed_Nil [of "cl_buffer cl"] \<open>untuned cl\<close>
        by (auto simp: untuned_def client_core_def lb_feed_def split: sum.splits prod.splits)
      then show ?thesis
        using \<open>untuned cl\<close> utf8_decode_encode [of "[]"] by (simp add: client_on_data_def drain_idle untuned_def)
    qed
    ultimately show ?thesis using step(1) u by (simp add: untouched_def)
  qed
  moreover have "down_ok C W (slot_at (se_server se) k) (Some cl') (?down k)"
    using step(3,4) by (auto simp: down_ok_def)
  ultimately have "service_inv C W (fold (client_effect_at k) es (se\<lparr>se_down := ?down, se_client := (se_client se)(k := Some cl')\<rparr>))"
    by (intro client_stepped [OF inv answers_said [OF step(2)] known]) simp_all
  then show ?thesis using cl step(1) by (simp add: at_client_def)
qed

section \<open>The server\<close>

lemma down_more:
  assumes "down_ok C W slot client down" "slot = None \<longrightarrow> ms = []" "\<forall>m \<in> set ms. \<forall>s. slot = Some s \<longrightarrow> server_says C W s m"
  shows "down_ok C W slot client (down @ concat (take n (map encode ms)))"
  unfolding down_ok_def
proof (intro allI impI)
  fix cl
  assume "client = Some cl"
  with assms(1) obtain ms0 where ms0: "lb_buffer (cl_buffer cl) @ down = stream_of ms0" "expects C W slot cl ms0"
    by (auto simp: down_ok_def)
  have "concat (take n (map encode ms)) = stream_of (take n ms)" by (simp add: stream_of_def take_map)
  then have "lb_buffer (cl_buffer cl) @ down @ concat (take n (map encode ms)) = stream_of (ms0 @ take n ms)"
    using ms0(1) by (simp flip: append_assoc)
  moreover have "expects C W slot cl (ms0 @ take n ms)"
  proof (cases slot)
    case None
    with ms0(2) assms(2) show ?thesis by simp
  next
    case (Some s)
    then have "\<forall>m \<in> set (take n ms). server_says C W s m" using assms(3) by (auto dest: in_set_takeD)
    with Some ms0(2) show ?thesis by (auto split: list.splits)
  qed
  ultimately show "\<exists>ms'. lb_buffer (cl_buffer cl) @ down @ concat (take n (map encode ms)) = stream_of ms' \<and> expects C W slot cl ms'"
    by blast
qed

text \<open>A step of the server in which no connection is new.\<close>

lemma server_stepped:
  assumes inv: "service_inv C W se" and inv': "server_inv sv'" and sv: "sv = se_server se"
    and slots: "\<forall>j. slot_at sv' j = slot_at sv j"
    and seen: "\<forall>j. sv_sockets sv' j = Unseen \<longrightarrow> sv_sockets sv j = Unseen"
    and es: "addressed C W sv es" "\<forall>j t. End j t \<in> set es \<longrightarrow> sv_sockets sv j \<noteq> Unseen"
    and up: "\<forall>j. up_ok C W (sv_conns sv' j) (up j)"
  shows "service_inv C W (fold server_effect es (se\<lparr>se_up := up, se_server := sv'\<rparr>))"
proof -
  let ?se = "se\<lparr>se_up := up, se_server := sv'\<rparr>"
  let ?se' = "fold server_effect es ?se"
  note elsewhere = server_effect_elsewhere [where es = es and se = ?se]
  have sinv: "server_inv sv" using inv sv by (simp add: service_inv_def)
  have "link C W ?se' j" for j
  proof -
    have link: "link C W se j" using inv by (simp add: service_inv_def)
    obtain ms where ms: "sent_to j es = map encode ms" "\<forall>m \<in> set ms. \<exists>c. sv_conns sv j = Some c \<and> server_says C W (cn_slot c) m"
      by (rule addressedE [OF es(1)])
    obtain n where down: "se_down ?se' j = se_down se j @ concat (take n (map encode ms))"
      using server_effect_stream [of es ?se j] ms(1) by auto
    have "slot_at sv j = None \<longrightarrow> ms = []" using ms(2) by (cases ms) (auto simp: slot_at_def)
    moreover have "\<forall>m \<in> set ms. \<forall>s. slot_at sv j = Some s \<longrightarrow> server_says C W s m" using ms(2) by (auto simp: slot_at_def)
    ultimately have "down_ok C W (slot_at sv j) (se_client se j) (se_down se j @ concat (take n (map encode ms)))"
      using link sv by (intro down_more) (simp_all add: link_def)
    moreover have "untouched ?se' j" if "sv_sockets sv' j = Unseen"
    proof -
      have un: "sv_sockets sv j = Unseen" using seen that by blast
      then have "sv_conns sv j = None" using server_invD(3) [OF sinv] by (metis not_None_eq)
      with ms(2) have "ms = []" by (cases ms) auto
      moreover have "\<forall>t. End j t \<notin> set es" using es(2) un by blast
      ultimately show ?thesis using link un down sv server_effect_open [of j es ?se] elsewhere(2)
        by (simp add: untouched_def link_def)
    qed
    ultimately show ?thesis using up slots down elsewhere by (simp add: link_def)
  qed
  then show ?thesis using inv' elsewhere(1) by (simp add: service_inv_def)
qed

lemma upward_safe:
  assumes inv: "service_inv C W se" and en: "enabled se (Upward k piece)"
  shows "\<exists>se'. service_do C (Upward k piece) se = Inr se' \<and> service_inv C W se'"
proof -
  let ?sv = "se_server se"
  have sinv: "server_inv ?sv" and links: "\<And>j. link C W se j" using inv by (simp_all add: service_inv_def)
  have piece: "next_piece piece (se_up se k)" and sock: "sv_sockets ?sv k = Open" using en by simp_all
  let ?up = "(se_up se)(k := drop (length piece) (se_up se k))"
  have ups: "j \<noteq> k \<Longrightarrow> up_ok C W (sv_conns ?sv j) (?up j)" for j using links [of j] by (simp add: link_def)
  have poss: "possible ?sv (DataIn k (utf8_encode piece))" using sock by simp
  show ?thesis
  proof (cases "sv_conns ?sv k")
    case None
    then have "up_ok C W (sv_conns ?sv k) (?up k)" using links [of k] by (simp add: link_def up_ok_def)
    with ups have "\<forall>j. up_ok C W (sv_conns ?sv j) (?up j)" by metis
    then have "service_inv C W (fold server_effect [] (se\<lparr>se_up := ?up, se_server := ?sv\<rparr>))"
      by (intro server_stepped [OF inv sinv refl]) simp_all
    with None show ?thesis by (simp add: at_server_def)
  next
    case (Some c)
    then have "up_ok C W (Some c) (se_up se k)" using links [of k] by (simp add: link_def)
    then obtain ms where ms: "\<not> cn_closing c" "lb_buffer (cn_buffer c) @ se_up se k = stream_of ms"
      "\<forall>m \<in> set ms. client_says C (cn_slot c) m \<and> W (cn_slot c) m" by (auto simp: up_ok_def)
    from piece_served [where W = W, OF sinv Some ms piece] obtain b ms' es where
      step: "server_step C (DataIn k (utf8_encode piece)) ?sv =
        (Inr (set_conn k (c\<lparr>cn_buffer := (cn_buffer c)\<lparr>lb_buffer := b\<rparr>\<rparr>) ?sv), es)"
      and rest: "b @ drop (length piece) (se_up se k) = stream_of ms'" "set ms' \<subseteq> set ms"
      and es: "addressed C W ?sv es" and ends: "\<forall>j t. End j t \<notin> set es" by blast
    let ?sv' = "set_conn k (c\<lparr>cn_buffer := (cn_buffer c)\<lparr>lb_buffer := b\<rparr>\<rparr>) ?sv"
    have "up_ok C W (sv_conns ?sv' k) (?up k)" using ms(1,3) rest by (auto simp: set_conn_def up_ok_def)
    moreover have "j \<noteq> k \<Longrightarrow> up_ok C W (sv_conns ?sv' j) (?up j)" for j using ups [of j] by (simp add: set_conn_def)
    ultimately have up: "\<forall>j. up_ok C W (sv_conns ?sv' j) (?up j)" by metis
    have "service_inv C W (fold server_effect es (se\<lparr>se_up := ?up, se_server := ?sv'\<rparr>))"
      using server_step_inv [OF sinv poss step] es up Some ends
      by (intro server_stepped [OF inv _ refl]) (auto simp: slot_at_def set_conn_def)
    then show ?thesis using step by (simp add: at_server_def)
  qed
qed

lemma closed_no_end: "End j t \<notin> set (snd (on_close k c sv))"
  by (simp add: on_close_def Let_def no_end_sent split: option.split)

text \<open>The events of the server that bring no data and no connection.\<close>

lemma quiet_event_safe:
  assumes inv: "service_inv C W se" and en: "enabled se (AtServer ev)" and ev: "\<forall>k remote. ev \<noteq> Connect k remote"
  shows "\<exists>se'. service_do C (AtServer ev) se = Inr se' \<and> service_inv C W se'"
proof -
  let ?sv = "se_server se"
  have sinv: "server_inv ?sv" and links: "\<And>j. link C W se j" using inv by (simp_all add: service_inv_def)
  have ups: "\<forall>j. up_ok C W (sv_conns ?sv j) (se_up se j)" using links by (simp add: link_def)
  have poss: "possible ?sv ev" "own_server_event ?sv ev" using en by simp_all
  have safe: "\<exists>se'. service_do C (AtServer ev) se = Inr se' \<and> service_inv C W se'"
    if "server_step C ev ?sv = (Inr sv', es)" "sv_conns sv' = sv_conns ?sv"
      "\<forall>j. sv_sockets sv' j = Unseen \<longrightarrow> sv_sockets ?sv j = Unseen"
      "addressed C W ?sv es" "\<forall>j t. End j t \<in> set es \<longrightarrow> sv_sockets ?sv j \<noteq> Unseen" for sv' es
  proof -
    have "service_inv C W (fold server_effect es (se\<lparr>se_up := se_up se, se_server := sv'\<rparr>))"
      using that ups server_step_inv [OF sinv poss(1) that(1)]
      by (intro server_stepped [OF inv _ refl]) (simp_all add: slot_at_def)
    with that(1) show ?thesis by (simp add: at_server_def)
  qed
  show ?thesis
  proof (cases ev)
    case Listening
    with safe show ?thesis by (simp add: on_listening_def)
  next
    case (ListenError in_use m)
    with safe show ?thesis by (simp add: on_listen_error_def)
  next
    case (Connect k remote)
    with ev show ?thesis by simp
  next
    case (DataIn k chunk)
    with poss(2) show ?thesis by simp
  next
    case (SocketDestroyed k)
    with safe [of "set_socket k Destroyed ?sv" "[]"] show ?thesis by (simp add: set_socket_def)
  next
    case (SocketClose k)
    then have live: "live_socket ?sv k" using poss(1) by (simp add: live_socket_def)
    show ?thesis
    proof (cases "sv_conns ?sv k")
      case None
      with SocketClose safe [of "set_socket k Closed ?sv" "[]"] show ?thesis by (simp add: set_socket_def Let_def)
    next
      case (Some c)
      obtain sv' es where run: "on_close k c (set_socket k Closed ?sv) = (sv', es)" by fastforce
      have "addressed C W ?sv es" using closed_served [OF sinv Some live, of C W] run by simp
      moreover have "\<forall>j t. End j t \<notin> set es" using closed_no_end [of _ _ k c "set_socket k Closed ?sv"] run by simp
      moreover have "sv_conns sv' = sv_conns ?sv" "\<forall>j. sv_sockets sv' j = Unseen \<longrightarrow> sv_sockets ?sv j = Unseen"
        using run by (auto simp: on_close_def Let_def set_socket_def split: if_splits)
      moreover have "server_step C ev ?sv = (Inr sv', es)" using SocketClose Some run by simp
      ultimately show ?thesis using safe by blast
    qed
  next
    case (SocketError k m)
    with poss(2) safe show ?thesis by auto
  next
    case (DestroyTimer k)
    let ?sv' = "if sv_sockets ?sv k = Open then set_socket k Destroyed ?sv else ?sv"
    have "server_step C ev ?sv = (Inr ?sv', [])" by (simp add: DestroyTimer)
    moreover have "sv_conns ?sv' = sv_conns ?sv" "\<forall>j. sv_sockets ?sv' j = Unseen \<longrightarrow> sv_sockets ?sv j = Unseen"
      by (simp_all add: set_socket_def)
    ultimately show ?thesis by (rule safe) simp_all
  next
    case Shutdown
    obtain sv' es where run: "on_shutdown ?sv = (sv', es)" by fastforce
    have "addressed C W ?sv es" using shutdown_served [OF sinv, of C W] run by simp
    moreover have "sv_sockets ?sv j \<noteq> Unseen" if "End j t \<in> set es" for j t
    proof -
      from that run obtain slot where "End j t \<in> set (shutdown_slot ?sv slot)" by (auto simp: on_shutdown_def SLOTS_def)
      then have "sv_clients ?sv slot = Some j" by (auto simp: shutdown_slot_def no_end_sent split: option.splits)
      then show ?thesis using server_invD(1,3) [OF sinv] by blast
    qed
    moreover have "sv_conns sv' = sv_conns ?sv" "sv_sockets sv' = sv_sockets ?sv" using run by (auto simp: on_shutdown_def)
    moreover have "server_step C ev ?sv = (Inr sv', es)" using Shutdown run by simp
    ultimately show ?thesis using safe by simp
  next
    case ExitDue_server
    with safe show ?thesis by simp
  qed
qed

section \<open>A new connection\<close>

lemma expects_start:
  assumes "link C W se k" "sv_conns (se_server se) k = None" "untouched se k" "se_client se k = Some cl"
  shows "untuned cl" "lb_buffer (cl_buffer cl) = []"
  using assms by (auto simp: link_def down_ok_def slot_at_def untouched_def)

lemma sent_elsewhere:
  assumes "j \<noteq> k"
  shows "sent_to j es = sent_to j (filter (\<lambda>ef. text_to k ef = []) es)"
proof (induction es)
  case (Cons ef es)
  have "text_to k ef \<noteq> [] \<Longrightarrow> text_to j ef = []" using assms by (cases "(k, ef)" rule: text_to.cases) auto
  with Cons show ?case by auto
qed simp

lemma rejected_safe:
  assumes inv: "service_inv C W se" and new: "sv_sockets (se_server se) k = Unseen"
    and full: "freeSlot ((se_server se)\<lparr>sv_sockets := (sv_sockets (se_server se))(k := Open)\<rparr>) = None"
  shows "\<exists>sv' es. on_connect k remote (se_server se) = (sv', es)
    \<and> (server_inv sv' \<longrightarrow> service_inv C W (fold server_effect es (se\<lparr>se_server := sv'\<rparr>)))"
proof -
  let ?sv = "se_server se"
  let ?sv' = "?sv\<lparr>sv_sockets := (sv_sockets ?sv)(k := Open)\<rparr>"
  let ?es = "[Log (js ''Rejected connection from '' @ remote @ js '': server already has two clients.''),
    Write k (encode rejection), End k None]"
  let ?se' = "fold server_effect ?es (se\<lparr>se_server := ?sv'\<rparr>)"
  have run: "on_connect k remote ?sv = (?sv', ?es)"
    by (simp add: on_connect_def Let_def full send_def writeTo_def is_destroyed_def rejection_def)
  have links: "\<And>j. link C W se j" and sinv: "server_inv ?sv" using inv by (simp_all add: service_inv_def)
  have noconn: "sv_conns ?sv k = None" using server_invD(3) [OF sinv] new by (metis not_None_eq)
  have un: "untouched se k" using links [of k] new by (simp add: link_def)
  have "link C W ?se' j" for j
  proof (cases "j = k")
    case False
    with links [of j] show ?thesis by (simp add: link_def untouched_def write_down_def end_down_def slot_at_def)
  next
    case True
    have "down_ok C W None (se_client se k) (encode rejection)"
      using expects_start [OF links noconn un] by (auto simp: down_ok_def intro!: exI [of _ "[rejection]"])
    with True un noconn links [of k] show ?thesis
      by (simp add: link_def untouched_def write_down_def end_down_def slot_at_def)
  qed
  moreover have "se_server ?se' = ?sv'" by (simp only: server_effect_elsewhere) simp
  ultimately show ?thesis using run by (intro exI [of _ ?sv'] exI [of _ ?es]) (simp add: service_inv_def)
qed

lemma admitted_safe:
  assumes inv: "service_inv C W se" and new: "sv_sockets (se_server se) k = Unseen"
    and slot: "freeSlot ((se_server se)\<lparr>sv_sockets := (sv_sockets (se_server se))(k := Open)\<rparr>) = Some slot"
    and run: "on_connect k remote (se_server se) = (sv', es)" and inv': "server_inv sv'"
  shows "service_inv C W (fold server_effect es (se\<lparr>se_server := sv'\<rparr>))"
proof -
  let ?sv = "se_server se" and ?se = "se\<lparr>se_server := sv'\<rparr>"
  let ?se' = "fold server_effect es ?se"
  note elsewhere = server_effect_elsewhere [where es = es and se = ?se]
  have links: "\<And>j. link C W se j" and sinv: "server_inv ?sv" using inv by (simp_all add: service_inv_def)
  note adm = admitted [OF sinv new slot run]
  have noconn: "sv_conns ?sv k = None" using server_invD(3) [OF sinv] new by (metis not_None_eq)
  have un: "untouched se k" using links [of k] new by (simp add: link_def)
  have "link C W ?se' j" for j
  proof (cases "j = k")
    case True
    obtain ms where ms: "sent_to k es = encode (assigned slot) # map encode ms" "\<forall>m \<in> set ms. server_says C W slot m"
      using adm(3) by blast
    have down: "se_down ?se' k = stream_of (assigned slot # ms)"
      using server_effect_all [of ?se k es] un adm(5) ms(1) by (simp add: untouched_def stream_of_def)
    have "down_ok C W (Some slot) (se_client se k) (stream_of (assigned slot # ms))"
      using expects_start [OF links noconn un] ms(2) by (auto simp: down_ok_def intro!: exI [of _ "assigned slot # ms"])
    moreover have "up_ok C W (sv_conns sv' k) (se_up se k)"
      using links [of k] noconn adm(1) by (auto simp: link_def up_ok_def new_LineBuffer_def intro!: exI [of _ "[]"])
    ultimately show ?thesis using True down adm(1,2) elsewhere by (simp add: link_def slot_at_def)
  next
    case False
    note sent = sent_elsewhere [OF False, of es]
    obtain ms where ms: "sent_to j es = map encode ms" "\<forall>m \<in> set ms. \<exists>c. sv_conns ?sv j = Some c \<and> server_says C W (cn_slot c) m"
      unfolding sent by (rule addressedE [OF adm(4)])
    have down: "se_down ?se' j = se_down se j \<or> \<not> se_downEnded se j \<and> se_down ?se' j = se_down se j @ concat (take (length ms) (map encode ms))"
      using server_effect_all [of ?se j es] server_effect_ended [of ?se j es] adm(5) ms(1) by (cases "se_downEnded se j") auto
    have "slot_at ?sv j = None \<longrightarrow> ms = []" using ms(2) by (cases ms) (auto simp: slot_at_def)
    moreover have "\<forall>m \<in> set ms. \<forall>s. slot_at ?sv j = Some s \<longrightarrow> server_says C W s m" using ms(2) by (auto simp: slot_at_def)
    ultimately have "down_ok C W (slot_at ?sv j) (se_client se j) (se_down ?se' j)"
      using links [of j] down down_more [of C W "slot_at ?sv j" "se_client se j" "se_down se j" ms "length ms"]
      by (auto simp: link_def)
    moreover have "untouched ?se' j" if "sv_sockets sv' j = Unseen"
    proof -
      have un: "sv_sockets ?sv j = Unseen" using that False adm(2) by simp
      then have "sv_conns ?sv j = None" using server_invD(3) [OF sinv] by (metis not_None_eq)
      with ms(2) have "ms = []" by (cases ms) auto
      then show ?thesis using links [of j] un down server_effect_open [of j es ?se] adm(5) elsewhere(2)
        by (auto simp: untouched_def link_def)
    qed
    moreover have "slot_at sv' j = slot_at ?sv j" "sv_conns sv' j = sv_conns ?sv j" using False adm(1) by (simp_all add: slot_at_def)
    ultimately show ?thesis using links [of j] elsewhere by (simp add: link_def)
  qed
  then show ?thesis using inv' elsewhere(1) by (simp add: service_inv_def)
qed

lemma connect_safe:
  assumes inv: "service_inv C W se" and en: "enabled se (AtServer (Connect k remote))"
  shows "\<exists>se'. service_do C (AtServer (Connect k remote)) se = Inr se' \<and> service_inv C W se'"
proof -
  let ?sv = "se_server se"
  have new: "sv_sockets ?sv k = Unseen" and poss: "possible ?sv (Connect k remote)" using en by simp_all
  have sinv: "server_inv ?sv" using inv by (simp add: service_inv_def)
  obtain sv' es where run: "on_connect k remote ?sv = (sv', es)" by fastforce
  then have step: "server_step C (Connect k remote) ?sv = (Inr sv', es)" by simp
  note inv' = server_step_inv [OF sinv poss step]
  have "service_inv C W (fold server_effect es (se\<lparr>se_server := sv'\<rparr>))"
  proof (cases "freeSlot (?sv\<lparr>sv_sockets := (sv_sockets ?sv)(k := Open)\<rparr>)")
    case None
    from rejected_safe [OF inv new None, of remote] run inv' show ?thesis by auto
  next
    case (Some slot)
    from admitted_safe [OF inv new Some run inv'] show ?thesis .
  qed
  with step show ?thesis by (simp add: at_server_def)
qed

section \<open>Every run\<close>

lemma service_step_safe:
  assumes "honest_module C" "service_inv C W se" "enabled se ev" "records C W se ev"
  shows "\<exists>se'. service_do C ev se = Inr se' \<and> service_inv C W se'"
proof (cases ev)
  case (AtServer e)
  show ?thesis
  proof (cases "\<exists>k remote. e = Connect k remote")
    case True
    with connect_safe [OF assms(2)] assms(3) AtServer show ?thesis by blast
  next
    case False
    with quiet_event_safe [OF assms(2)] assms(3) AtServer show ?thesis by blast
  qed
next
  case (Upward k piece)
  with upward_safe [OF assms(2)] assms(3) show ?thesis by blast
next
  case (Downward k piece)
  with downward_safe [OF assms(1,2)] assms(3,4) show ?thesis by blast
next
  case (AtClient k e)
  with client_event_safe [OF assms(1,2)] assms(3,4) show ?thesis by blast
qed

text \<open>Here it does not matter who wrote what.\<close>

definition anyone :: sources where
  "anyone slot m \<longleftrightarrow> True"

lemma anyone_records: "records C anyone se ev"
  by (simp add: records_def recorded_def anyone_def)

interpretation service: machine "service_next C"
    "\<lambda>r. honest_module C \<and> (\<exists>se. r = Inr se \<and> service_inv C anyone se)" for C :: "'r node_crypto"
proof unfold_locales
  fix r :: "js_error + 'r service" and ev
  assume "honest_module C \<and> (\<exists>se. r = Inr se \<and> service_inv C anyone se)"
  then show "honest_module C \<and> (\<exists>se. service_next C ev r = Inr se \<and> service_inv C anyone se)"
    using service_step_safe [of C anyone _ ev, OF _ _ _ anyone_records] by auto
qed

lemma service_run_safe:
  assumes "honest_module C"
  shows "\<exists>se. fold (service_next C) evs (Inr (service_start host port tty entropy)) = Inr se \<and> service_inv C anyone se"
  using service.inv_run [of C "Inr (service_start host port tty entropy)" evs] assms service_inv_start by blast

text \<open>The sample module generates a working identity from any entropy.\<close>

lemma sample_honest_module: "honest_module sample_crypto"
proof -
  have "client_ok sample_crypto (fst (createIdentity sample_crypto r))" for r
  proof -
    have "fst (createIdentity sample_crypto r) = sample_identity (of_nat r) (of_nat (r + 1))"
      by (simp add: createIdentity_def generateKeyPair_def sample_crypto_def sample_identity_def)
    moreover have "of_nat r \<noteq> (of_nat (r + 1) :: 8 word)" by simp
    ultimately show ?thesis using sample_client by metis
  qed
  with sample_total show ?thesis by (simp add: honest_module_def)
qed

definition sample_events :: "service_event list" where
  "sample_events =
     [AtServer Listening, AtServer (Connect 1 (js ''::1'')), Downward 1 (take 20 (encode (assigned CLIENT_A))),
      AtClient 1 (UserLine (js ''hello'')), AtServer (SocketError 1 (js ''reset'')), AtServer (SocketClose 1)]"



text \<open>
  Property C30: names are agreed. In every state of the service, a client that knows its
  identity has a connection at the server, with this slot; its session, if its keys are
  there, is that of this identity, with the invariant of \<open>PeerSession\<close>; and two clients
  whose connections have not ended have different identities.
\<close>

theorem service_names:
  assumes "honest_module C"
    and run: "fold (service_next C) evs (Inr (service_start host port tty entropy)) = Inr se"
    and cl: "se_client se k = Some cl" "cl_myId cl = Some slot"
  shows "slot_at (se_server se) k = Some slot
    \<and> (\<forall>s. cl_session cl = Some s \<longrightarrow> ps_selfId s = slot \<and> session_inv s (cl_world cl))
    \<and> (\<forall>j cl'. j \<noteq> k \<longrightarrow> se_client se j = Some cl' \<longrightarrow> cl_myId cl' = Some slot \<longrightarrow>
         \<not> (live_socket (se_server se) j \<and> live_socket (se_server se) k))"
proof -
  have inv: "service_inv C anyone se" using service_run_safe [OF assms(1), of evs host port tty entropy] run by auto
  have named: "slot_at (se_server se) j = Some i \<and> tuned C anyone i cl'" if j: "se_client se j = Some cl'" "cl_myId cl' = Some i" for j cl' i
  proof -
    have "link C anyone se j" using inv by (simp add: service_inv_def)
    then obtain ms where "expects C anyone (slot_at (se_server se) j) cl' ms" using j(1) by (auto simp: link_def down_ok_def)
    with j(2) show ?thesis by (cases "slot_at (se_server se) j") (auto simp: untuned_def tuned_def split: list.splits)
  qed
  have sinv: "server_inv (se_server se)" using inv by (simp add: service_inv_def)
  have distinct: "j = k" if both: "slot_at (se_server se) j = Some slot" "slot_at (se_server se) k = Some slot"
    "live_socket (se_server se) j" "live_socket (se_server se) k" for j
  proof -
    obtain c where c: "sv_conns (se_server se) j = Some c" "cn_slot c = slot" using both(1) by (auto simp: slot_at_def)
    obtain c' where c': "sv_conns (se_server se) k = Some c'" "cn_slot c' = slot" using both(2) by (auto simp: slot_at_def)
    show ?thesis using server_invD(2) [OF sinv c(1) both(3)] server_invD(2) [OF sinv c'(1) both(4)] c(2) c'(2) by simp
  qed
  have "ps_selfId s = slot \<and> session_inv s (cl_world cl)" if "cl_session cl = Some s" for s
    using tuned_session(1,2) [of C anyone slot cl s] named [OF cl] that by simp
  with named [OF cl] named distinct show ?thesis by blast
qed

text \<open>A client connects and reads its name.\<close>

definition sample_names :: "service_event list" where
  "sample_names = [AtServer Listening, AtServer (Connect 2 (js ''::1'')), Downward 2 (encode (assigned CLIENT_A))]"

definition sample_service :: "nat service" where
  "sample_service = service_start (js ''127.0.0.1'') 5000 (\<lambda>k. True) (\<lambda>k. k)"

lemma sample_named:
  "\<exists>se cl. fold (service_next sample_crypto) sample_names (Inr sample_service) = Inr se
    \<and> se_client se 2 = Some cl \<and> cl_myId cl = Some CLIENT_A"
proof -
  let ?sv = "(server_start (js ''127.0.0.1'') 5000)\<lparr>sv_listening := True\<rparr>"
  let ?c = "\<lparr>cn_slot = CLIENT_A, cn_buffer = new_LineBuffer MAX_FRAME_SIZE, cn_closing = False\<rparr>"
  let ?sv' = "?sv\<lparr>sv_sockets := (sv_sockets ?sv)(2 := Open), sv_clients := (sv_clients ?sv)(CLIENT_A := Some 2),
    sv_conns := (sv_conns ?sv)(2 := Some ?c)\<rparr>"
  let ?se1 = "sample_service\<lparr>se_server := ?sv\<rparr>"
  let ?se2 = "sample_service\<lparr>se_server := ?sv', se_down := (se_down sample_service)(2 := encode (assigned CLIENT_A))\<rparr>"
  let ?cl = "fst (client_start True (js ''127.0.0.1'' @ js '':'' @ nat_to_string 5000) \<lparr>w_entropy = 2, w_heap = []\<rparr>)"
  have "service_next sample_crypto (AtServer Listening) (Inr sample_service) = Inr ?se1"
    by (simp add: sample_service_def service_start_def at_server_def on_listening_def server_start_def)
  moreover have "on_connect 2 (js ''::1'') ?sv = (?sv', [Log (CLIENT_A @ js '' connected from '' @ js ''::1''), Write 2 (encode (assigned CLIENT_A))])"
    using slot_names by (simp add: on_connect_def Let_def freeSlot_def SLOTS_def server_start_def send_def writeTo_def
        is_destroyed_def assigned_def otherSlot_def)
  then have "service_next sample_crypto (AtServer (Connect 2 (js ''::1''))) (Inr ?se1) = Inr ?se2"
    by (simp add: at_server_def sample_service_def service_start_def server_start_def write_down_def)
  moreover obtain se where "service_next sample_crypto (Downward 2 (encode (assigned CLIENT_A))) (Inr ?se2) = Inr se"
    "se_client se 2 = Some (named CLIENT_A [] ?cl)"
  proof -
    have "json_ok (assigned CLIENT_A)" by (simp add: assigned_def notice_ok)
    then have "well_formed (encode (assigned CLIENT_A))"
      using well_formed_append [of "json_text (assigned CLIENT_A)" "[10]"] well_formed_json_text
      by (simp add: encode_text is_high_def is_low_def)
    then have en: "enabled ?se2 (Downward 2 (encode (assigned CLIENT_A)))"
      by (simp add: sample_service_def service_start_def next_piece_def)
    have "ready ?cl" by (rule conjunct1 [OF started_unassigned [unfolded unassigned_def]])
    from assigned_received [OF this, of sample_crypto First] obtain es where
      es: "client_step sample_crypto (DataChunk (utf8_encode (encode (assigned CLIENT_A)))) ?cl = (Inr (named CLIENT_A [] ?cl), es)"
      "\<not> list_ex is_exit es" by auto
    have "se_client ?se2 2 = Some ?cl" by (simp add: sample_service_def service_start_def)
    let ?se3 = "?se2\<lparr>se_down := (se_down ?se2)(2 := []), se_client := (se_client ?se2)(2 := Some (named CLIENT_A [] ?cl))\<rparr>"
    have "service_next sample_crypto (Downward 2 (encode (assigned CLIENT_A))) (Inr ?se2) = Inr (fold (client_effect_at 2) es ?se3)"
      using en es(1) \<open>se_client ?se2 2 = Some ?cl\<close> by (simp add: at_client_def)
    moreover have "se_client (fold (client_effect_at 2) es ?se3) 2 = Some (named CLIENT_A [] ?cl)"
      by (simp only: client_effect_running [OF es(2)]) simp
    ultimately show thesis by (rule that)
  qed
  ultimately have "fold (service_next sample_crypto) sample_names (Inr sample_service) = Inr se"
    by (simp add: sample_names_def)
  with \<open>se_client se 2 = Some (named CLIENT_A [] ?cl)\<close> show ?thesis by (auto simp: named_def)
qed

theorem service_names_witness:
  "\<exists>se cl. fold (service_next sample_crypto) sample_names (Inr sample_service) = Inr se
    \<and> se_client se 2 = Some cl \<and> slot_at (se_server se) 2 = Some CLIENT_A"
proof -
  obtain se cl where run: "fold (service_next sample_crypto) sample_names (Inr sample_service) = Inr se"
    and cl: "se_client se 2 = Some cl" "cl_myId cl = Some CLIENT_A" using sample_named by blast
  have "slot_at (se_server se) 2 = Some CLIENT_A"
    using service_names [OF sample_honest_module run [unfolded sample_service_def] cl] by (rule conjunct1)
  with run cl(1) show ?thesis by (intro exI conjI)
qed

end
