(* ===== verification/Provenance.thy ===== *)
theory Provenance
  imports ServiceProperties
begin

text \<open>
  Where the messages of the service come from. With the messages that processes have written
  in a run as the sources of the invariant \<open>service_inv\<close>, everything a client has received or
  is about to receive is a notice of the server or was written, as it is, by a process that
  has the other name; and a chat message was typed there.
\<close>

section \<open>Writers\<close>

text \<open>
  In the run \<open>evs\<close> from \<open>start\<close>, a process whose connection has the slot \<open>slot\<close> wrote \<open>m\<close>; a
  CHAT message because its user had typed the line.
\<close>

definition wrote :: "'r node_crypto \<Rightarrow> 'r service \<Rightarrow> service_event list \<Rightarrow> sources" where
  "wrote C start evs slot m \<longleftrightarrow> (\<exists>evs1 ev evs2 se k cev cl cl' es. evs = evs1 @ ev # evs2
     \<and> fold (service_next C) evs1 (Inr start) = Inr se \<and> enabled se ev
     \<and> client_part ev = Some (k, cev) \<and> se_client se k = Some cl \<and> slot_at (se_server se) k = Some slot
     \<and> client_step C cev cl = (Inr cl', es) \<and> SocketWrite (encode m) \<in> set es
     \<and> (field m ''type'' = VStr CHAT \<longrightarrow> (\<exists>line. cev = UserLine line \<and> m = chat_from slot (trim line))))"

lemma wrote_more:
  assumes "wrote C start evs slot m"
  shows "wrote C start (evs @ evs') slot m"
proof -
  have "evs = evs1 @ ev # evs2 \<Longrightarrow> evs @ evs' = evs1 @ ev # (evs2 @ evs')" for evs1 ev evs2 by simp
  with assms show ?thesis unfolding wrote_def by blast
qed

lemma wrote_last:
  assumes "fold (service_next C) evs (Inr start) = Inr se" "enabled se ev"
  shows "records C (wrote C start (evs @ [ev])) se ev"
  using assms unfolding records_def recorded_def wrote_def by blast

section \<open>More sources\<close>

lemma more_said: "server_says C W slot m \<Longrightarrow> W \<le> W' \<Longrightarrow> server_says C W' slot m"
  by (induction rule: server_says.induct) (auto intro: server_says.intros simp: le_fun_def)

lemma more_tuned:
  assumes "tuned C W slot cl" "W \<le> W'"
  shows "tuned C W' slot cl"
proof -
  have "heard W slot \<subseteq> heard W' slot" using assms(2) by (auto simp: heard_def le_fun_def)
  note justified_mono [OF _ this]
  moreover have "\<forall>m \<in> set (cl_queue cl). server_says C W' slot m"
    using assms(1) more_said [of C W slot _ W'] assms(2) unfolding tuned_def by blast
  ultimately show ?thesis using assms(1) by (auto simp: tuned_def split: option.splits)
qed

lemma more_expected: "expects C W conn cl ms \<Longrightarrow> W \<le> W' \<Longrightarrow> expects C W' conn cl ms"
  using more_said [of C W _ _ W'] more_tuned [of C W _ cl W'] by (cases conn) (auto split: list.splits)

lemma more_inv:
  assumes "service_inv C W se" "W \<le> W'"
  shows "service_inv C W' se"
proof -
  have "link C W' se k" for k
  proof -
    have link: "link C W se k" using assms(1) by (simp add: service_inv_def)
    have "up_ok C W' (sv_conns (se_server se) k) (se_up se k)"
      using link assms(2) unfolding link_def up_ok_def le_fun_def by (auto split: option.splits)
    moreover have "down_ok C W' (slot_at (se_server se) k) (se_client se k) (se_down se k)"
      using link more_expected [OF _ assms(2)] unfolding link_def down_ok_def by blast
    ultimately show ?thesis using link by (simp add: link_def)
  qed
  with assms(1) show ?thesis by (simp add: service_inv_def)
qed

section \<open>Runs\<close>

lemma run_sources:
  assumes "honest_module C" "fold (service_next C) evs (Inr (service_start host port tty entropy)) = Inr se"
  shows "service_inv C (wrote C (service_start host port tty entropy) evs) se"
  using assms(2)
proof (induction evs arbitrary: se rule: rev_induct)
  case Nil
  then show ?case using service_inv_start by auto
next
  case (snoc ev evs)
  let ?start = "service_start host port tty entropy"
  let ?W = "wrote C ?start (evs @ [ev])"
  obtain se0 where before: "fold (service_next C) evs (Inr ?start) = Inr se0"
    using service_run_safe [OF assms(1)] by blast
  have step: "service_next C ev (Inr se0) = Inr se" using snoc.prems before by simp
  have "wrote C ?start evs \<le> ?W" using wrote_more [of C ?start evs _ _ "[ev]"] by (simp add: le_fun_def)
  with more_inv [OF snoc.IH [OF before]] have inv: "service_inv C ?W se0" .
  show ?case
  proof (cases "enabled se0 ev")
    case True
    with service_step_safe [OF assms(1) inv True wrote_last [OF before True]] step show ?thesis by auto
  next
    case False
    with step inv show ?thesis by simp
  qed
qed

text \<open>
  Property C6: where messages come from. In every state of the service, for every client
  that knows its identity: the text it has not handled yet is a sequence of messages, and
  each of them, and each that waits in its queue, is a notice of the server or was written
  in this form by a process that has the other slot; a CHAT message after its user typed
  just this line. However the processes come and go and the streams are cut, nothing is
  invented, changed, or taken from a third process.
\<close>

theorem messages_have_writers:
  assumes "honest_module C"
    and run: "fold (service_next C) evs (Inr (service_start host port tty entropy)) = Inr se"
    and cl: "se_client se k = Some cl" "cl_myId cl = Some slot"
  shows "\<exists>ms. lb_buffer (cl_buffer cl) @ se_down se k = stream_of ms
    \<and> (\<forall>m \<in> set (cl_queue cl) \<union> set ms. field m ''type'' = VStr SYSTEM
         \<or> wrote C (service_start host port tty entropy) evs (otherSlot slot) m)"
proof -
  let ?W = "wrote C (service_start host port tty entropy) evs"
  have said: "field m ''type'' = VStr SYSTEM \<or> ?W (otherSlot slot) m" if "server_says C ?W slot m" for m
    using that by cases (auto simp: notice_fields)
  have "link C ?W se k" using run_sources [OF assms(1) run] by (simp add: service_inv_def)
  then obtain ms where ms: "lb_buffer (cl_buffer cl) @ se_down se k = stream_of ms"
    "expects C ?W (slot_at (se_server se) k) cl ms" using cl(1) by (auto simp: link_def down_ok_def)
  then have "tuned C ?W slot cl \<and> (\<forall>m \<in> set ms. server_says C ?W slot m)"
    using cl(2) by (cases "slot_at (se_server se) k") (auto simp: untuned_def tuned_def split: list.splits)
  then have "\<forall>m \<in> set (cl_queue cl) \<union> set ms. server_says C ?W slot m" by (auto simp: tuned_def)
  with said ms(1) show ?thesis by (intro exI [of _ ms]) blast
qed

theorem messages_have_writers_witness:
  "\<exists>se cl ms. fold (service_next sample_crypto) sample_names (Inr sample_service) = Inr se
    \<and> se_client se 2 = Some cl \<and> lb_buffer (cl_buffer cl) @ se_down se 2 = stream_of ms"
proof -
  obtain se cl where run: "fold (service_next sample_crypto) sample_names (Inr sample_service) = Inr se"
    and cl: "se_client se 2 = Some cl" "cl_myId cl = Some CLIENT_A" using sample_named by blast
  from messages_have_writers [OF sample_honest_module run [unfolded sample_service_def] cl] run cl(1) show ?thesis by blast
qed

end
