(* ===== verification/Embedding.thy ===== *)
theory Embedding
  imports Provenance
begin

text \<open>
  The closed system of \<open>System\<close> within the open one: every run of the server and two clients
  that stay is a run of the service, event by event. So what is shown of all runs of the
  closed system happens in the service, and every service can establish a session.
\<close>

section \<open>Quiet steps\<close>

text \<open>Steps that neither end a direction of a connection nor a process.\<close>

lemma piece_quiet:
  assumes cl: "expects C W conn cl ms" and conn: "\<forall>slot. conn = Some slot \<longrightarrow> slot \<in> set SLOTS"
    and stream: "lb_buffer (cl_buffer cl) @ stream = stream_of ms" "next_piece piece stream"
    and step: "client_step C (DataChunk (utf8_encode piece)) cl = (Inr cl', es)"
  shows "no_end cl es"
proof -
  have core: "client_core cl" using cl by (cases conn) (auto simp: untuned_def tuned_def split: list.splits)
  note ok = expects_framed [OF cl conn]
  have "\<forall>m \<in> set ms. framed m" "lb_maxFrameSize (cl_buffer cl) = MAX_FRAME_SIZE"
    using ok core by (simp_all add: client_core_def)
  from piece_buffered [OF stream(1) this(1) stream(2) this(2)] obtain ms1 ms2 b where
    ms: "ms = ms1 @ ms2"
    and app: "lb_append (cl_buffer cl) (utf8_decode (utf8_encode piece)) = (Inr (map json_text ms1), (cl_buffer cl)\<lparr>lb_buffer := b\<rparr>)" by blast
  let ?cl = "cl\<lparr>cl_buffer := (cl_buffer cl)\<lparr>lb_buffer := b\<rparr>, cl_queue := cl_queue cl @ ms1\<rparr>"
  have "accept_lines C (map json_text ms1) = Inr ms1" using ok ms by (intro accept_framed) auto
  then have "drain C ?cl = (Inr cl', es)" using step by (simp add: client_on_data_def app)
  from drain_no_end [OF this] no_end_closing [of ?cl cl] show ?thesis by simp
qed

lemma quiet_writes:
  assumes "no_end cl es" "\<not> se_upEnded se k"
  shows "fold (client_effect_at k) es se = se\<lparr>se_up := (se_up se)(k := se_up se k @ concat (writes es))\<rparr>"
  using assms
proof (induction es arbitrary: se)
  case (Cons ef es)
  have rest: "no_end cl es" and ef: "ef \<noteq> SocketEnd" "\<not> is_exit ef" using Cons.prems(1) by (auto simp: no_end_def)
  have "client_effect_at k ef se = se\<lparr>se_up := (se_up se)(k := se_up se k @ concat (frame_of ef))\<rparr>"
    using ef Cons.prems(2) by (cases ef) simp_all
  with Cons.IH [OF rest] Cons.prems(2) show ?case by (simp add: fun_upd_def cong: if_cong)
qed simp

definition server_quiet :: "effect list \<Rightarrow> bool" where
  "server_quiet es \<longleftrightarrow> (\<forall>k t. End k t \<notin> set es) \<and> (\<forall>n. ExitProcess n \<notin> set es)"

lemma server_quiet_writes:
  assumes "server_quiet es" "\<forall>k. sent_to k es \<noteq> [] \<longrightarrow> \<not> se_downEnded se k"
  shows "fold server_effect es se = se\<lparr>se_down := (\<lambda>k. se_down se k @ concat (sent_to k es))\<rparr>"
  using assms
proof (induction es arbitrary: se)
  case (Cons ef es)
  have rest: "server_quiet es" and ef: "\<forall>k t. ef \<noteq> End k t" "\<forall>n. ef \<noteq> ExitProcess n"
    using Cons.prems(1) by (auto simp: server_quiet_def)
  have "server_effect ef se = se\<lparr>se_down := (\<lambda>k. se_down se k @ concat (text_to k ef))\<rparr>"
    using ef Cons.prems(2) by (cases ef) (auto simp: write_down_def fun_eq_iff)
  moreover have "\<forall>k. sent_to k es \<noteq> [] \<longrightarrow> \<not> se_downEnded (se\<lparr>se_down := (\<lambda>k. se_down se k @ concat (text_to k ef))\<rparr>) k"
    using Cons.prems(2) by simp
  ultimately show ?case using Cons.IH [OF rest] by simp
qed simp

section \<open>The closed system in the service\<close>

text \<open>
  The state of the service that shows the state of the closed system: process \<open>socket x\<close> is
  client \<open>x\<close>, each stream is what has been written one after the other, and no direction of
  the two connections has ended.
\<close>

definition embedded :: "'r system \<Rightarrow> 'r service \<Rightarrow> bool" where
  "embedded n se \<longleftrightarrow> se_server se = sy_server n \<and> \<not> se_stopped se
     \<and> (\<forall>k. k \<notin> range socket \<longrightarrow> sv_sockets (sy_server n) k = Unseen)
     \<and> (\<forall>x. se_client se (socket x) = Some (sy_client n x)
          \<and> se_up se (socket x) = concat (sy_up n x) \<and> \<not> se_upEnded se (socket x)
          \<and> se_down se (socket x) = concat (sy_down n x) \<and> \<not> se_downEnded se (socket x)
          \<and> (\<forall>t \<in> set (sy_up n x) \<union> set (sy_down n x). well_formed t))"

lemma embeddedD:
  assumes "embedded n se"
  shows "se_server se = sy_server n" "\<not> se_stopped se" "k \<notin> range socket \<Longrightarrow> sv_sockets (sy_server n) k = Unseen"
    "se_client se (socket x) = Some (sy_client n x)" "se_up se (socket x) = concat (sy_up n x)" "\<not> se_upEnded se (socket x)"
    "se_down se (socket x) = concat (sy_down n x)" "\<not> se_downEnded se (socket x)"
    "t \<in> set (sy_up n x) \<Longrightarrow> well_formed t" "t \<in> set (sy_down n x) \<Longrightarrow> well_formed t"
  using assms unfolding embedded_def by blast+

lemma socket_eq [simp]: "socket x = socket y \<longleftrightarrow> x = y"
  by (cases x; cases y) simp_all

text \<open>After a quiet step of client \<open>x\<close>, and of the server.\<close>

lemma client_embedded:
  assumes "embedded n se" "no_end cl0 es" "\<forall>t \<in> set (writes es). well_formed t"
    and "\<forall>t \<in> set down. well_formed t"
  shows "embedded (client_did x cl es (n\<lparr>sy_down := (sy_down n)(x := down)\<rparr>))
    (fold (client_effect_at (socket x)) es
      (se\<lparr>se_down := (se_down se)(socket x := concat down), se_client := (se_client se)(socket x := Some cl)\<rparr>))"
proof -
  have "\<not> se_upEnded se (socket x)" by (rule embeddedD(6) [OF assms(1)])
  with assms(1,3,4) show ?thesis
    by (subst quiet_writes [OF assms(2)]) (auto simp: embedded_def client_did_def)
qed

lemma server_embedded:
  assumes "embedded n se" "server_quiet es" "\<forall>k t. t \<in> set (sent_to k es) \<longrightarrow> k \<in> range socket \<and> well_formed t"
    and "\<forall>t \<in> set up. well_formed t" "\<forall>k. k \<notin> range socket \<longrightarrow> sv_sockets sv k = Unseen"
  shows "embedded (server_did sv es (n\<lparr>sy_up := (sy_up n)(x := up)\<rparr>))
    (fold server_effect es (se\<lparr>se_up := (se_up se)(socket x := concat up), se_server := sv\<rparr>))"
proof -
  have "\<not> se_downEnded se k" if "sent_to k es \<noteq> []" for k
    using assms(3) that embeddedD(8) [OF assms(1)] by (metis imageE list.set_intros(1) neq_Nil_conv)
  with assms(1,3-5) show ?thesis
    by (subst server_quiet_writes [OF assms(2)]) (auto simp: embedded_def server_did_def)
qed

section \<open>One step\<close>

lemma message_text: "framed m \<Longrightarrow> well_formed (encode m)"
  using well_formed_append [of "json_text m" "[10]"] well_formed_json_text [of m]
  by (simp add: framed_def encode_text is_high_def is_low_def)

lemma said_text: "answers C conn es \<Longrightarrow> \<forall>slot. conn = Some slot \<longrightarrow> slot \<in> set SLOTS \<Longrightarrow> t \<in> set (writes es) \<Longrightarrow> well_formed t"
proof (cases conn)
  case (Some slot)
  assume "answers C conn es" "\<forall>slot. conn = Some slot \<longrightarrow> slot \<in> set SLOTS" "t \<in> set (writes es)"
  with Some obtain d where "t = encode d" "handshake_says C slot d" "slot \<in> set SLOTS" by auto
  with client_says_ok(1) [OF client_says.handshake] message_text show ?thesis by blast
qed simp

lemma addressed_texts:
  assumes "addressed C W sv es" "server_inv sv" "t \<in> set (sent_to k es)"
  shows "sv_sockets sv k \<noteq> Unseen \<and> well_formed t"
proof -
  obtain ms where ms: "sent_to k es = map encode ms" "\<forall>m \<in> set ms. \<exists>c. sv_conns sv k = Some c \<and> server_says C W (cn_slot c) m"
    by (rule addressedE [OF assms(1)])
  with assms(3) obtain m c where m: "t = encode m" "sv_conns sv k = Some c" "server_says C W (cn_slot c) m" by auto
  from server_invD(3) [OF assms(2) m(2)] have "cn_slot c \<in> set SLOTS" "sv_sockets sv k \<noteq> Unseen" by simp_all
  with server_says_ok [OF m(3)] m(1) message_text show ?thesis by blast
qed

lemma line_no_exit: "handle_line C sv k slot line = Inr es \<Longrightarrow> ExitProcess n \<notin> set es"
  by (auto simp: handle_line_def relay_def send_def writeTo_def Let_def split: if_splits sum.splits validation.splits option.splits)

lemma data_no_exit:
  assumes "on_data C k c chunk sv = (r, es)"
  shows "ExitProcess i \<notin> set es"
proof -
  obtain x lb where app: "lb_append (cn_buffer c) (utf8_decode chunk) = (x, lb)" by fastforce
  show ?thesis
  proof (cases x)
    case (Inl e)
    with assms app show ?thesis by (auto simp: on_data_def Let_def split: if_splits)
  next
    case (Inr ls)
    have "ExitProcess i \<notin> set (fst (handle_lines C (set_conn k (c\<lparr>cn_buffer := lb\<rparr>) sv) k (cn_slot c) ls))"
      using handle_lines_effects line_no_exit by blast
    moreover have "es = [] \<or> es = fst (handle_lines C (set_conn k (c\<lparr>cn_buffer := lb\<rparr>) sv) k (cn_slot c) ls)"
      using assms app Inr by (auto simp: on_data_def case_prod_beta Let_def split: if_splits)
    ultimately show ?thesis by auto
  qed
qed

text \<open>A client connects: there is a slot for it.\<close>

lemma slot_free:
  assumes inv: "server_inv sv" and two: "\<forall>k. k \<notin> range socket \<longrightarrow> sv_sockets sv k = Unseen"
    and new: "sv_sockets sv (socket x) = Unseen"
  shows "\<exists>slot. freeSlot (sv\<lparr>sv_sockets := (sv_sockets sv)(socket x := Open)\<rparr>) = Some slot"
proof (rule ccontr)
  assume "\<not> ?thesis"
  then have "freeSlot (sv\<lparr>sv_sockets := (sv_sockets sv)(socket x := Open)\<rparr>) = None" by simp
  then obtain p q where pq: "sv_clients sv CLIENT_A = Some p" "sv_clients sv CLIENT_B = Some q" by (auto simp: freeSlot_None)
  have at: "k = socket (other x)" if k: "sv_clients sv slot = Some k" for slot k
  proof -
    have seen: "sv_sockets sv k \<noteq> Unseen" using server_invD(1,3) [OF inv] k by blast
    then obtain y where "k = socket y" using two by blast
    with seen new show ?thesis by (cases x; cases y) auto
  qed
  then obtain c where "sv_conns sv p = Some c" "cn_slot c = CLIENT_A" "cn_slot c = CLIENT_B"
    using server_invD(1) [OF inv pq(1)] server_invD(1) [OF inv pq(2)] at [OF pq(1)] at [OF pq(2)] by auto
  then show False using slot_names by simp
qed

lemma connect_embedded:
  assumes inv: "server_inv (sy_server n)" and emb: "embedded n se"
    and new: "sv_sockets (sy_server n) (socket x) = Unseen" and run: "on_connect (socket x) remote (sy_server n) = (sv, es)"
  shows "embedded (server_did sv es n) (fold server_effect es (se\<lparr>se_server := sv\<rparr>))"
proof -
  let ?sv = "sy_server n" and ?k = "socket x"
  have two: "\<forall>k. k \<notin> range socket \<longrightarrow> sv_sockets ?sv k = Unseen" using embeddedD(3) [OF emb] by blast
  obtain slot where slot: "freeSlot (?sv\<lparr>sv_sockets := (sv_sockets ?sv)(?k := Open)\<rparr>) = Some slot"
    using slot_free [OF inv two new] by blast
  note adm = admitted [OF inv new slot run]
  have s: "slot \<in> set SLOTS" using freeSlot_Some [OF slot] by simp
  have quiet: "server_quiet es"
    using adm(5) run slot by (auto simp: server_quiet_def on_connect_def Let_def send_def writeTo_def split: option.splits if_splits)
  have texts: "k \<in> range socket \<and> well_formed t" if t: "t \<in> set (sent_to k es)" for k t
  proof (cases "k = ?k")
    case True
    obtain ms where "sent_to ?k es = encode (assigned slot) # map encode ms" "\<forall>m \<in> set ms. server_says sample_crypto anyone slot m"
      using adm(3) by blast
    with t True assigned_ok(1) [OF s] server_says_ok [OF _ s] message_text show ?thesis by fastforce
  next
    case False
    with t have "t \<in> set (sent_to k (filter (\<lambda>ef. text_to ?k ef = []) es))" using sent_elsewhere by metis
    from addressed_texts [OF adm(4) [of sample_crypto anyone] inv this] two show ?thesis by blast
  qed
  have "\<forall>k. k \<notin> range socket \<longrightarrow> sv_sockets sv k = Unseen" using two adm(2) by auto
  from server_embedded [where x = x and up = "sy_up n x", OF emb quiet _ _ this] texts embeddedD(9) [OF emb]
  show ?thesis by (simp flip: embeddedD(5) [OF emb])
qed

lemma stream_head:
  assumes "well_formed t"
  shows "next_piece t (concat (t # rest))" "drop (length t) (concat (t # rest)) = concat rest"
  using assms by (simp_all add: next_piece_def)

lemma relay_embedded:
  assumes inv: "service_inv C anyone se" and emb: "embedded n se" and up: "sy_up n x = t # rest"
    and poss: "possible (sy_server n) (DataIn (socket x) (utf8_encode t))"
    and run: "server_step C (DataIn (socket x) (utf8_encode t)) (sy_server n) = (Inr sv, es)"
  shows "enabled se (Upward (socket x) t)"
    and "\<exists>se'. service_do C (Upward (socket x) t) se = Inr se' \<and> embedded (server_did sv es (n\<lparr>sy_up := (sy_up n)(x := rest)\<rparr>)) se'"
proof -
  let ?sv = "sy_server n" and ?k = "socket x"
  note D = embeddedD [OF emb]
  have wf: "well_formed t" "\<forall>t \<in> set rest. well_formed t" using D(9) [of _ x] up by simp_all
  note head = stream_head [OF wf(1), of rest]
  show "enabled se (Upward ?k t)" using D(1,2,5) poss head(1) up by simp
  have sinv: "server_inv ?sv" and link: "link C anyone se ?k" using inv D(1) by (simp_all add: service_inv_def)
  have facts: "server_quiet es \<and> (\<forall>k t. t \<in> set (sent_to k es) \<longrightarrow> k \<in> range socket \<and> well_formed t)
    \<and> sv_sockets sv = sv_sockets ?sv"
  proof (cases "sv_conns ?sv ?k")
    case None
    with run show ?thesis by (simp add: server_quiet_def)
  next
    case (Some c)
    with link D(1) obtain ms where ms: "\<not> cn_closing c" "lb_buffer (cn_buffer c) @ se_up se ?k = stream_of ms"
      "\<forall>m \<in> set ms. client_says C (cn_slot c) m \<and> anyone (cn_slot c) m" by (auto simp: link_def up_ok_def)
    have "next_piece t (se_up se ?k)" using head(1) D(5) [of x] up by simp
    from piece_served [where W = anyone, OF sinv Some ms this] run have es: "addressed C anyone ?sv es" "\<forall>j t. End j t \<notin> set es"
      and sv: "sv_sockets sv = sv_sockets ?sv" by (auto simp: set_conn_def)
    have "ExitProcess i \<notin> set es" for i using data_no_exit run Some by (metis option.case(2) server_step.simps(4))
    then have "server_quiet es" using es(2) by (simp add: server_quiet_def)
    then show ?thesis using addressed_texts [OF es(1) sinv] D(3) sv by blast
  qed
  moreover have "\<forall>k. k \<notin> range socket \<longrightarrow> sv_sockets sv k = Unseen" using facts D(3) by simp
  ultimately have "embedded (server_did sv es (n\<lparr>sy_up := (sy_up n)(x := rest)\<rparr>))
      (fold server_effect es (se\<lparr>se_up := (se_up se)(?k := concat rest), se_server := sv\<rparr>))"
    using wf(2) by (intro server_embedded [OF emb]) simp_all
  moreover have "service_do C (Upward ?k t) se =
      Inr (fold server_effect es (se\<lparr>se_up := (se_up se)(?k := concat rest), se_server := sv\<rparr>))"
    using run D(1) D(5) [of x] up head(2) by (simp add: at_server_def)
  ultimately show "\<exists>se'. service_do C (Upward ?k t) se = Inr se' \<and> embedded (server_did sv es (n\<lparr>sy_up := (sy_up n)(x := rest)\<rparr>)) se'"
    by blast
qed

lemma receive_embedded:
  assumes inv: "service_inv C anyone se" and emb: "embedded n se" and C: "honest_module C"
    and down: "sy_down n x = t # rest"
    and run: "client_step C (DataChunk (utf8_encode t)) (sy_client n x) = (Inr cl, es)"
  shows "enabled se (Downward (socket x) t)"
    and "\<exists>se'. service_do C (Downward (socket x) t) se = Inr se'
      \<and> embedded (client_did x cl es (n\<lparr>sy_down := (sy_down n)(x := rest)\<rparr>)) se'"
proof -
  let ?k = "socket x" and ?conn = "slot_at (se_server se) (socket x)"
  note D = embeddedD [OF emb]
  have wf: "well_formed t" "\<forall>t \<in> set rest. well_formed t" using D(10) [of _ x] down by simp_all
  note head = stream_head [OF wf(1), of rest]
  show en: "enabled se (Downward ?k t)" using D(4,7) [of x] head(1) down by simp
  have sinv: "server_inv (se_server se)" and link: "link C anyone se ?k" using inv by (simp_all add: service_inv_def)
  then obtain ms where ms: "lb_buffer (cl_buffer (sy_client n x)) @ se_down se ?k = stream_of ms"
    "expects C anyone ?conn (sy_client n x) ms" using D(4) [of x] by (auto simp: link_def down_ok_def)
  have piece: "next_piece t (se_down se ?k)" using en by simp
  note slots = slot_at_slots [OF sinv, of ?k]
  from piece_heard [OF C ms(2) slots ms(1) piece] run have "answers C ?conn es" by auto
  then have texts: "\<forall>t \<in> set (writes es). well_formed t" using said_text [OF _ slots] by blast
  from client_embedded [OF emb piece_quiet [OF ms(2) slots ms(1) piece run] texts wf(2)]
  show "\<exists>se'. service_do C (Downward ?k t) se = Inr se'
      \<and> embedded (client_did x cl es (n\<lparr>sy_down := (sy_down n)(x := rest)\<rparr>)) se'"
    using run D(4,7) [of x] down head(2) by (simp add: at_client_def)
qed

lemma keys_embedded:
  assumes inv: "service_inv C anyone se" and emb: "embedded n se" and C: "honest_module C"
    and timer: "cl_keyTimer (sy_client n x) \<noteq> None" and run: "client_step C KeysDue (sy_client n x) = (Inr cl, es)"
  shows "enabled se (AtClient (socket x) KeysDue)"
    and "\<exists>se'. service_do C (AtClient (socket x) KeysDue) se = Inr se' \<and> embedded (client_did x cl es n) se'"
proof -
  let ?k = "socket x" and ?conn = "slot_at (se_server se) (socket x)"
  note D = embeddedD [OF emb]
  show "enabled se (AtClient ?k KeysDue)" using D(4) [of x] timer by simp
  have sinv: "server_inv (se_server se)" and link: "link C anyone se ?k" using inv by (simp_all add: service_inv_def)
  then obtain ms where ms: "expects C anyone ?conn (sy_client n x) ms" using D(4) [of x] by (auto simp: link_def down_ok_def)
  note slots = slot_at_slots [OF sinv, of ?k]
  have "own_client_event (sy_client n x) KeysDue" using timer by simp
  from event_heard [OF C ms slots this] run have "answers C ?conn es" by (auto simp: says_def)
  then have texts: "\<forall>t \<in> set (writes es). well_formed t" using said_text [OF _ slots] by blast
  obtain i where "cl_keyTimer (sy_client n x) = Some i" using timer by blast
  with run have "client_on_keys C i (sy_client n x) = (Inr cl, es)" by simp
  then have quiet: "no_end (sy_client n x) es" using on_keys_no_end by blast
  have "\<forall>t \<in> set (sy_down n x). well_formed t" using D(10) [of _ x] by blast
  from client_embedded [OF emb quiet texts this, of x cl] D(4) [of x] run
  show "\<exists>se'. service_do C (AtClient ?k KeysDue) se = Inr se' \<and> embedded (client_did x cl es n) se'"
    by (simp add: at_client_def flip: D(7) [of x])
qed

lemma step_embedded:
  assumes C: "honest_module C" and inv: "service_inv C anyone se" and emb: "embedded n se" and step: "sys_step C n n'"
  shows "\<exists>ev se'. enabled se ev \<and> service_do C ev se = Inr se' \<and> embedded n' se'"
proof -
  note D = embeddedD [OF emb]
  have sinv: "server_inv (sy_server n)" using inv D(1) by (simp add: service_inv_def)
  from step show ?thesis
  proof (cases rule: sys_step.cases)
    case (listen sv es)
    then have es: "server_quiet es" "sent_to k es = []" "sv_sockets sv = sv_sockets (sy_server n)" for k
      by (auto simp: on_listening_def server_quiet_def)
    have "\<forall>k. k \<notin> range socket \<longrightarrow> sv_sockets sv k = Unseen" using es(3) D(3) by simp
    from server_embedded [where x = First and up = "sy_up n First", OF emb es(1) _ _ this] es(2) D(9)
    have "embedded n' (fold server_effect es (se\<lparr>se_server := sv\<rparr>))"
      using listen(1) by (simp flip: D(5) [of First])
    moreover have "enabled se (AtServer Listening)" using D(1,2) listen(2) by simp
    moreover have "service_do C (AtServer Listening) se = Inr (fold server_effect es (se\<lparr>se_server := sv\<rparr>))"
      using listen(3) D(1) by (simp add: at_server_def)
    ultimately show ?thesis by blast
  next
    case (connect x remote sv es)
    have "on_connect (socket x) remote (sy_server n) = (sv, es)" using connect(4) by (simp split: prod.splits)
    from connect_embedded [OF sinv emb _ this] connect(1,2)
    have "embedded n' (fold server_effect es (se\<lparr>se_server := sv\<rparr>))" by simp
    moreover have "enabled se (AtServer (Connect (socket x) remote))" using D(1,2) connect(2) by simp
    moreover have "service_do C (AtServer (Connect (socket x) remote)) se = Inr (fold server_effect es (se\<lparr>se_server := sv\<rparr>))"
      using connect(4) D(1) by (simp add: at_server_def)
    ultimately show ?thesis by blast
  next
    case (relay x t rest sv es)
    from relay_embedded [OF inv emb relay(2-4)] relay(1) show ?thesis by blast
  next
    case (receive x t rest cl es)
    from receive_embedded [OF inv emb C receive(2,3)] receive(1) show ?thesis by blast
  next
    case (keys x cl es)
    from keys_embedded [OF inv emb C keys(2,3)] keys(1) show ?thesis by blast
  qed
qed

section \<open>Every run\<close>

lemma start_embedded:
  "embedded (sys_start (server_start host port) (fresh_clients (tty \<circ> socket) (host @ js '':'' @ nat_to_string port)
      (\<lambda>x. \<lparr>w_entropy = entropy (socket x), w_heap = []\<rparr>))) (service_start host port tty entropy)"
  by (simp add: embedded_def sys_start_def service_start_def fresh_clients_def server_start_def)

lemma run_embedded:
  assumes C: "honest_module C" and start: "embedded n0 se0" "service_inv C anyone se0"
  shows "(sys_step C ^^ k) n0 n \<Longrightarrow> \<exists>evs se. length evs = k \<and> fold (service_next C) evs (Inr se0) = Inr se
    \<and> embedded n se \<and> service_inv C anyone se"
proof (induction k arbitrary: n)
  case 0
  with start show ?case by (intro exI [of _ "[]"]) simp
next
  case (Suc k)
  then obtain m where "(sys_step C ^^ k) n0 m" "sys_step C m n" by auto
  with Suc.IH obtain evs se where IH: "length evs = k" "fold (service_next C) evs (Inr se0) = Inr se"
    "embedded m se" "service_inv C anyone se" by blast
  from step_embedded [OF C IH(4,3) \<open>sys_step C m n\<close>] obtain ev se' where
    ev: "enabled se ev" "service_do C ev se = Inr se'" "embedded n se'" by blast
  have "service_inv C anyone se'" using service_step_safe [OF C IH(4) ev(1) anyone_records] ev(2) by auto
  with IH(1,2) ev show ?case by (intro exI [of _ "evs @ [ev]"] exI [of _ se']) simp
qed

text \<open>
  Property C7: the closed system is part of the service. Every run of the server and two
  clients that stay, in every order of its events, is a run of the service with as many
  events, at the end of which the server, both clients and the four streams are the same.
  In particular, what \<open>program_establishes\<close> shows of these runs happens in the service.
\<close>

theorem closed_runs_in_service:
  assumes "honest_module C"
    and "(sys_step C ^^ k) (sys_start (server_start host port) (fresh_clients (tty \<circ> socket) (host @ js '':'' @ nat_to_string port)
      (\<lambda>x. \<lparr>w_entropy = entropy (socket x), w_heap = []\<rparr>))) n"
  shows "\<exists>evs se. length evs = k \<and> fold (service_next C) evs (Inr (service_start host port tty entropy)) = Inr se
    \<and> se_server se = sy_server n
    \<and> (\<forall>x. se_client se (socket x) = Some (sy_client n x)
         \<and> se_up se (socket x) = concat (sy_up n x) \<and> se_down se (socket x) = concat (sy_down n x))"
proof -
  from run_embedded [OF assms(1) start_embedded service_inv_start assms(2)] obtain evs se where
    "length evs = k" "fold (service_next C) evs (Inr (service_start host port tty entropy)) = Inr se" "embedded n se"
    by blast
  with embeddedD(1,4,5,7) [OF \<open>embedded n se\<close>] show ?thesis by blast
qed

text \<open>With a module that behaves as documented, such a run exists for every start.\<close>

lemma closed_run_exists:
  assumes "honest_module C"
  obtains n where
    "(sys_step C ^^ 17) (sys_start (server_start host port) (fresh_clients (tty \<circ> socket) (host @ js '':'' @ nat_to_string port)
      (\<lambda>x. \<lparr>w_entropy = entropy (socket x), w_heap = []\<rparr>))) n" "secured n"
proof -
  let ?w = "\<lambda>x. \<lparr>w_entropy = entropy (socket x), w_heap = []\<rparr>"
  let ?start = "sys_start (server_start host port) (fresh_clients (tty \<circ> socket) (host @ js '':'' @ nat_to_string port) ?w)"
  have "module_ok C" "\<And>x. client_ok C (fst (createIdentity C (w_entropy (?w x))))"
    using assms by (simp_all add: honest_module_def module_total_def)
  note runs = program_runs [OF this]
  obtain k n where run: "(sys_step C ^^ k) ?start n" "\<nexists>m. sys_step C n m"
    by (rule bounded_run_ends [of "sys_step C" ?start 17]) (rule runs(1))
  with runs(2) [OF run(1)] have "k = 17" by blast
  with run(1) runs(3) [OF run(1)] that show thesis by blast
qed

theorem closed_runs_in_service_witness:
  "\<exists>evs se clA clB sA sB. length evs = 17
    \<and> fold (service_next sample_crypto) evs (Inr (service_start (js ''127.0.0.1'') 5000 (\<lambda>k. True) (\<lambda>k. k))) = Inr se
    \<and> se_client se 1 = Some clA \<and> cl_session clA = Some sA \<and> ps_state sA = ESTABLISHED
    \<and> se_client se 2 = Some clB \<and> cl_session clB = Some sB \<and> ps_state sB = ESTABLISHED
    \<and> ps_sessionId sA = ps_sessionId sB \<and> the_key sA (cl_world clA) = the_key sB (cl_world clB)"
proof -
  obtain n where n: "(sys_step sample_crypto ^^ 17) (sys_start (server_start (js ''127.0.0.1'') 5000)
      (fresh_clients ((\<lambda>k. True) \<circ> socket) (js ''127.0.0.1'' @ js '':'' @ nat_to_string 5000)
        (\<lambda>x. \<lparr>w_entropy = (\<lambda>k. k) (socket x), w_heap = []\<rparr>))) n" "secured n"
    by (rule closed_run_exists [OF sample_honest_module])
  from closed_runs_in_service [OF sample_honest_module n(1)] obtain evs se where
    run: "length evs = 17" "fold (service_next sample_crypto) evs (Inr (service_start (js ''127.0.0.1'') 5000 (\<lambda>k. True) (\<lambda>k. k))) = Inr se"
    and client: "\<And>x. se_client se (socket x) = Some (sy_client n x)" by auto
  have "se_client se 1 = Some (sy_client n First)" "se_client se 2 = Some (sy_client n Second)"
    using client [of First] client [of Second] by simp_all
  with run n(2) show ?thesis unfolding secured_def by blast
qed

section \<open>Established sessions\<close>

lemma heard_written: "Received m \<in> heard W slot \<longleftrightarrow> W (otherSlot slot) m"
  by (simp add: heard_def)

text \<open>A client with a session or a key timer goes by the slot of its connection.\<close>

lemma has_slot:
  assumes "service_inv C W se" "se_client se k = Some cl" "cl_session cl \<noteq> None \<or> cl_keyTimer cl \<noteq> None"
  shows "\<exists>slot. slot_at (se_server se) k = Some slot \<and> tuned C W slot cl"
proof -
  have "link C W se k" using assms(1) by (simp add: service_inv_def)
  then obtain ms where "expects C W (slot_at (se_server se) k) cl ms" using assms(2) by (auto simp: link_def down_ok_def)
  then show ?thesis
    using assms(3) by (cases "slot_at (se_server se) k") (auto simp: untuned_def split: list.splits)
qed

lemma session_rests_on:
  assumes "honest_module C"
    and run: "fold (service_next C) evs (Inr (service_start host port tty entropy)) = Inr se"
    and cl: "se_client se k = Some cl" "cl_session cl = Some s" "ps_state s = ESTABLISHED"
  shows "\<exists>slot enc sig hello m. slot_at (se_server se) k = Some slot \<and> ps_selfId s = slot
    \<and> wrote C (service_start host port tty entropy) evs (otherSlot slot) hello
    \<and> hello_from C (VStr (otherSlot slot)) hello enc sig
    \<and> wrote C (service_start host port tty entropy) evs (otherSlot slot) m
    \<and> (if slot = CLIENT_A then ack_verified C m (VStr CLIENT_B) (VStr CLIENT_A) (ps_sessionId s) sig
       else field m ''sessionId'' = ps_sessionId s
         \<and> exchange_verified C m (VStr CLIENT_A) (VStr CLIENT_B) sig (kp_public (id_encryption (ps_identity s)))
             (kp_private (id_encryption (ps_identity s))) (the_key s (cl_world cl)))"
proof -
  let ?W = "wrote C (service_start host port tty entropy) evs"
  from has_slot [OF run_sources [OF assms(1) run] cl(1)] cl(2) obtain slot where
    slot: "slot_at (se_server se) k = Some slot" "tuned C ?W slot cl" by auto
  note sess = tuned_session [OF slot(2) cl(2)]
  note parties = slot_parties [OF sess(1,2)]
  have peer: "slot \<noteq> CLIENT_A \<Longrightarrow> slot = CLIENT_B" using parties(1) by (simp add: SLOTS_def)
  have names: "otherSlot CLIENT_A = CLIENT_B" "otherSlot CLIENT_B = CLIENT_A" "CLIENT_B \<noteq> CLIENT_A"
    using slot_names by (simp_all add: otherSlot_def)
  from sess(6) cl(3) parties(2) obtain enc sig where
    "greeted C (VStr (otherSlot slot)) (heard ?W slot) enc sig"
    "authenticated C (VStr slot) (VStr (otherSlot slot)) (ps_identity s) (heard ?W slot) (ps_sessionId s) (the_key s (cl_world cl)) sig"
    by (auto simp: session_phase_def Let_def)
  then obtain hello m where said: "?W (otherSlot slot) hello" "hello_from C (VStr (otherSlot slot)) hello enc sig"
    "?W (otherSlot slot) m"
    and auth: "if VStr slot = VStr INITIATOR_ID then ack_verified C m (VStr (otherSlot slot)) (VStr slot) (ps_sessionId s) sig
      else exchange_verified C m (VStr (otherSlot slot)) (VStr slot) sig (kp_public (id_encryption (ps_identity s)))
          (kp_private (id_encryption (ps_identity s))) (the_key s (cl_world cl)) \<and> ps_sessionId s = field m ''sessionId''"
    by (auto simp: greeted_def authenticated_def heard_written)
  have "if slot = CLIENT_A then ack_verified C m (VStr CLIENT_B) (VStr CLIENT_A) (ps_sessionId s) sig
       else field m ''sessionId'' = ps_sessionId s
         \<and> exchange_verified C m (VStr CLIENT_A) (VStr CLIENT_B) sig (kp_public (id_encryption (ps_identity s)))
             (kp_private (id_encryption (ps_identity s))) (the_key s (cl_world cl))"
    using auth peer parties(4) sess(2) names by (cases "slot = CLIENT_A") auto
  with slot(1) sess(2) said show ?thesis by blast
qed

text \<open>
  Property C4: what an established session of the service rests on. If a client's session
  is ESTABLISHED, then processes with the other slot wrote a HELLO with the encryption and
  signing key of the peer, and a message that verifies under this signing key: for client A
  an acknowledgement of just this session ID, for client B a KEY_EXCHANGE with this session
  ID whose ciphertext decrypts, with its own key, to just the session key in use.
\<close>

theorem established_in_service:
  assumes "honest_module C"
    and run: "fold (service_next C) evs (Inr (service_start host port tty entropy)) = Inr se"
    and cl: "se_client se k = Some cl" "cl_session cl = Some s" "ps_state s = ESTABLISHED"
  shows "\<exists>slot enc sig hello m. slot_at (se_server se) k = Some slot \<and> ps_selfId s = slot
    \<and> wrote C (service_start host port tty entropy) evs (otherSlot slot) hello
    \<and> hello_from C (VStr (otherSlot slot)) hello enc sig
    \<and> wrote C (service_start host port tty entropy) evs (otherSlot slot) m
    \<and> (if slot = CLIENT_A then ack_verified C m (VStr CLIENT_B) (VStr CLIENT_A) (ps_sessionId s) sig
       else field m ''sessionId'' = ps_sessionId s
         \<and> exchange_verified C m (VStr CLIENT_A) (VStr CLIENT_B) sig (kp_public (id_encryption (ps_identity s)))
             (kp_private (id_encryption (ps_identity s))) (the_key s (cl_world cl)))"
  by (rule session_rests_on [OF assms])

theorem established_in_service_witness:
  "\<exists>evs se cl s hello m sig enc. fold (service_next sample_crypto) evs (Inr sample_service) = Inr se
    \<and> se_client se 1 = Some cl \<and> cl_session cl = Some s
    \<and> wrote sample_crypto sample_service evs (otherSlot (ps_selfId s)) hello
    \<and> hello_from sample_crypto (VStr (otherSlot (ps_selfId s))) hello enc sig
    \<and> wrote sample_crypto sample_service evs (otherSlot (ps_selfId s)) m"
proof -
  obtain n where n: "(sys_step sample_crypto ^^ 17) (sys_start (server_start (js ''127.0.0.1'') 5000)
      (fresh_clients ((\<lambda>k. True) \<circ> socket) (js ''127.0.0.1'' @ js '':'' @ nat_to_string 5000)
        (\<lambda>x. \<lparr>w_entropy = (\<lambda>k. k) (socket x), w_heap = []\<rparr>))) n" "secured n"
    by (rule closed_run_exists [OF sample_honest_module])
  from run_embedded [OF sample_honest_module start_embedded service_inv_start n(1)] obtain evs se where
    run: "fold (service_next sample_crypto) evs (Inr (service_start (js ''127.0.0.1'') 5000 (\<lambda>k. True) (\<lambda>k. k))) = Inr se"
    and "embedded n se" by blast
  then have client: "se_client se 1 = Some (sy_client n First)" using embeddedD(4) [of n se First] by simp
  obtain s where s: "cl_session (sy_client n First) = Some s" "ps_state s = ESTABLISHED" using n(2) by (auto simp: secured_def)
  from established_in_service [OF sample_honest_module run client s] run client s(1)
  show ?thesis unfolding sample_service_def by blast
qed

end
