(* ===== verification/ClientHistory.thy ===== *)
theory ClientHistory
  imports ClientScript Agreement
begin

text \<open>
  A client process and its \<open>PeerSession\<close>: whatever the socket, the timers and the user do, the
  session of the process makes the steps of the class and no others, on the messages taken
  from the queue in order, and what the process sends on its own account is exactly what the
  session returned. So what is shown of sessions over all histories holds of the sessions
  that processes have.
\<close>

section \<open>The session under a handler\<close>

text \<open>The method of the session that a message makes the client call, if any.\<close>

definition session_events :: "jsval \<Rightarrow> session_event list" where
  "session_events m =
     (if text_of (field m ''type'') = SYSTEM then
        (if startsWith (text_of (field m ''text'')) connected_as then []
         else if field m ''event'' = VStr PEER_JOINED then [PeerJoined]
         else if field m ''event'' = VStr PEER_LEFT then [PeerLeft] else [])
      else if text_of (field m ''type'') \<in> set HANDSHAKE_TYPES then [Received m] else [])"

text \<open>From \<open>cl\<close> to \<open>cl'\<close> the session went through the history \<open>sevs\<close>, and \<open>ts\<close> is what it sent.\<close>

definition moves :: "'r node_crypto \<Rightarrow> session_event list \<Rightarrow> 'r client \<Rightarrow> jsstring list \<Rightarrow> 'r client \<Rightarrow> bool" where
  "moves C sevs cl ts cl' \<longleftrightarrow> (\<exists>s s'. cl_session cl = Some s \<and> cl_session cl' = Some s'
     \<and> run_session C sevs (s, cl_world cl) = (s', cl_world cl')
     \<and> ts = map encode (all_sends C sevs (s, cl_world cl)))"

lemma movesI:
  "cl_session cl = Some s \<Longrightarrow> cl_session cl' = Some s' \<Longrightarrow> run_session C sevs (s, cl_world cl) = (s', cl_world cl') \<Longrightarrow>
    ts = map encode (all_sends C sevs (s, cl_world cl)) \<Longrightarrow> moves C sevs cl ts cl'"
  by (simp add: moves_def)

lemma moves_nothing:
  "cl_session cl = Some s \<Longrightarrow> cl_session cl' = Some s \<Longrightarrow> cl_world cl' = cl_world cl \<Longrightarrow> moves C [] cl [] cl'"
  by (simp add: moves_def run_session_def)

lemma all_sends_append:
  "all_sends C (evs @ evs') sw = all_sends C evs sw @ all_sends C evs' (run_session C evs sw)"
  by (induction evs arbitrary: sw) (simp_all add: run_session_def)

lemma moves_trans:
  assumes "moves C sevs cl ts cl1" "moves C sevs' cl1 ts' cl2"
  shows "moves C (sevs @ sevs') cl (ts @ ts') cl2"
  using assms by (auto simp: moves_def all_sends_append run_session_def)

lemma moves_same:
  assumes "cl_session cl1 = cl_session cl" "cl_world cl1 = cl_world cl"
  shows "moves C sevs cl1 ts cl2 = moves C sevs cl ts cl2" "moves C sevs cl2 ts cl1 = moves C sevs cl2 ts cl"
  using assms by (simp_all add: moves_def)

section \<open>One message\<close>

lemma system_moves:
  assumes "client_system C m cl = (Inr cl', es)" "cl_session cl = Some s" "text_of (field m ''type'') = SYSTEM"
  shows "moves C (session_events m) cl (writes es) cl'"
proof -
  let ?t = "text_of (field m ''text'')" and ?e = "field m ''event''"
  consider (named) "startsWith ?t connected_as" | (joined) "\<not> startsWith ?t connected_as" "?e = VStr PEER_JOINED"
    | (left) "\<not> startsWith ?t connected_as" "?e \<noteq> VStr PEER_JOINED" "?e = VStr PEER_LEFT"
    | (other) "\<not> startsWith ?t connected_as" "?e \<noteq> VStr PEER_JOINED" "?e \<noteq> VStr PEER_LEFT" by blast
  then show ?thesis
  proof cases
    case named
    then have "session_events m = []" using assms(3) by (simp add: session_events_def)
    moreover have "cl_session cl' = Some s" "cl_world cl' = cl_world cl" "writes es = []"
      using assms(1,2) named by (auto simp: client_system_def onIdentityAssigned_def Let_def)
    ultimately show ?thesis using moves_nothing [OF assms(2)] by simp
  next
    case joined
    obtain x s' w' where run: "onPeerJoined C s (cl_world cl) = (x, s', w')" by (metis prod.exhaust)
    then obtain oc where oc: "x = Inr oc" using assms(1,2) joined by (cases x) (auto simp: client_system_def Let_def)
    have "cl_session cl' = Some s'" "cl_world cl' = w'" "writes es = map encode (oc_outgoing oc)"
      using assms(1,2) joined run oc by (auto simp: client_system_def Let_def)
    moreover have "session_events m = [PeerJoined]" using assms(3) joined by (simp add: session_events_def)
    ultimately show ?thesis by (intro movesI [OF assms(2)]) (simp_all add: run_session_def run oc)
  next
    case left
    obtain s' w' where run: "onPeerLeft s (cl_world cl) = (s', w')" by fastforce
    have "cl_session cl' = Some s'" "cl_world cl' = w'" "writes es = []"
      using assms(1,2) left run by (auto simp: client_system_def Let_def)
    moreover have "session_events m = [PeerLeft]" using assms(3) left by (simp add: session_events_def)
    ultimately show ?thesis by (intro movesI [OF assms(2)]) (simp_all add: run_session_def run)
  next
    case other
    then have "session_events m = []" using assms(3) by (simp add: session_events_def)
    moreover have "cl' = cl" "writes es = []" using assms(1) other by (auto simp: client_system_def Let_def)
    ultimately show ?thesis using moves_nothing [OF assms(2,2)] by simp
  qed
qed

lemma handshake_moves:
  assumes "client_handshake C m cl = (Inr cl', es)" "cl_session cl = Some s"
  shows "moves C [Received m] cl (writes es) cl'"
proof -
  obtain x s' w' where run: "handleMessage C m s (cl_world cl) = (x, s', w')" by (metis prod.exhaust)
  then obtain oc where oc: "x = Inr oc" using assms by (cases x) (auto simp: client_handshake_def)
  then obtain ls where ls: "describeHandshake C s' w' m oc = Inr ls"
    using assms run by (cases "describeHandshake C s' w' m oc") (auto simp: client_handshake_def Let_def)
  have "cl_session cl' = Some s'" "cl_world cl' = w'" "writes es = map encode (oc_outgoing oc)"
    using assms run oc ls by (auto simp: client_handshake_def Let_def)
  then show ?thesis by (intro movesI [OF assms(2)]) (simp_all add: run_session_def run oc)
qed

lemma message_moves:
  assumes "client_handleMessage C m cl = (Inr cl', es)" "cl_session cl = Some s"
  shows "moves C (session_events m) cl (writes es) cl'"
proof -
  let ?ty = "text_of (field m ''type'')"
  have differ: "SYSTEM \<notin> set HANDSHAKE_TYPES" "ERROR \<notin> set HANDSHAKE_TYPES" "CHAT \<notin> set HANDSHAKE_TYPES"
    "ERROR \<noteq> SYSTEM" "CHAT \<noteq> SYSTEM" by (simp_all add: HANDSHAKE_TYPES_def js_def)
  consider (system) "?ty = SYSTEM" | (handshake) "?ty \<in> set HANDSHAKE_TYPES" "?ty \<notin> {SYSTEM, ERROR, CHAT}"
    | (other) "?ty \<notin> set HANDSHAKE_TYPES" "?ty \<noteq> SYSTEM" using differ by (metis empty_iff insert_iff)
  then show ?thesis
  proof cases
    case system
    with assms system_moves show ?thesis by (simp add: client_handleMessage_def)
  next
    case handshake
    then have "session_events m = [Received m]" by (simp add: session_events_def)
    with assms handshake handshake_moves show ?thesis by (simp add: client_handleMessage_def)
  next
    case other
    then have "session_events m = []" by (simp add: session_events_def)
    moreover have "cl' = cl" "writes es = []"
      using assms(1) other by (auto simp: client_handleMessage_def Let_def split: if_splits sum.splits)
    ultimately show ?thesis using moves_nothing [OF assms(2,2)] by simp
  qed
qed

text \<open>The queue: the messages that are handled make up a beginning of it.\<close>

lemma drain_moves:
  assumes "drain C cl = (Inr cl', es)" "cl_session cl = Some s"
  shows "\<exists>ms. cl_queue cl = ms @ cl_queue cl' \<and> moves C (concat (map session_events ms)) cl (writes es) cl'"
  using assms
proof (induction "cl_queue cl" arbitrary: cl s es)
  case Nil
  then have "cl' = cl" "es = []" by (simp_all add: drain_idle)
  with moves_nothing [OF Nil.prems(2,2)] show ?case by simp
next
  case (Cons m ms)
  then have queue: "cl_queue cl = m # ms" by simp
  show ?case
  proof (cases "cl_generatingKeys cl")
    case True
    then have "cl' = cl" "es = []" using Cons.prems(1) by (simp_all add: drain_idle)
    with moves_nothing [OF Cons.prems(2,2)] show ?thesis by simp
  next
    case False
    let ?cl = "cl\<lparr>cl_queue := ms\<rparr>"
    obtain x es1 where x: "client_handleMessage C m ?cl = (x, es1)" by fastforce
    then obtain cl1 where cl1: "x = Inr cl1"
      using Cons.prems(1) drain_turn [OF queue False, of C] by (cases x) auto
    obtain r es2 where r: "drain C cl1 = (r, es2)" by fastforce
    have rest: "r = Inr cl'" "es = es1 @ es2"
      using Cons.prems(1) drain_turn [OF queue False, of C] x cl1 r by simp_all
    have one: "moves C (session_events m) cl (writes es1) cl1"
      using message_moves [OF x [unfolded cl1]] Cons.prems(2) moves_same(1) [of ?cl cl] by simp
    then obtain s1 where s1: "cl_session cl1 = Some s1" by (auto simp: moves_def)
    have keeps: "ms = cl_queue cl1" using handleMessage_keeps(1) [OF x [unfolded cl1]] by simp
    from Cons.hyps(1) [OF keeps r [unfolded rest] s1] obtain ms1 where
      "cl_queue cl1 = ms1 @ cl_queue cl'" "moves C (concat (map session_events ms1)) cl1 (writes es2) cl'" by blast
    with moves_trans [OF one this(2)] keeps show ?thesis
      by (intro exI [of _ "m # ms1"]) (simp add: queue rest(2))
  qed
qed

section \<open>One event\<close>

text \<open>What the process sends at an event on its own account: not the lines of its user.\<close>

definition replies :: "client_event \<Rightarrow> client_effect list \<Rightarrow> jsstring list" where
  "replies ev es = (case ev of UserLine line \<Rightarrow> [] | _ \<Rightarrow> writes es)"

text \<open>The messages that enter the queue.\<close>

definition arrived :: "'r node_crypto \<Rightarrow> client_event \<Rightarrow> 'r client \<Rightarrow> jsval list" where
  "arrived C ev cl =
     (case ev of
        DataChunk chunk \<Rightarrow>
          (case lb_append (cl_buffer cl) (utf8_decode chunk) of
             (Inl e, lb) \<Rightarrow> []
           | (Inr ls, lb) \<Rightarrow> (case accept_lines C ls of Inl e \<Rightarrow> [] | Inr ms \<Rightarrow> ms))
      | _ \<Rightarrow> [])"

text \<open>Two clients that differ in what the session does not see.\<close>

definition same_session :: "'r client \<Rightarrow> 'r client \<Rightarrow> bool" where
  "same_session cl cl' \<longleftrightarrow> cl_session cl' = cl_session cl \<and> cl_world cl' = cl_world cl \<and> cl_queue cl' = cl_queue cl"

lemma shutdown_quiet: "client_shutdown t cl = (cl', es) \<Longrightarrow> same_session cl cl' \<and> writes es = []"
  by (auto simp: client_shutdown_def same_session_def split: if_splits)

text \<open>An event that leaves the session alone.\<close>

definition rests :: "client_event \<Rightarrow> 'r client \<Rightarrow> 'r client_result \<Rightarrow> bool" where
  "rests ev cl r \<longleftrightarrow> (\<forall>cl' es. r = (Inr cl', es) \<longrightarrow> same_session cl cl' \<and> replies ev es = [])"

lemma line_rests: "rests (UserLine line) cl (client_on_line C line cl)"
proof -
  have "same_session cl cl'" if "runCommand C t cl = (Inr cl', es)" for t cl' es
    using that shutdown_quiet [of _ cl]
    by (auto simp: runCommand_def same_session_def split: if_splits sum.splits prod.splits)
  then show ?thesis
    by (auto simp: rests_def replies_def same_session_def client_on_line_def Let_def split: if_splits option.splits)
qed

lemma other_rests:
  assumes "\<forall>chunk. ev \<noteq> DataChunk chunk" "ev = KeysDue \<longrightarrow> cl_keyTimer cl = None"
  shows "rests ev cl (client_step C ev cl) \<and> arrived C ev cl = []"
proof -
  have down: "rests ev cl (let (cl1, es) = client_shutdown t cl in (Inr cl1, es))" for t
    using shutdown_quiet [of t cl] by (cases ev) (auto simp: rests_def replies_def split: prod.splits)
  show ?thesis
    using assms down line_rests [of _ cl C]
    by (cases ev) (auto simp: rests_def replies_def same_session_def arrived_def)
qed

text \<open>A piece of the stream: too long, or some messages for the queue.\<close>

lemma data_cases:
  assumes "client_step C (DataChunk chunk) cl = (Inr cl', es)"
  obtains (closing) "same_session cl cl'" "writes es = []" "arrived C (DataChunk chunk) cl = []"
  | (lines) lb where "drain C (cl\<lparr>cl_buffer := lb, cl_queue := cl_queue cl @ arrived C (DataChunk chunk) cl\<rparr>) = (Inr cl', es)"
proof -
  obtain x lb where app: "lb_append (cl_buffer cl) (utf8_decode chunk) = (x, lb)" by fastforce
  show thesis
  proof (cases x)
    case (Inl e)
    obtain cl2 es2 where down: "client_shutdown (js ''Disconnected.'') (cl\<lparr>cl_buffer := lb\<rparr>) = (cl2, es2)" by fastforce
    with assms app Inl have "cl' = cl2" "writes es = writes es2" by (auto simp: client_on_data_def Let_def)
    with shutdown_quiet [OF down] closing app Inl show ?thesis by (simp add: arrived_def same_session_def)
  next
    case (Inr ls)
    with assms app lines show ?thesis by (cases "accept_lines C ls") (auto simp: client_on_data_def arrived_def)
  qed
qed

lemma step_moves:
  assumes "client_step C ev cl = (Inr cl', es)" "cl_session cl = Some s" "ev = KeysDue \<longrightarrow> cl_keyTimer cl = None"
  shows "\<exists>ms. cl_queue cl @ arrived C ev cl = ms @ cl_queue cl'
    \<and> moves C (concat (map session_events ms)) cl (replies ev es) cl'"
proof (cases "\<exists>chunk. ev = DataChunk chunk")
  case False
  with other_rests [of ev cl C] assms have "same_session cl cl'" "replies ev es = []" "arrived C ev cl = []"
    by (simp_all add: rests_def)
  with moves_nothing [OF assms(2)] assms(2) show ?thesis by (simp add: same_session_def)
next
  case True
  then obtain chunk where ev: "ev = DataChunk chunk" by blast
  then have replies: "replies ev es = writes es" by (simp add: replies_def)
  from assms(1) [unfolded ev] show ?thesis
  proof (cases rule: data_cases)
    case closing
    with moves_nothing [OF assms(2), of cl' C] assms(2) replies ev show ?thesis by (simp add: same_session_def)
  next
    case (lines lb)
    let ?cl = "cl\<lparr>cl_buffer := lb, cl_queue := cl_queue cl @ arrived C ev cl\<rparr>"
    from drain_moves [OF lines] assms(2) ev obtain ms where
      "cl_queue ?cl = ms @ cl_queue cl'" "moves C (concat (map session_events ms)) ?cl (writes es) cl'" by auto
    moreover note moves_same(1) [of ?cl cl]
    ultimately show ?thesis using replies by (intro exI [of _ ms]) simp
  qed
qed

text \<open>Without a session nothing is sent, and there is none until the keys are due.\<close>

definition silent :: "'r client \<Rightarrow> 'r client_result \<Rightarrow> bool" where
  "silent cl r \<longleftrightarrow> (\<forall>cl' es. r = (Inr cl', es) \<longrightarrow>
     cl_session cl' = None \<and> cl_world cl' = cl_world cl \<and> writes es = [] \<and> (\<exists>ms. cl_queue cl = ms @ cl_queue cl'))"

lemma message_silent:
  assumes "cl_session cl = None"
  shows "silent cl (client_handleMessage C m cl)"
proof -
  have "silent cl (client_system C m cl)"
    using assms by (auto simp: silent_def client_system_def onIdentityAssigned_def Let_def split: if_splits)
  then show ?thesis
    using assms by (auto simp: silent_def client_handleMessage_def client_handshake_def Let_def split: if_splits sum.splits)
qed

lemma drain_silent:
  assumes "cl_session cl = None"
  shows "silent cl (drain C cl)"
  using assms
proof (induction "cl_queue cl" arbitrary: cl)
  case Nil
  then show ?case by (simp add: drain_idle silent_def)
next
  case (Cons m ms)
  then have queue: "cl_queue cl = m # ms" by simp
  show ?case
  proof (cases "cl_generatingKeys cl")
    case True
    with Cons.prems show ?thesis by (simp add: drain_idle silent_def)
  next
    case False
    obtain x es1 where x: "client_handleMessage C m (cl\<lparr>cl_queue := ms\<rparr>) = (x, es1)" by fastforce
    show ?thesis
    proof (cases x)
      case (Inl e)
      with drain_turn [OF queue False, of C] x show ?thesis by (simp add: silent_def)
    next
      case (Inr cl1)
      have one: "cl_session cl1 = None" "cl_world cl1 = cl_world cl" "writes es1 = []"
        using message_silent [of "cl\<lparr>cl_queue := ms\<rparr>" C m] Cons.prems x Inr by (simp_all add: silent_def)
      have keeps: "ms = cl_queue cl1" using handleMessage_keeps(1) [OF x [unfolded Inr]] by simp
      obtain r es2 where r: "drain C cl1 = (r, es2)" by fastforce
      then have rest: "silent cl1 (r, es2)" using Cons.hyps(1) [OF keeps one(1)] by simp
      have all: "drain C cl = (r, es1 @ es2)" using drain_turn [OF queue False, of C] x Inr r by simp
      have "cl_session cl2 = None \<and> cl_world cl2 = cl_world cl \<and> writes es2 = [] \<and> (\<exists>ms0. cl_queue cl = ms0 @ cl_queue cl2)" if cl2: "r = Inr cl2" for cl2
      proof -
        obtain ms0 where "cl_session cl2 = None" "cl_world cl2 = cl_world cl" "writes es2 = []" "ms = ms0 @ cl_queue cl2"
          using rest cl2 keeps one(2) by (auto simp: silent_def)
        then show ?thesis by (intro conjI exI [of _ "m # ms0"]) (simp_all add: queue)
      qed
      with all one(3) show ?thesis by (auto simp: silent_def)
    qed
  qed
qed

lemma step_silent:
  assumes "client_step C ev cl = (Inr cl', es)" "cl_session cl = None" "ev = KeysDue \<longrightarrow> cl_keyTimer cl = None"
  shows "cl_session cl' = None \<and> cl_world cl' = cl_world cl \<and> (\<exists>ms. cl_queue cl @ arrived C ev cl = ms @ cl_queue cl')"
proof (cases "\<exists>chunk. ev = DataChunk chunk")
  case False
  with other_rests [of ev cl C] assms show ?thesis by (simp add: rests_def same_session_def)
next
  case True
  then obtain chunk where ev: "ev = DataChunk chunk" by blast
  from assms(1) [unfolded this] show ?thesis
  proof (cases rule: data_cases)
    case (lines lb)
    with drain_silent [of "cl\<lparr>cl_buffer := lb, cl_queue := cl_queue cl @ arrived C ev cl\<rparr>" C] assms(2) ev show ?thesis
      by (simp add: silent_def)
  qed (use assms(2) ev in \<open>simp add: same_session_def\<close>)
qed

text \<open>The keys are due: a new session, which hears the messages that waited.\<close>

lemma keys_move:
  assumes "client_step C KeysDue cl = (Inr cl', es)" "cl_keyTimer cl = Some selfId"
  shows "\<exists>i r s0 w0 ms. createIdentity C (w_entropy (cl_world cl)) = (i, r) \<and> new_PeerSession selfId i = Inr s0
    \<and> w0 = (cl_world cl)\<lparr>w_entropy := r\<rparr> \<and> cl_queue cl = ms @ cl_queue cl'
    \<and> moves C (concat (map session_events ms)) (cl\<lparr>cl_session := Some s0, cl_world := w0\<rparr>) (replies KeysDue es) cl'"
proof -
  obtain i r where i: "createIdentity C (w_entropy (cl_world cl)) = (i, r)" by fastforce
  obtain s0 where s0: "new_PeerSession selfId i = Inr s0"
    using assms i by (cases "new_PeerSession selfId i") (simp_all add: client_on_keys_def)
  let ?w0 = "(cl_world cl)\<lparr>w_entropy := r\<rparr>"
  define cl1 where "cl1 = cl\<lparr>cl_identity := Some i, cl_session := Some s0, cl_generatingKeys := False,
      cl_keyTimer := None, cl_world := ?w0\<rparr>"
  obtain x es1 where x: "drain C cl1 = (x, es1)" by fastforce
  from keys_drained [OF i s0 cl1_def x] assms have es: "x = Inr cl'" "writes es = writes es1" by auto
  have "cl_session cl1 = Some s0" by (simp add: cl1_def)
  from drain_moves [OF x [unfolded es(1)] this] obtain ms where
    "cl_queue cl1 = ms @ cl_queue cl'" "moves C (concat (map session_events ms)) cl1 (writes es1) cl'" by blast
  moreover note moves_same(1) [of cl1 "cl\<lparr>cl_session := Some s0, cl_world := ?w0\<rparr>"]
  ultimately show ?thesis using i s0 es(2)
    by (intro exI [of _ i] exI [of _ r] exI [of _ s0] exI [of _ ?w0] exI [of _ ms])
      (simp add: cl1_def replies_def)
qed

section \<open>Runs\<close>

text \<open>What is observed at each event of a run, one after the other.\<close>

fun observed ::
  "(client_event \<Rightarrow> 'r client \<Rightarrow> client_effect list \<Rightarrow> 'a list) \<Rightarrow> 'r node_crypto \<Rightarrow> client_event list \<Rightarrow> 'r client \<Rightarrow> 'a list" where
  "observed f C [] cl = []"
| "observed f C (ev # evs) cl =
     (case client_step C ev cl of (Inl e, es) \<Rightarrow> [] | (Inr cl', es) \<Rightarrow> f ev cl es @ observed f C evs cl')"

definition run_replies :: "'r node_crypto \<Rightarrow> client_event list \<Rightarrow> 'r client \<Rightarrow> jsstring list" where
  "run_replies = observed (\<lambda>ev cl es. replies ev es)"

definition run_arrived :: "'r node_crypto \<Rightarrow> client_event list \<Rightarrow> 'r client \<Rightarrow> jsval list" where
  "run_arrived C = observed (\<lambda>ev cl es. arrived C ev cl) C"

text \<open>A run in two parts.\<close>

lemma client_run_split:
  assumes "client_run C (evs @ evs') cl = (Some cl', es)"
  obtains cl1 es1 es2 where "client_run C evs cl = (Some cl1, es1)" "client_run C evs' cl1 = (Some cl', es2)"
    "run_replies C (evs @ evs') cl = run_replies C evs cl @ run_replies C evs' cl1"
    "run_arrived C (evs @ evs') cl = run_arrived C evs cl @ run_arrived C evs' cl1"
proof -
  have "\<exists>cl1 es1 es2. client_run C evs cl = (Some cl1, es1) \<and> client_run C evs' cl1 = (Some cl', es2)
    \<and> run_replies C (evs @ evs') cl = run_replies C evs cl @ run_replies C evs' cl1
    \<and> run_arrived C (evs @ evs') cl = run_arrived C evs cl @ run_arrived C evs' cl1"
    using assms unfolding run_replies_def run_arrived_def
  proof (induction evs arbitrary: cl es)
    case (Cons ev evs)
    obtain x es0 where x: "client_step C ev cl = (x, es0)" by fastforce
    obtain r es1 where "client_run C (evs @ evs') (projr x) = (r, es1)" by fastforce
    with Cons.prems x obtain cl0 where cl0: "x = Inr cl0" "\<not> list_ex is_exit es0" "client_run C (evs @ evs') cl0 = (Some cl', es1)"
      by (cases x) (auto split: if_splits)
    from Cons.IH [OF this(3)] cl0 x show ?case by auto
  qed simp
  with that show thesis by blast
qed

text \<open>
  The current session is the one created when the keys were last due, before \<open>evs2\<close>; since
  then it has handled the messages \<open>ms\<close>, after \<open>ms0\<close> which came before it. No message is lost,
  repeated or taken out of order.
\<close>

definition session_story ::
  "'r node_crypto \<Rightarrow> 'r client \<Rightarrow> client_event list \<Rightarrow> 'r client \<Rightarrow> client_event list \<Rightarrow> 'r client
    \<Rightarrow> peer_session \<Rightarrow> 'r world \<Rightarrow> jsval list \<Rightarrow> jsval list \<Rightarrow> bool" where
  "session_story C start evs1 cl1 evs2 cl s0 w0 ms0 ms \<longleftrightarrow> (\<exists>es1 selfId i r.
     client_run C evs1 start = (Some cl1, es1) \<and> cl_keyTimer cl1 = Some selfId
     \<and> createIdentity C (w_entropy (cl_world cl1)) = (i, r) \<and> w0 = (cl_world cl1)\<lparr>w_entropy := r\<rparr>
     \<and> new_PeerSession selfId i = Inr s0
     \<and> run_arrived C (evs1 @ KeysDue # evs2) start = ms0 @ ms @ cl_queue cl
     \<and> moves C (concat (map session_events ms)) (cl1\<lparr>cl_session := Some s0, cl_world := w0\<rparr>)
         (run_replies C (KeysDue # evs2) cl1) cl)"

lemma client_has_story:
  assumes "cl_session start = None" "cl_queue start = []" "client_run C evs start = (Some cl, es)"
  shows "(\<exists>ms0. run_arrived C evs start = ms0 @ cl_queue cl) \<and>
    (cl_session cl \<noteq> None \<longrightarrow> (\<exists>evs1 cl1 evs2 s0 w0 ms0 ms. evs = evs1 @ KeysDue # evs2
       \<and> session_story C start evs1 cl1 evs2 cl s0 w0 ms0 ms))"
  using assms(3)
proof (induction evs arbitrary: cl es rule: rev_induct)
  case Nil
  with assms(1,2) show ?case by (simp add: run_arrived_def)
next
  case (snoc ev evs)
  obtain cl0 es0 esb where run: "client_run C evs start = (Some cl0, es0)" "client_run C [ev] cl0 = (Some cl, esb)"
    and arr: "run_arrived C (evs @ [ev]) start = run_arrived C evs start @ run_arrived C [ev] cl0"
    by (rule client_run_split [OF snoc.prems]) blast
  then obtain es1 where step: "client_step C ev cl0 = (Inr cl, es1)" by (auto split: prod.splits sum.splits if_splits)
  then have new: "run_arrived C [ev] cl0 = arrived C ev cl0" by (simp add: run_arrived_def)
  note IH = snoc.IH [OF run(1)]
  then obtain msa where msa: "run_arrived C evs start = msa @ cl_queue cl0" by blast
  show ?case
  proof (cases "ev = KeysDue \<and> cl_keyTimer cl0 \<noteq> None")
    case True
    then obtain selfId where timer: "cl_keyTimer cl0 = Some selfId" and keys: "client_step C KeysDue cl0 = (Inr cl, es1)"
      using step by auto
    have "run_replies C (KeysDue # []) cl0 = replies KeysDue es1" using keys by (simp add: run_replies_def)
    moreover have all: "run_arrived C (evs @ [ev]) start = msa @ cl_queue cl0"
      using arr new msa True by (simp add: arrived_def)
    moreover from keys_move [OF keys timer] obtain i r s0 w0 ms where
      story: "createIdentity C (w_entropy (cl_world cl0)) = (i, r)" "new_PeerSession selfId i = Inr s0"
        "w0 = (cl_world cl0)\<lparr>w_entropy := r\<rparr>" "cl_queue cl0 = ms @ cl_queue cl"
        "moves C (concat (map session_events ms)) (cl0\<lparr>cl_session := Some s0, cl_world := w0\<rparr>) (replies KeysDue es1) cl"
      by blast
    ultimately have "session_story C start evs cl0 [] cl s0 w0 msa ms"
      using run(1) timer True by (simp add: session_story_def)
    moreover have "evs @ [ev] = evs @ KeysDue # []" using True by simp
    ultimately have "\<exists>evs1 cl1 evs2 s0 w0 ms0 ms. evs @ [ev] = evs1 @ KeysDue # evs2
       \<and> session_story C start evs1 cl1 evs2 cl s0 w0 ms0 ms" by blast
    with all story(4) show ?thesis by (intro conjI exI [of _ "msa @ ms"]) simp_all
  next
    case False
    then have timer: "ev = KeysDue \<longrightarrow> cl_keyTimer cl0 = None" by simp
    show ?thesis
    proof (cases "cl_session cl0")
      case None
      from step_silent [OF step None timer] obtain ms where
        "cl_session cl = None" "cl_queue cl0 @ arrived C ev cl0 = ms @ cl_queue cl" by blast
      then show ?thesis using arr new msa by (intro conjI exI [of _ "msa @ ms"]) simp_all
    next
      case (Some s1)
      from step_moves [OF step Some timer] obtain ms' where
        queue: "cl_queue cl0 @ arrived C ev cl0 = ms' @ cl_queue cl"
        and mv': "moves C (concat (map session_events ms')) cl0 (replies ev es1) cl" by blast
      from IH Some obtain evs1 cl1 evs2 s0 w0 ms0 ms where evs: "evs = evs1 @ KeysDue # evs2"
        and story: "session_story C start evs1 cl1 evs2 cl0 s0 w0 ms0 ms" by blast
      have "client_run C (evs1 @ KeysDue # evs2) start = (Some cl0, es0)" using run(1) evs by simp
      then obtain cl1' esc esd where "client_run C evs1 start = (Some cl1', esc)" "client_run C (KeysDue # evs2) cl1' = (Some cl0, esd)"
        by (rule client_run_split)
      with story have later: "client_run C (KeysDue # evs2) cl1 = (Some cl0, esd)" by (auto simp: session_story_def)
      have "client_run C (evs1 @ (KeysDue # evs2 @ [ev])) start = (Some cl, es)" using snoc.prems evs by simp
      then obtain cl1'' ese esf where "client_run C evs1 start = (Some cl1'', ese)" "client_run C (KeysDue # evs2 @ [ev]) cl1'' = (Some cl, esf)"
        by (rule client_run_split)
      with story have "client_run C ((KeysDue # evs2) @ [ev]) cl1 = (Some cl, esf)" by (auto simp: session_story_def)
      then obtain cl0' esg esh where "client_run C (KeysDue # evs2) cl1 = (Some cl0', esg)"
        "run_replies C ((KeysDue # evs2) @ [ev]) cl1 = run_replies C (KeysDue # evs2) cl1 @ run_replies C [ev] cl0'"
        by (rule client_run_split) blast
      with later step have rep: "run_replies C (KeysDue # evs2 @ [ev]) cl1 = run_replies C (KeysDue # evs2) cl1 @ replies ev es1"
        by (simp add: run_replies_def)
      have old: "run_arrived C evs start = ms0 @ ms @ cl_queue cl0" using story evs by (auto simp: session_story_def)
      have all: "run_arrived C (evs @ [ev]) start = ms0 @ (ms @ ms') @ cl_queue cl"
        unfolding arr new old by (simp add: queue)
      then have "run_arrived C (evs1 @ KeysDue # evs2 @ [ev]) start = ms0 @ (ms @ ms') @ cl_queue cl" using evs by simp
      with story moves_trans [of C "concat (map session_events ms)" _ _ cl0, OF _ mv'] rep
      have "session_story C start evs1 cl1 (evs2 @ [ev]) cl s0 w0 ms0 (ms @ ms')"
        unfolding session_story_def by fastforce
      moreover have "evs @ [ev] = evs1 @ KeysDue # evs2 @ [ev]" using evs by simp
      ultimately have "\<exists>evs1 cl1 evs2 s0 w0 ms0 ms. evs @ [ev] = evs1 @ KeysDue # evs2
         \<and> session_story C start evs1 cl1 evs2 cl s0 w0 ms0 ms" by blast
      with all show ?thesis by (intro conjI exI [of _ "ms0 @ ms @ ms'"]) simp_all
    qed
  qed
qed

text \<open>
  Property C8: a client process is a shell around \<open>PeerSession\<close>. Take any run of it, with
  any data, lines, timers and signals in any order, at whose end it has a session. Then the
  messages that arrived are, in order, those before this session (\<open>ms0\<close>), those it handled
  (\<open>ms\<close>) and those in the queue; the session and the buffers are just what the class makes of
  the methods that \<open>ms\<close> stand for (\<open>session_events\<close>); and since the keys were made the process has
  sent exactly what the class returned, apart from the lines its user typed.
\<close>

theorem client_runs_session:
  assumes "client_run C evs (fst (client_start tty server w)) = (Some cl, es)" "cl_session cl = Some s"
  shows "\<exists>evs1 evs2 cl1 es1 selfId i r s0 w0 ms0 ms. evs = evs1 @ KeysDue # evs2
    \<and> client_run C evs1 (fst (client_start tty server w)) = (Some cl1, es1) \<and> cl_keyTimer cl1 = Some selfId
    \<and> createIdentity C (w_entropy (cl_world cl1)) = (i, r) \<and> w0 = (cl_world cl1)\<lparr>w_entropy := r\<rparr>
    \<and> new_PeerSession selfId i = Inr s0
    \<and> run_arrived C evs (fst (client_start tty server w)) = ms0 @ ms @ cl_queue cl
    \<and> run_session C (concat (map session_events ms)) (s0, w0) = (s, cl_world cl)
    \<and> run_replies C (KeysDue # evs2) cl1 = map encode (all_sends C (concat (map session_events ms)) (s0, w0))"
proof -
  have "cl_session (fst (client_start tty server w)) = None" "cl_queue (fst (client_start tty server w)) = []"
    by (simp_all add: client_start_def)
  from client_has_story [OF this assms(1)] assms(2) obtain evs1 cl1 evs2 s0 w0 ms0 ms where
    "evs = evs1 @ KeysDue # evs2" "session_story C (fst (client_start tty server w)) evs1 cl1 evs2 cl s0 w0 ms0 ms" by blast
  with assms(2) show ?thesis unfolding session_story_def moves_def by (simp del: client_run.simps) blast
qed

text \<open>A client that has read its name and made its keys.\<close>

lemma sample_keyed:
  "\<exists>cl es s. client_run sample_crypto [DataChunk (utf8_encode (encode (assigned CLIENT_A))), KeysDue] sample_start = (Some cl, es)
    \<and> cl_session cl = Some s"
proof -
  let ?w = "cl_world sample_start"
  obtain i r where i: "createIdentity sample_crypto (w_entropy ?w) = (i, r)" by fastforce
  have "\<exists>s. new_PeerSession CLIENT_A i = Inr s"
    by (auto simp: new_PeerSession_def PEER_OF_def table_lookup_def CLIENT_A_def)
  then obtain s where s: "new_PeerSession CLIENT_A i = Inr s" by blast
  have un: "unassigned sample_start" unfolding sample_start_def by (rule started_unassigned)
  let ?L = "\<lambda>n :: nat. live CLIENT_A False s (?w\<lparr>w_entropy := r\<rparr>) sample_start"
  have "client_plan sample_crypto [] ?L [] (\<lambda>n. 0)"
    using live_ready [OF un] by (simp add: client_plan_def monoI)
  from keys_arrive [OF this _ un i s, of 0] obtain es where
    es: "client_step sample_crypto KeysDue (named CLIENT_A [] sample_start) = (Inr (?L 0), es)" by auto
  then have "client_on_keys sample_crypto CLIENT_A (named CLIENT_A [] sample_start) = (Inr (?L 0), es)" by (simp add: named_def)
  from on_keys_no_end [OF this] have quiet: "\<not> list_ex is_exit es" by (auto simp: no_end_def list_ex_iff)
  have "ready sample_start" using un by (simp add: unassigned_def)
  from assigned_received [OF this, of sample_crypto First] obtain es0 where
    "client_step sample_crypto (DataChunk (utf8_encode (encode (assigned CLIENT_A)))) sample_start = (Inr (named CLIENT_A [] sample_start), es0)"
    "\<not> list_ex is_exit es0" by auto
  with es quiet show ?thesis by (auto simp del: client_step.simps simp: live_def)
qed

theorem client_runs_session_witness:
  "\<exists>cl es s s0 w0 ms0 ms.
    client_run sample_crypto [DataChunk (utf8_encode (encode (assigned CLIENT_A))), KeysDue] sample_start = (Some cl, es)
    \<and> cl_session cl = Some s
    \<and> run_arrived sample_crypto [DataChunk (utf8_encode (encode (assigned CLIENT_A))), KeysDue] sample_start = ms0 @ ms @ cl_queue cl
    \<and> run_session sample_crypto (concat (map session_events ms)) (s0, w0) = (s, cl_world cl)"
proof -
  obtain cl es s where run: "client_run sample_crypto [DataChunk (utf8_encode (encode (assigned CLIENT_A))), KeysDue] sample_start = (Some cl, es)"
    "cl_session cl = Some s" using sample_keyed by blast
  from client_runs_session [OF run [unfolded sample_start_def]] obtain s0 w0 ms0 ms where
    "run_arrived sample_crypto [DataChunk (utf8_encode (encode (assigned CLIENT_A))), KeysDue] sample_start = ms0 @ ms @ cl_queue cl"
    "run_session sample_crypto (concat (map session_events ms)) (s0, w0) = (s, cl_world cl)"
    unfolding sample_start_def by blast
  with run show ?thesis by blast
qed

end
