(* ===== verification/ServiceAgreement.thy ===== *)
theory ServiceAgreement
  imports Embedding ClientHistory
begin

text \<open>
  Agreement in the service. Every session that a process has is the result of a history of
  \<open>PeerSession\<close> from its creation, and all that it sent in this history was written by its
  process. So two clients that show the same session ID have the same key, unless a session
  ID was used for two different exchanges.
\<close>

section \<open>What a process wrote\<close>

lemma replied: "t \<in> set (replies ev es) \<Longrightarrow> SocketWrite t \<in> set es"
  by (cases ev) (auto simp: replies_def writes_iff)

text \<open>
  The session \<open>s\<close> of the client \<open>cl\<close> is the result of a history from its creation in which all
  that it sent is among \<open>W\<close>.
\<close>

definition grown :: "'r node_crypto \<Rightarrow> sources \<Rightarrow> 'r client \<Rightarrow> peer_session \<Rightarrow> bool" where
  "grown C W cl s \<longleftrightarrow> (\<exists>s0 w0 sevs. fresh_session s0 w0 \<and> ps_selfId s0 = ps_selfId s
     \<and> run_session C sevs (s0, w0) = (s, cl_world cl)
     \<and> (\<forall>d \<in> set (all_sends C sevs (s0, w0)). field d ''type'' \<noteq> VStr CHAT \<longrightarrow> W (ps_selfId s) d))"

lemma grown_more:
  assumes "grown C W cl s" "W \<le> W'"
  shows "grown C W' cl s"
proof -
  have "W slot d \<Longrightarrow> W' slot d" for slot d using assms(2) by (auto simp: le_fun_def)
  with assms(1) show ?thesis unfolding grown_def by blast
qed

text \<open>Some more history, of which all that is sent is among \<open>W\<close>.\<close>

lemma grown_moves:
  assumes mv: "moves C sevs cl (replies ev es) cl'" and s: "cl_session cl' = Some s"
    and old: "\<And>s1. cl_session cl = Some s1 \<Longrightarrow> grown C W cl s1 \<and> ps_selfId s1 = slot"
    and total: "module_total C"
    and new: "\<And>d. SocketWrite (encode d) \<in> set es \<Longrightarrow> field d ''type'' \<noteq> VStr CHAT \<Longrightarrow> W slot d"
  shows "grown C W cl' s \<and> ps_selfId s = slot"
proof -
  obtain s1 where s1: "cl_session cl = Some s1" "run_session C sevs (s1, cl_world cl) = (s, cl_world cl')"
    "replies ev es = map encode (all_sends C sevs (s1, cl_world cl))" using mv s by (auto simp: moves_def)
  from old [OF s1(1)] obtain s0 w0 sevs0 where h: "fresh_session s0 w0" "ps_selfId s0 = slot"
    "run_session C sevs0 (s0, w0) = (s1, cl_world cl)"
    "\<forall>d \<in> set (all_sends C sevs0 (s0, w0)). field d ''type'' \<noteq> VStr CHAT \<longrightarrow> W slot d"
    by (auto simp: grown_def)
  have run: "run_session C (sevs0 @ sevs) (s0, w0) = (s, cl_world cl')"
    using h(3) s1(2) by (simp add: run_session_def)
  have self: "ps_selfId s = slot"
    using run_session_justified [OF total h(1) run] h(2) by (simp add: same_client_def)
  have "W slot d" if d: "d \<in> set (all_sends C sevs (s1, cl_world cl))" "field d ''type'' \<noteq> VStr CHAT" for d
  proof (rule new [OF _ d(2)])
    have "encode d \<in> set (replies ev es)" using d(1) s1(3) by simp
    then show "SocketWrite (encode d) \<in> set es" by (rule replied)
  qed
  with h run self show ?thesis unfolding grown_def by (fastforce simp: all_sends_append)
qed

text \<open>A session that has just been created.\<close>

lemma grown_created:
  assumes "fresh_session s w" "cl_session cl = Some s" "cl_world cl = w"
  shows "grown C W cl s"
  unfolding grown_def using assms by (intro exI [of _ s] exI [of _ w] exI [of _ "[]"]) (simp add: run_session_def)

section \<open>One event\<close>

text \<open>The client process \<open>k\<close> after an event that is not one of its own is what it was.\<close>

lemma others_unchanged:
  assumes "service_do C ev se = Inr se'" "\<forall>cev. client_part ev \<noteq> Some (k, cev)"
  shows "se_client se' k = se_client se k"
proof -
  have server: "se_client se2 = se_client se1" if "at_server C e se1 = Inr se2" for e and se1 se2 :: "'a service"
    using that by (auto simp: at_server_def server_effect_elsewhere split: prod.splits sum.splits)
  have client: "se_client se2 k = se_client se1 k" if "at_client C j e se1 = Inr se2" "j \<noteq> k" for j e and se1 se2 :: "'a service"
    using that by (auto simp: at_client_def client_effect_elsewhere split: option.splits prod.splits sum.splits)
  show ?thesis using assms
  proof (cases ev)
    case (AtServer e)
    with assms(1) server show ?thesis by simp
  next
    case (Upward j piece)
    with assms(1) server show ?thesis by fastforce
  next
    case (Downward j piece)
    with assms client show ?thesis by fastforce
  next
    case (AtClient j e)
    with assms client show ?thesis by simp
  qed
qed

text \<open>At an event of its own it makes the step, unless it exits.\<close>

lemma own_step:
  assumes "service_do C ev se = Inr se'" "client_part ev = Some (k, cev)" "se_client se' k = Some cl'"
  obtains cl es where "se_client se k = Some cl" "client_step C cev cl = (Inr cl', es)"
proof -
  have one: "\<exists>cl es. se_client se1 k = Some cl \<and> client_step C cev cl = (Inr cl', es)"
    if run: "at_client C k cev se1 = Inr se'" for se1
  proof (cases "se_client se1 k")
    case None
    with run assms(3) show ?thesis by (simp add: at_client_def)
  next
    case (Some cl)
    obtain x es where x: "client_step C cev cl = (x, es)" by fastforce
    with run Some obtain cl1 where cl1: "x = Inr cl1" by (cases x) (simp_all add: at_client_def)
    with run Some x have "se' = fold (client_effect_at k) es (se1\<lparr>se_client := (se_client se1)(k := Some cl1)\<rparr>)"
      by (simp add: at_client_def)
    with client_effect_client [of k es "se1\<lparr>se_client := (se_client se1)(k := Some cl1)\<rparr>"] assms(3)
    have "cl1 = cl'" by simp
    with Some x cl1 show ?thesis by blast
  qed
  have "\<exists>cl es. se_client se k = Some cl \<and> client_step C cev cl = (Inr cl', es)"
  proof (cases ev)
    case (Downward j piece)
    with assms(1,2) have "at_client C k cev (se\<lparr>se_down := (se_down se)(k := drop (length piece) (se_down se k))\<rparr>) = Inr se'" by simp
    from one [OF this] show ?thesis by simp
  qed (use assms(1,2) one in auto)
  with that show thesis by blast
qed

text \<open>A client without a session has made no key.\<close>

definition grown_client :: "'r node_crypto \<Rightarrow> sources \<Rightarrow> 'r client \<Rightarrow> bool" where
  "grown_client C W cl \<longleftrightarrow> (case cl_session cl of None \<Rightarrow> w_heap (cl_world cl) = [] | Some s \<Rightarrow> grown C W cl s)"

lemma grown_client_more: "grown_client C W cl \<Longrightarrow> W \<le> W' \<Longrightarrow> grown_client C W' cl"
  by (auto simp: grown_client_def grown_more split: option.splits)

text \<open>The clients of the service after one more event.\<close>

lemma client_grows:
  assumes C: "honest_module C" and inv: "service_inv C W0 se" and W: "W0 \<le> W"
    and rec: "records C W se ev" and run: "service_do C ev se = Inr se'"
    and old: "\<And>k cl. se_client se k = Some cl \<Longrightarrow> grown_client C W0 cl"
    and cl: "se_client se' k = Some cl'"
  shows "grown_client C W cl'"
proof (cases "\<exists>cev. client_part ev = Some (k, cev)")
  case False
  then have "se_client se k = Some cl'" using others_unchanged [OF run] cl by simp
  from grown_client_more [OF old [OF this] W] show ?thesis .
next
  case True
  then obtain cev where part: "client_part ev = Some (k, cev)" by blast
  from own_step [OF run part cl] obtain cl0 es where
    cl0: "se_client se k = Some cl0" and step: "client_step C cev cl0 = (Inr cl', es)" .
  have total: "module_total C" using C by (simp add: honest_module_def)
  note before = grown_client_more [OF old [OF cl0] W]
  show ?thesis
  proof (cases "cl_session cl0 = None \<and> (cev = KeysDue \<longrightarrow> cl_keyTimer cl0 = None)")
    case True
    with step_silent [OF step] before show ?thesis by (simp add: grown_client_def)
  next
    case False
    then have some: "cl_session cl0 \<noteq> None \<or> cl_keyTimer cl0 \<noteq> None" by auto
    from has_slot [OF inv cl0 some] obtain slot where
      slot: "slot_at (se_server se) k = Some slot" "tuned C W0 slot cl0" by blast
    have new: "W slot d" if "SocketWrite (encode d) \<in> set es" "field d ''type'' \<noteq> VStr CHAT" for d
      using rec part cl0 step slot(1) that unfolding records_def recorded_def by blast
    show ?thesis
    proof (cases "cl_session cl0")
      case (Some s)
      note sess = tuned_session [OF slot(2) Some]
      from step_moves [OF step Some] sess(4) obtain ms where
        mv: "moves C (concat (map session_events ms)) cl0 (replies cev es) cl'" by blast
      have "grown C W cl0 s1 \<and> ps_selfId s1 = slot" if "cl_session cl0 = Some s1" for s1
        using that Some sess(2) before by (simp add: grown_client_def)
      from grown_moves [OF mv _ this total new] show ?thesis using mv by (auto simp: grown_client_def moves_def)
    next
      case None
      with some slot(2) have timer: "cl_keyTimer cl0 = Some slot" by (simp add: tuned_def)
      have cev: "cev = KeysDue" using False None by blast
      from keys_move [OF step [unfolded cev] timer] obtain i r s0 w0 ms where
        i: "createIdentity C (w_entropy (cl_world cl0)) = (i, r)" and s0: "new_PeerSession slot i = Inr s0"
        and w0: "w0 = (cl_world cl0)\<lparr>w_entropy := r\<rparr>"
        and mv: "moves C (concat (map session_events ms)) (cl0\<lparr>cl_session := Some s0, cl_world := w0\<rparr>) (replies KeysDue es) cl'"
        by blast
      have "client_ok C i" using C i by (metis fst_conv honest_module_def)
      moreover have "slot \<in> set SLOTS" using slot_at_slots [of "se_server se" k] inv slot(1) by (simp add: service_inv_def)
      then have "VStr slot \<in> {client_A, client_B}" by (auto simp: SLOTS_def slot_values)
      moreover have "w_heap w0 = []" using before None by (simp add: grown_client_def w0)
      ultimately have fresh: "fresh_session s0 w0" using s0 client_okD(1) by (auto simp: fresh_session_def)
      have "ps_selfId s0 = slot" using s0 by (auto simp: new_PeerSession_def split: if_splits)
      with grown_created [OF fresh, of "cl0\<lparr>cl_session := Some s0, cl_world := w0\<rparr>" C W]
      have "grown C W (cl0\<lparr>cl_session := Some s0, cl_world := w0\<rparr>) s1 \<and> ps_selfId s1 = slot"
        if "cl_session (cl0\<lparr>cl_session := Some s0, cl_world := w0\<rparr>) = Some s1" for s1 using that by simp
      from grown_moves [OF mv _ this total new] show ?thesis using mv by (auto simp: grown_client_def moves_def)
    qed
  qed
qed

section \<open>Every run\<close>

lemma run_grown:
  assumes C: "honest_module C" and run: "fold (service_next C) evs (Inr (service_start host port tty entropy)) = Inr se"
    and cl: "se_client se k = Some cl"
  shows "grown_client C (wrote C (service_start host port tty entropy) evs) cl"
  using run cl
proof (induction evs arbitrary: se k cl rule: rev_induct)
  case Nil
  then show ?case by (auto simp: service_start_def client_start_def grown_client_def)
next
  case (snoc ev evs)
  let ?start = "service_start host port tty entropy"
  obtain se0 where before: "fold (service_next C) evs (Inr ?start) = Inr se0"
    using service_run_safe [OF C] by blast
  have W: "wrote C ?start evs \<le> wrote C ?start (evs @ [ev])"
    using wrote_more [of C ?start evs _ _ "[ev]"] by (simp add: le_fun_def)
  show ?case
  proof (cases "enabled se0 ev")
    case True
    have "service_do C ev se0 = Inr se" using snoc.prems(1) before True by simp
    from client_grows [OF C run_sources [OF C before] W wrote_last [OF before True] this snoc.IH [OF before] snoc.prems(2)]
    show ?thesis .
  next
    case False
    then have "se = se0" using snoc.prems(1) before by simp
    with grown_client_more [OF snoc.IH [OF before] W] snoc.prems(2) show ?thesis by simp
  qed
qed

section \<open>The same ID, the same key\<close>

text \<open>What is signed was sent.\<close>

lemma signed_sent:
  "f \<in> set (signings C evs sw) \<Longrightarrow> \<exists>d \<in> set (all_sends C evs sw). is_signed d \<and> (\<exists>k. f = handshake_fields C k d)"
  by (induction evs arbitrary: sw) (fastforce simp: session_signs_def signed_by_def split: if_splits)+

text \<open>An established initiator wrote the KEY_EXCHANGE of its session.\<close>

lemma initiator_wrote:
  assumes grown: "grown C W cl s" and C: "module_total C" and st: "ps_selfId s = CLIENT_A" "ps_state s = ESTABLISHED"
  obtains m enc r t where "W CLIENT_A m" "field m ''type'' = VStr KEY_EXCHANGE" "field m ''sessionId'' = ps_sessionId s"
    "fst (nc_publicEncrypt C enc (the_key s (cl_world cl)) r) = Some (base64_decode (text_of (field m ''encryptedSessionKey'')))"
    "nc_createPublicKey C t = Some enc" "length (the_key s (cl_world cl)) = 32"
proof -
  obtain s0 w0 sevs where h: "fresh_session s0 w0" "ps_selfId s0 = CLIENT_A"
    "run_session C sevs (s0, w0) = (s, cl_world cl)"
    "\<forall>d \<in> set (all_sends C sevs (s0, w0)). field d ''type'' \<noteq> VStr CHAT \<longrightarrow> W CLIENT_A d"
    using grown st(1) by (auto simp: grown_def)
  have ini: "ps_selfId s0 = INITIATOR_ID" using h(2) by (simp add: INITIATOR_ID_def CLIENT_A_def)
  let ?key = "the_key s (cl_world cl)"
  obtain enc sig where phase: "phase_after C sevs (s0, w0) (length sevs) = Live (ps_sessionId s) ?key enc sig"
    using st(2) by (simp add: phase_after_def h(3) session_phase_def Let_def)
  then obtain f where f: "f \<in> set (signings C sevs (s0, w0))" "offers C f (ps_sessionId s) ?key enc"
    using initiator_offered [OF C h(1) ini] by blast
  from signed_sent [OF f(1)] obtain m k where m: "m \<in> set (all_sends C sevs (s0, w0))" "is_signed m" "f = handshake_fields C k m"
    by blast
  have type: "field m ''type'' = VStr KEY_EXCHANGE"
    using f(2) m(2,3) by (auto simp: offers_def is_signed_def handshake_fields_def ack_fields_def)
  with f(2) m(3) obtain r where "field m ''sessionId'' = ps_sessionId s"
    "fst (nc_publicEncrypt C enc ?key r) = Some (base64_decode (text_of (field m ''encryptedSessionKey'')))"
    by (auto simp: offers_def handshake_fields_def exchange_fields_def)
  moreover have "W CLIENT_A m" using h(4) m(1) type by (simp add: js_def)
  moreover note phase_after_known(2) [OF C h(1) phase]
  then have "\<exists>t. nc_createPublicKey C t = Some enc" "length ?key = 32"
    using importPublicKey_parsed by (fastforce simp: greeted_def hello_from_def)+
  ultimately show thesis using that type by blast
qed

text \<open>
  RSA-OAEP detects a wrong key (RFC 8017, 7.1.2): what was encrypted for one public key is not
  decrypted with the private key of another.
\<close>

definition wrong_key_fails :: "'r node_crypto \<Rightarrow> bool" where
  "wrong_key_fails C \<longleftrightarrow> (\<forall>t enc t' pub priv key r c p. nc_createPublicKey C t = Some enc \<longrightarrow>
     nc_createPublicKey C t' = Some pub \<longrightarrow> oaep_pair C pub priv \<longrightarrow> fst (nc_publicEncrypt C enc key r) = Some c \<longrightarrow>
     nc_privateDecrypt C priv c = Some p \<longrightarrow> enc = pub)"

text \<open>Two different KEY_EXCHANGE messages with one session ID were written.\<close>

definition id_reused :: "sources \<Rightarrow> jsval \<Rightarrow> bool" where
  "id_reused W sid \<longleftrightarrow> (\<exists>m m'. m \<noteq> m' \<and> W CLIENT_A m \<and> W CLIENT_A m'
     \<and> field m ''type'' = VStr KEY_EXCHANGE \<and> field m' ''type'' = VStr KEY_EXCHANGE
     \<and> field m ''sessionId'' = sid \<and> field m' ''sessionId'' = sid)"

text \<open>
  Property C5: agreement in the service. If the session of a client A and the session of a
  client B are ESTABLISHED and show the same session ID, then both have the same key, however
  the processes came and went before. The only way out is a session ID that was drawn twice,
  for two different exchanges; it has 128 random bits.
\<close>

theorem same_id_same_key:
  assumes C: "honest_module C" and oaep: "wrong_key_fails C"
    and run: "fold (service_next C) evs (Inr (service_start host port tty entropy)) = Inr se"
    and A: "se_client se j = Some clA" "cl_session clA = Some sA" "ps_selfId sA = CLIENT_A" "ps_state sA = ESTABLISHED"
    and B: "se_client se k = Some clB" "cl_session clB = Some sB" "ps_selfId sB = CLIENT_B" "ps_state sB = ESTABLISHED"
    and id: "ps_sessionId sA = ps_sessionId sB"
  shows "the_key sA (cl_world clA) = the_key sB (cl_world clB)
    \<or> id_reused (wrote C (service_start host port tty entropy) evs) (ps_sessionId sA)"
proof -
  let ?W = "wrote C (service_start host port tty entropy) evs"
  let ?i = "ps_identity sB"
  have total: "module_total C" using C by (simp add: honest_module_def)
  obtain m enc r t where m: "?W CLIENT_A m" "field m ''type'' = VStr KEY_EXCHANGE" "field m ''sessionId'' = ps_sessionId sA"
    and ek: "fst (nc_publicEncrypt C enc (the_key sA (cl_world clA)) r) = Some (base64_decode (text_of (field m ''encryptedSessionKey'')))"
    and enc: "nc_createPublicKey C t = Some enc" and len: "length (the_key sA (cl_world clA)) = 32"
    by (rule initiator_wrote [OF _ total A(3,4)]) (use run_grown [OF C run A(1)] A(2) in \<open>simp add: grown_client_def\<close>)
  have not_A: "CLIENT_B \<noteq> CLIENT_A" "otherSlot CLIENT_B = CLIENT_A" using slot_names by (simp_all add: otherSlot_def)
  from session_rests_on [OF C run B(1,2,4)] B(3) not_A obtain m' sig where
    m': "?W CLIENT_A m'" "field m' ''sessionId'' = ps_sessionId sB"
    and ver: "exchange_verified C m' (VStr CLIENT_A) (VStr CLIENT_B) sig (kp_public (id_encryption ?i))
        (kp_private (id_encryption ?i)) (the_key sB (cl_world clB))" by auto
  have type': "field m' ''type'' = VStr KEY_EXCHANGE"
    using ver by (simp add: exchange_verified_def exchange_schema_def handshake_envelope_def)
  show ?thesis
  proof (cases "m = m'")
    case False
    with m m' type' id show ?thesis by (auto simp: id_reused_def)
  next
    case True
    from has_slot [OF run_sources [OF C run] B(1)] B(2) obtain slot where "tuned C ?W slot clB" by auto
    from tuned_session(3) [OF this B(2)] have ok: "client_ok C ?i" .
    note pair = client_okD(3) [OF ok]
    have pub: "\<exists>t. nc_createPublicKey C t = Some (kp_public (id_encryption ?i))"
      using ok by (auto simp: client_ok_def pem_key_def Let_def)
    have dec: "nc_privateDecrypt C (kp_private (id_encryption ?i)) (base64_decode (text_of (field m ''encryptedSessionKey'')))
        = Some (the_key sB (cl_world clB))" using ver True by (simp add: exchange_verified_def)
    have "enc = kp_public (id_encryption ?i)" using oaep enc pub pair ek dec unfolding wrong_key_fails_def by blast
    with oaep_decrypts [OF pair len] ek dec show ?thesis by simp
  qed
qed

lemma sample_wrong_key: "wrong_key_fails sample_crypto"
proof -
  have "enc = pub" if a: "sample_parse t = Some enc" "sample_parse t' = Some pub" "oaep_pair sample_crypto pub priv"
    and c: "fst (sample_encrypt enc key r) = Some c" "sample_decrypt priv c = Some p" for t enc t' pub priv key r c p
  proof -
    obtain a b where k: "enc = sample_key PublicKey a" "pub = sample_key PublicKey b"
      using a(1,2) by (auto simp: sample_parse_def split: list.splits)
    have "length ([] :: bytes) + 66 \<le> modulusLength pub div 8" by (simp add: k sample_key_def)
    with a(3) obtain c0 r' where "nc_publicEncrypt sample_crypto pub [] 0 = (Some c0, r')"
      "nc_privateDecrypt sample_crypto priv c0 = Some []" unfolding oaep_pair_def by blast
    then have "take 1 (key_material priv) = [b]"
      by (auto simp: sample_crypto_def sample_encrypt_def sample_decrypt_def Let_def k sample_key_def split: if_splits)
    moreover have "take 1 (key_material priv) = [a]"
      using c by (auto simp: sample_encrypt_def sample_decrypt_def Let_def k sample_key_def split: if_splits)
    ultimately show "enc = pub" using k by simp
  qed
  then show ?thesis unfolding wrong_key_fails_def by (simp add: sample_crypto_def)
qed

theorem same_id_same_key_witness:
  "\<exists>evs se clA clB sA sB. fold (service_next sample_crypto) evs (Inr sample_service) = Inr se
    \<and> se_client se 1 = Some clA \<and> cl_session clA = Some sA \<and> ps_state sA = ESTABLISHED
    \<and> se_client se 2 = Some clB \<and> cl_session clB = Some sB \<and> ps_state sB = ESTABLISHED
    \<and> (the_key sA (cl_world clA) = the_key sB (cl_world clB)
       \<or> id_reused (wrote sample_crypto sample_service evs) (ps_sessionId sA))"
proof -
  obtain n where n: "(sys_step sample_crypto ^^ 17) (sys_start (server_start (js ''127.0.0.1'') 5000)
      (fresh_clients ((\<lambda>k. True) \<circ> socket) (js ''127.0.0.1'' @ js '':'' @ nat_to_string 5000)
        (\<lambda>x. \<lparr>w_entropy = (\<lambda>k. k) (socket x), w_heap = []\<rparr>))) n" "secured n"
    by (rule closed_run_exists [OF sample_honest_module])
  from run_embedded [OF sample_honest_module start_embedded service_inv_start n(1)] obtain evs se where
    run: "fold (service_next sample_crypto) evs (Inr (service_start (js ''127.0.0.1'') 5000 (\<lambda>k. True) (\<lambda>k. k))) = Inr se"
    and emb: "embedded n se" by blast
  have client: "se_client se 1 = Some (sy_client n First)" "se_client se 2 = Some (sy_client n Second)"
    using embeddedD(4) [OF emb, of First] embeddedD(4) [OF emb, of Second] by simp_all
  from n(2) obtain sA sB where s: "cl_session (sy_client n First) = Some sA" "cl_session (sy_client n Second) = Some sB"
    "ps_selfId sA = CLIENT_A" "ps_selfId sB = CLIENT_B" "ps_state sA = ESTABLISHED" "ps_state sB = ESTABLISHED"
    "ps_sessionId sA = ps_sessionId sB" unfolding secured_def by blast
  from same_id_same_key [OF sample_honest_module sample_wrong_key run client(1) s(1,3,5) client(2) s(2,4,6,7)]
    run client s(1,2,5,6) show ?thesis unfolding sample_service_def by blast
qed

end
