(* ===== verification/Spec2Isabelle.thy ===== *)
theory Spec2Isabelle
  imports AgreementLimits Reconnection ServiceAgreement
begin

text \<open>
  CipherLink, a TCP chat of two clients over a relay, whose clients agree on a session key
  with a signed RSA key exchange. This development translates the program under \<open>src/\<close> to
  HOL and proves what makes it correct, and where it is not.

  THE PROGRAM AND ITS PARTS. \<open>server.js\<close> accepts two connections, gives each a slot
  (\<open>Client A\<close>, \<open>Client B\<close>), tells each about the other, and relays lines of JSON between
  them. \<open>client.js\<close> connects, generates its RSA key pairs after the notice that names it,
  runs a \<open>PeerSession\<close> (\<open>security/peer-session.js\<close>) over the handshake messages it receives,
  and prints what it gets. The session uses \<open>security/handshake.js\<close> to create and check
  KEY_EXCHANGE and KEY_EXCHANGE_ACK, which sign the bytes of \<open>protocol/canonical.js\<close> with the
  wrappers of \<open>crypto/\<close>. Both programs read and write with \<open>protocol/message.js\<close>: frames
  (\<open>LineBuffer\<close>), JSON text (\<open>encode\<close>, \<open>decode\<close>), factories, and \<open>validateMessage\<close>.

  THE LANGUAGE. \<open>JsString\<close> (strings as UTF-16 code units, \<open>trim\<close>, \<open>split\<close>), \<open>JsNumber\<close>
  (doubles, exactly), \<open>JsValue\<close> (values as parsed from JSON, property reads that see
  \<open>Object.prototype\<close>, \<open>String(v)\<close> with its exceptions), \<open>Utf8\<close> and \<open>Encoding\<close> (\<open>Buffer\<close>: UTF-8
  with replacement characters, base64, hex, \<open>writeUInt32BE\<close>). Exceptions are values of
  \<open>js_error\<close> in a sum; \<open>try_bind\<close> of \<open>Prelude\<close> is the sequence of two statements.

  THE MODEL, theory by theory.
  \<open>LineBuffer\<close>: the class of \<open>message.js\<close> with its limit \<open>MAX_FRAME_SIZE\<close>, as a record.
  \<open>Message\<close>: message types, factories and \<open>validateMessage\<close> with every reason it gives.
  \<open>JsonText\<close>: \<open>encode\<close> as a printer, \<open>decode\<close> as a lexer and a parser of the full grammar.
  \<open>Canonical\<close>: \<open>canonicalizeHandshake\<close> and its length prefixes.
  \<open>Crypto\<close>: \<open>keys.js\<close>, \<open>rsa.js\<close>, \<open>signing.js\<close>, \<open>session.js\<close>, \<open>hash.js\<close>.
  \<open>Handshake\<close>: \<open>identity.js\<close> and \<open>handshake.js\<close>; buffers with keys live in an explicit heap
  (\<open>w_heap\<close>), so that overwriting a key, or forgetting to, is visible.
  \<open>PeerSession\<close>: the class, one function for each method, state and world passed along.
  \<open>Server\<close>: the tables of slots, sockets and connections, and one handler for each event of
  the listening socket, of a connection and of the process; \<open>server_step\<close> dispatches.
  \<open>Client\<close>: the variables of the module, one handler for each event of the socket, the
  timers, the lines typed and the signal; \<open>client_step\<close> dispatches.
  Both return what they write, log, print and schedule as a list of effects, in order.

  WHAT THE LEMMAS SHOW.
  \<open>MessageLaws\<close>: validation is equivalent to a declarative schema; when it throws.
  \<open>Transport\<close>: messages cut into chunks at character boundaries arrive, in order.
  \<open>FrameSize\<close>: every valid handshake message fits in a frame.
  \<open>HandshakeLaws\<close>: completeness, soundness and agreement of both signed messages.
  \<open>SessionLaws\<close>, \<open>SessionProperties\<close>: an invariant of \<open>PeerSession\<close>, and that every event makes
  a move of an abstract session (\<open>move\<close>); authentication and key hygiene over all histories.
  \<open>SessionBounds\<close>: what a peer can make a session send and allocate is bounded, since its
  state only moves forward in the order of \<open>session_state\<close>.
  \<open>SessionLimits\<close>: a failed exchange leaves its key behind; oversized keys; renewal.
  \<open>Agreement\<close>: two sessions over a network that is not trusted, each receiving any sequence of
  messages; what a session signs is read off from what it sends (\<open>signings\<close>). If nobody
  forges a signature (\<open>unforged\<close>), fingerprints tell the received keys apart (\<open>told_apart\<close>) and
  session IDs do not repeat, an established session agrees with its peer on ID and key.
  \<open>AgreementLimits\<close>: for the initiator this needs that the responder has its signing key too;
  an attack shows that trusting the peer's signing key alone is not enough.
  \<open>TwoParty\<close>: two sessions over a network that only orders the messages: every interleaving
  runs along one script, and ends established on one key.
  \<open>Reconnection\<close>: the same for sessions that have a past, as long as no message of it is still
  on its way; and that the new pair never gets a session if the HELLO and KEY_EXCHANGE for the
  client that left reach the one that takes its slot.
  \<open>ServerLaws\<close>, \<open>ServerProperties\<close>, \<open>ServerOutput\<close>: the invariant of the slots, authenticity
  of what is relayed, that everything written is a valid line, an exact description of the
  events that crash the server, independence of the cuts of TCP, and the shutdown.
  \<open>ClientLaws\<close>, \<open>ClientProperties\<close>: the client's invariant, key hygiene over its runs, the
  messages that end it, the order of key generation and messages, what its user sends and
  what it shows of its keys.
  \<open>ClientHistory\<close>: a client process is a shell around \<open>PeerSession\<close>: over any run its session is
  what the class makes of the messages that arrived, each once and in order, and the process
  sends what the class returns; so the theorems about sessions hold of processes.
  \<open>EndToEnd\<close>: one message or chat line from client to client through the server.
  \<open>ClientScript\<close>, \<open>System\<close>: the server and two clients with all their sockets and timers;
  every order of events ends after 17 steps with both clients established on the same key.
  \<open>Service\<close>, \<open>Speech\<close>, \<open>ClientSpeech\<close>, \<open>ServerSpeech\<close>, \<open>ServiceProperties\<close>: the open system, a server
  and any number of client processes that connect and leave, users who type anything, and
  streams of text cut into pieces of any size. \<open>Speech\<close> is the language the processes use
  (\<open>client_says\<close>, \<open>server_says\<close>); the next two theories show that a process that hears it
  speaks it and does not crash; the invariant \<open>service_inv\<close> puts them together. Its parameter
  \<open>W\<close> tells which messages have been written under which slot: \<open>Provenance\<close> takes for it what the
  processes wrote in the run (\<open>wrote\<close>), and shows where each message comes from.
  \<open>Embedding\<close>: the runs of \<open>System\<close> are runs of \<open>Service\<close>; what an established session rests on.
  \<open>ServiceAgreement\<close>: the sessions of the service as histories of \<open>PeerSession\<close>; two clients that
  are established under one session ID have the same key, or the ID was drawn twice.

  INTERFACES. The locales of \<open>Prelude\<close>: \<open>codec\<close> (a lossless encoding), interpreted for
  base64, UTF-8 and JSON text; \<open>self_delimiting\<close> (its end can be found), a sublocale of
  \<open>codec\<close>, for the length-prefixed fields; \<open>machine\<close> (an invariant that steps keep),
  for the line buffer, the session, its abandoned buffers, the server in service and after a
  signal, the client, and the service; \<open>framing\<close> (chunks do not matter), for \<open>LineBuffer\<close>.

  WHAT IS ASSUMED. Node's \<open>crypto\<close> is not in the repository: it is the record \<open>node_crypto\<close>, an
  argument of every definition that uses it, and theorems name what they rely on: \<open>random_ok\<close>,
  \<open>sha256_ok\<close>, \<open>module_ok\<close> (lengths of random bytes and digests), \<open>oaep_pair\<close>, \<open>pss_pair\<close>,
  \<open>pem_key\<close> (matching pairs decrypt, verify and survive their PEM form), \<open>keygen_ok\<close> (what key
  generation returns), \<open>module_total\<close> (keys are at most 16384 bits long, OpenSSL's limit, and
  with such keys encryption and signing do not fail); agreement assumes that the peer's key
  has signed only what the peer created; the open system assumes \<open>honest_module\<close>, that is
  \<open>module_total\<close> and that every generated identity works; \<open>cannot_open\<close> says that a ciphertext
  for the key of one client is not decrypted with the key of another, and \<open>wrong_key_fails\<close> says it
  of all keys. \<open>SampleCrypto\<close> is a module with this behaviour, on
  which the witnesses run. Sockets, timers and signals are events; \<open>possible\<close> and \<open>admissible\<close>
  say which of them Node can report in a state, and a write to a socket that is not destroyed
  does not throw. In \<open>System\<close> each write arrives as one chunk; in \<open>Service\<close> the pieces have any
  size but end between characters, what other cuts do is shown in \<open>Transport\<close>. An error on the
  socket of a rejected third client, which ends the server (\<open>third_client\<close>), is not an event of
  \<open>Service\<close>.

  BOUNDS. There is no fuel: all loops are structural recursion or have a measure (the lexer,
  the number parser, and \<open>drain\<close>, by the length of its queue). Frames have at most 65536 bytes,
  PEM texts 4096 characters, RSA outputs 1024 bytes; lengths in signed bytes are below 2^32,
  and the theorems say where this matters.

  NOT MODELLED. Reading host, port and terminal width from the environment, the time of log
  lines, \<open>readline\<close> itself, \<open>require\<close> and \<open>module.exports\<close>, getters that only read a field, and
  the tests. The remaining lines of the sources are comments. That the open system always makes
  progress is not a theorem of this program: clients that stay get a session (\<open>System\<close>), and so
  do clients with a past once its messages are gone, but not before (\<open>Reconnection\<close>,
  \<open>stale_messages_stall\<close>).
\<close>

end
